(* ===== verification/Prelude.thy ===== *)
theory Prelude
  imports Main "HOL-Library.Word"
begin

text \<open>
  Shared vocabulary of the AeroBench-SITL development: the machine types of the C code,
  byte buffers with the stores the code makes into them (\<open>buf_put\<close> for \<open>memcpy\<close> and the
  field writers, list update for a single-byte store), C strings (\<open>strncpy\<close>,
  \<open>snprintf\<close> with string arguments), and the lemma collections the component theories
  feed and use.

  A float or a double is kept as its IEEE 754 bit pattern, a \<open>32 word\<close> or a
  \<open>64 word\<close>: that is what \<open>memcpy\<close> between the float and an integer of the same size
  exposes, and what the wire formats carry.  Theory \<open>Floats\<close> gives the patterns their
  comparisons and arithmetic.
\<close>

unbundle bit_operations_syntax

type_synonym byte = "8 word"
type_synonym u16 = "16 word"
type_synonym u32 = "32 word"
type_synonym u64 = "64 word"
type_synonym f32 = "32 word"
type_synonym f64 = "64 word"
type_synonym buf = "byte list"

named_theorems buf_simps \<open>stores into byte buffers and slices of them\<close>
named_theorems len_simps \<open>lengths of encoded fields, packets and frames\<close>

section \<open>Byte buffers\<close>

text \<open>\<open>buf_put off bs b\<close> is the buffer \<open>b\<close> after the bytes \<open>bs\<close> were stored from
  offset \<open>off\<close> on; the store is within bounds when \<open>off + length bs \<le> length b\<close>.\<close>

definition buf_put :: "nat \<Rightarrow> 'a list \<Rightarrow> 'a list \<Rightarrow> 'a list" where
  "buf_put off bs b = take off b @ bs @ drop (off + length bs) b"

text \<open>A run of stores through an advancing pointer, as the field writers do it
  (\<open>put_f32(p, ..); p += 4;\<close>): the buffer and the final offset.\<close>

definition emit :: "'a list \<times> nat \<Rightarrow> 'a list \<Rightarrow> 'a list \<times> nat" where
  "emit st bs = (buf_put (snd st) bs (fst st), snd st + length bs)"

definition emit_all :: "'a list \<Rightarrow> nat \<Rightarrow> 'a list list \<Rightarrow> 'a list \<times> nat" where
  "emit_all b p chunks = foldl emit (b, p) chunks"

lemma length_buf_put [buf_simps]:
  "off + length bs \<le> length b \<Longrightarrow> length (buf_put off bs b) = length b"
  by (simp add: buf_put_def)

lemma take_buf_put [buf_simps]:
  "off + length bs \<le> length b \<Longrightarrow>
   take (off + length bs) (buf_put off bs b) = take off b @ bs"
  by (simp add: buf_put_def)

lemma drop_buf_put [buf_simps]:
  "off + length bs \<le> length b \<Longrightarrow>
   drop (off + length bs) (buf_put off bs b) = drop (off + length bs) b"
  by (simp add: buf_put_def)

lemma buf_put_Nil [simp]: "buf_put off [] b = b"
  by (simp add: buf_put_def)

lemma buf_put_0: "buf_put 0 bs b = bs @ drop (length bs) b"
  by (simp add: buf_put_def)

lemma buf_put_append:
  "off + length xs \<le> length b \<Longrightarrow>
   buf_put (off + length xs) ys (buf_put off xs b) = buf_put off (xs @ ys) b"
  by (simp add: buf_put_def ac_simps)

lemma buf_put_prefix:
  "length xs = n \<Longrightarrow> length bs \<le> length r \<Longrightarrow>
   buf_put n bs (xs @ r) = xs @ bs @ drop (length bs) r"
  by (auto simp add: buf_put_def)

lemma emit_all_eq:
  "p + length (concat chunks) \<le> length b \<Longrightarrow>
   emit_all b p chunks = (buf_put p (concat chunks) b, p + length (concat chunks))"
proof (induction chunks arbitrary: b p)
  case Nil
  then show ?case by (simp add: emit_all_def)
next
  case (Cons c cs)
  let ?b = "buf_put p c b"
  have "emit_all b p (c # cs) = emit_all ?b (p + length c) cs"
    by (simp add: emit_all_def emit_def)
  also have "\<dots> = (buf_put (p + length c) (concat cs) ?b, p + length c + length (concat cs))"
    using Cons.prems by (intro Cons.IH) (simp add: buf_simps)
  also have "buf_put (p + length c) (concat cs) ?b = buf_put p (c @ concat cs) b"
    using Cons.prems by (simp add: buf_put_append)
  finally show ?case by simp
qed

section \<open>C strings\<close>

text \<open>A C string is the list of its bytes before the terminating NUL.  A literal has none
  of value 0 among them.\<close>

definition c_str :: "string \<Rightarrow> byte list" where
  "c_str s = map of_char s"

text \<open>\<open>strncpy(dst, src, n)\<close>: the first \<open>n\<close> bytes of \<open>dst\<close> become those of \<open>src\<close>,
  cut at \<open>n\<close> (with no terminator then) or filled up with NUL.\<close>

definition c_strncpy :: "buf \<Rightarrow> byte list \<Rightarrow> nat \<Rightarrow> buf" where
  "c_strncpy dst src n = take n (src @ replicate n 0) @ drop n dst"

text \<open>The string that \<open>snprintf(buf, n, ..)\<close> leaves in \<open>buf\<close> when the formatted
  text is \<open>s\<close>.\<close>

definition c_snprintf :: "nat \<Rightarrow> byte list \<Rightarrow> byte list" where
  "c_snprintf n s = take (n - 1) s"

lemma length_c_str [len_simps]: "length (c_str s) = length s"
  by (simp add: c_str_def)

lemma length_c_strncpy [len_simps]:
  "n \<le> length dst \<Longrightarrow> length (c_strncpy dst src n) = length dst"
  by (simp add: c_strncpy_def)

lemma c_strncpy_fits:
  "length src \<le> n \<Longrightarrow> c_strncpy dst src n = src @ replicate (n - length src) 0 @ drop n dst"
  by (simp add: c_strncpy_def)

section \<open>Words\<close>

lemma word_hi_lo:
  fixes w :: u16
  shows "ucast (ucast w :: byte) OR push_bit 8 (ucast (ucast (drop_bit 8 w) :: byte)) = w"
  by (rule bit_word_eqI) (auto simp: bit_simps)

lemma ucast_and_FF: "(ucast (w AND 0xFF) :: byte) = ucast (w :: u16)"
proof -
  have m: "(0xFF :: u16) = mask 8" by (simp add: mask_eq_exp_minus_1)
  show ?thesis unfolding m by (auto intro!: bit_word_eqI simp: bit_simps)
qed

lemma bit_byte_beyond: "\<not> bit (b :: byte) (8 + n)"
  using bit_imp_le_length [of b "8 + n"] by auto

lemma ucast_u16_byte [simp]: "ucast (ucast b :: u16) = (b :: byte)"
  by (rule bit_word_eqI) (auto simp: bit_simps)

lemma u16_of_bytes:
  fixes lo hi :: byte
  defines "w \<equiv> (ucast lo :: u16) OR push_bit 8 (ucast hi)"
  shows "ucast w = lo" "ucast (drop_bit 8 w) = hi"
  unfolding w_def by (auto intro!: bit_word_eqI simp: bit_simps bit_byte_beyond)

lemma word_bytes_inject:
  fixes v w :: u16
  assumes "(ucast v :: byte) = ucast w" "(ucast (drop_bit 8 v) :: byte) = ucast (drop_bit 8 w)"
  shows "v = w"
  by (metis assms word_hi_lo)

section \<open>Lists\<close>

lemma ex_list_update:
  assumes "i < length xs" "\<not> P (xs ! i)"
  shows "(\<exists>x \<in> set (xs[i := y]). P x) \<longleftrightarrow> P y \<or> (\<exists>x \<in> set xs. P x)"
proof -
  have "set (xs[i := y]) = insert y (set (take i xs) \<union> set (drop (Suc i) xs))"
    unfolding upd_conv_take_nth_drop [OF assms(1)] by auto
  moreover have "set xs = insert (xs ! i) (set (take i xs) \<union> set (drop (Suc i) xs))"
    by (subst id_take_nth_drop [OF assms(1)]) auto
  ultimately show ?thesis using assms(2) by auto
qed

end
