(* ===== verification/Floats.thy ===== *)
theory Floats
  imports Prelude "HOL-Library.Log_Nat"
begin

text \<open>
  IEEE 754 binary32 and binary64 as the C code uses them (\<open>float\<close>, \<open>double\<close>, round to
  nearest even, no fused operations), computed on bit patterns with integers only, so that
  every definition evaluates.  A finite number of precision \<open>p\<close> is an integral multiple of
  the smallest subnormal; \<open>fp_units\<close> is that multiple, for the 31 (63) magnitude bits read
  as an integer.  Rounding goes the other way (\<open>fp_round\<close>).

  An operation with a NaN result gives the default quiet NaN; which NaN a processor picks is
  not modelled.  \<open>sqrtf\<close> is correctly rounded, as IEEE 754 requires.  The transcendental
  functions of the C library are not modelled here.
\<close>

section \<open>Formats, decoding and rounding on integers\<close>

record fp_format =
  fp_prec :: nat    \<comment> \<open>significand bits, the hidden one included\<close>
  fp_expt :: nat    \<comment> \<open>exponent bits\<close>

definition F32 :: fp_format where "F32 = \<lparr>fp_prec = 24, fp_expt = 8\<rparr>"
definition F64 :: fp_format where "F64 = \<lparr>fp_prec = 53, fp_expt = 11\<rparr>"

definition fp_hidden :: "fp_format \<Rightarrow> int" where
  "fp_hidden F = 2 ^ (fp_prec F - 1)"

definition fp_sign_weight :: "fp_format \<Rightarrow> int" where
  "fp_sign_weight F = 2 ^ (fp_expt F + fp_prec F - 1)"

text \<open>The magnitude of infinity; larger magnitudes are NaNs.\<close>

definition fp_inf :: "fp_format \<Rightarrow> int" where
  "fp_inf F = (2 ^ fp_expt F - 1) * fp_hidden F"

definition fp_qnan :: "fp_format \<Rightarrow> int" where
  "fp_qnan F = fp_inf F + fp_hidden F div 2"

text \<open>The number 1, in units of the smallest subnormal: \<open>2 ^ 149\<close> for binary32.\<close>

definition fp_one :: "fp_format \<Rightarrow> int" where
  "fp_one F = 2 ^ (2 ^ (fp_expt F - 1) + fp_prec F - 3)"

definition fp_neg :: "fp_format \<Rightarrow> int \<Rightarrow> bool" where
  "fp_neg F x \<longleftrightarrow> fp_sign_weight F \<le> x"

definition fp_mag :: "fp_format \<Rightarrow> int \<Rightarrow> int" where
  "fp_mag F x = x mod fp_sign_weight F"

definition fp_nan :: "fp_format \<Rightarrow> int \<Rightarrow> bool" where
  "fp_nan F x \<longleftrightarrow> fp_inf F < fp_mag F x"

definition fp_units :: "fp_format \<Rightarrow> int \<Rightarrow> int" where
  "fp_units F m =
     (let e = m div fp_hidden F
      in if e = 0 then m else (fp_hidden F + m mod fp_hidden F) * 2 ^ nat (e - 1))"

text \<open>The signed value of a finite number, in units.\<close>

definition fp_value :: "fp_format \<Rightarrow> int \<Rightarrow> int" where
  "fp_value F x = (if fp_neg F x then - fp_units F (fp_mag F x) else fp_units F (fp_mag F x))"

text \<open>The integer nearest to \<open>n / d\<close>, the even one of two.\<close>

definition rne :: "int \<Rightarrow> int \<Rightarrow> int" where
  "rne n d =
     (let q = n div d; r = n mod d
      in if 2 * r < d then q else if d < 2 * r then q + 1
         else if even q then q else q + 1)"

text \<open>The magnitude of the number nearest to \<open>n / d\<close> units.  With \<open>k\<close> low bits cut off,
  a significand \<open>m\<close> lies between the hidden bit and its double, the double included, and
  the exponent field and the fraction are both read off \<open>k * hidden + m\<close>.\<close>

definition fp_round :: "fp_format \<Rightarrow> int \<Rightarrow> int \<Rightarrow> int" where
  "fp_round F n d =
     (let k = nat (bitlen (n div d) - int (fp_prec F));
          m = rne n (d * 2 ^ k)
      in min (fp_inf F) (int k * fp_hidden F + m))"

definition fp_make :: "fp_format \<Rightarrow> bool \<Rightarrow> int \<Rightarrow> int" where
  "fp_make F s m = (if s then fp_sign_weight F + m else m)"

definition fp_of_units :: "fp_format \<Rightarrow> int \<Rightarrow> int \<Rightarrow> int" where
  "fp_of_units F n d = fp_make F (n < 0) (fp_round F \<bar>n\<bar> d)"

section \<open>Arithmetic\<close>

definition fp_add :: "fp_format \<Rightarrow> int \<Rightarrow> int \<Rightarrow> int" where
  "fp_add F x y =
     (if fp_nan F x \<or> fp_nan F y then fp_qnan F
      else if fp_mag F x = fp_inf F
        then (if fp_mag F y = fp_inf F \<and> fp_neg F x \<noteq> fp_neg F y then fp_qnan F else x)
      else if fp_mag F y = fp_inf F then y
      else (let s = fp_value F x + fp_value F y
            in if s = 0 then fp_make F (fp_neg F x \<and> fp_neg F y) 0 else fp_of_units F s 1))"

definition fp_negate :: "fp_format \<Rightarrow> int \<Rightarrow> int" where
  "fp_negate F x = fp_make F (\<not> fp_neg F x) (fp_mag F x)"

definition fp_sub :: "fp_format \<Rightarrow> int \<Rightarrow> int \<Rightarrow> int" where
  "fp_sub F x y = (if fp_nan F y then fp_qnan F else fp_add F x (fp_negate F y))"

definition fp_mul :: "fp_format \<Rightarrow> int \<Rightarrow> int \<Rightarrow> int" where
  "fp_mul F x y =
     (let s = (fp_neg F x \<noteq> fp_neg F y)
      in if fp_nan F x \<or> fp_nan F y then fp_qnan F
         else if fp_mag F x = fp_inf F \<or> fp_mag F y = fp_inf F
           then (if fp_mag F x = 0 \<or> fp_mag F y = 0 then fp_qnan F else fp_make F s (fp_inf F))
         else fp_make F s
           (fp_round F (fp_units F (fp_mag F x) * fp_units F (fp_mag F y)) (fp_one F)))"

definition fp_div :: "fp_format \<Rightarrow> int \<Rightarrow> int \<Rightarrow> int" where
  "fp_div F x y =
     (let s = (fp_neg F x \<noteq> fp_neg F y)
      in if fp_nan F x \<or> fp_nan F y then fp_qnan F
         else if fp_mag F x = fp_inf F
           then (if fp_mag F y = fp_inf F then fp_qnan F else fp_make F s (fp_inf F))
         else if fp_mag F y = fp_inf F then fp_make F s 0
         else if fp_mag F y = 0
           then (if fp_mag F x = 0 then fp_qnan F else fp_make F s (fp_inf F))
         else fp_make F s
           (fp_round F (fp_units F (fp_mag F x) * fp_one F) (fp_units F (fp_mag F y))))"

text \<open>The integer square root, digit by digit in base 4.\<close>

function isqrt :: "int \<Rightarrow> int" where
  "isqrt n =
     (if n \<le> 0 then 0
      else let r = 2 * isqrt (n div 4) in if (r + 1) * (r + 1) \<le> n then r + 1 else r)"
  by pat_completeness auto
termination by (relation "measure nat") auto

declare isqrt.simps [simp del]

text \<open>The root in half units, with the last bit saying whether it is exact: enough for the
  rounding to be the one of the real root, whose significand is far shorter.\<close>

definition fp_sqrt :: "fp_format \<Rightarrow> int \<Rightarrow> int" where
  "fp_sqrt F x =
     (if fp_nan F x then fp_qnan F
      else if fp_mag F x = 0 then x
      else if fp_neg F x then fp_qnan F
      else if fp_mag F x = fp_inf F then x
      else (let n = fp_units F (fp_mag F x) * fp_one F; t = isqrt n
            in fp_round F (2 * t + (if t * t = n then 0 else 1)) 2))"

section \<open>Comparison\<close>

text \<open>Sign and magnitude read as one signed integer: both zeros are 0, and for numbers the
  order of these keys is the order of the values.\<close>

definition fp_key :: "fp_format \<Rightarrow> int \<Rightarrow> int" where
  "fp_key F x = (if fp_neg F x then - fp_mag F x else fp_mag F x)"

definition fp_lt :: "fp_format \<Rightarrow> int \<Rightarrow> int \<Rightarrow> bool" where
  "fp_lt F x y \<longleftrightarrow> \<not> fp_nan F x \<and> \<not> fp_nan F y \<and> fp_key F x < fp_key F y"

definition fp_eq :: "fp_format \<Rightarrow> int \<Rightarrow> int \<Rightarrow> bool" where
  "fp_eq F x y \<longleftrightarrow> \<not> fp_nan F x \<and> \<not> fp_nan F y \<and> fp_key F x = fp_key F y"

section \<open>The C types\<close>

definition f32_add :: "f32 \<Rightarrow> f32 \<Rightarrow> f32" where
  "f32_add x y = word_of_int (fp_add F32 (uint x) (uint y))"
definition f32_sub :: "f32 \<Rightarrow> f32 \<Rightarrow> f32" where
  "f32_sub x y = word_of_int (fp_sub F32 (uint x) (uint y))"
definition f32_mul :: "f32 \<Rightarrow> f32 \<Rightarrow> f32" where
  "f32_mul x y = word_of_int (fp_mul F32 (uint x) (uint y))"
definition f32_div :: "f32 \<Rightarrow> f32 \<Rightarrow> f32" where
  "f32_div x y = word_of_int (fp_div F32 (uint x) (uint y))"
definition f32_sqrt :: "f32 \<Rightarrow> f32" where
  "f32_sqrt x = word_of_int (fp_sqrt F32 (uint x))"
definition f32_lt :: "f32 \<Rightarrow> f32 \<Rightarrow> bool" where
  "f32_lt x y = fp_lt F32 (uint x) (uint y)"
definition f32_eq :: "f32 \<Rightarrow> f32 \<Rightarrow> bool" where
  "f32_eq x y = fp_eq F32 (uint x) (uint y)"

text \<open>The literal \<open>n/d\<close>: \<open>10.5f\<close> is \<open>f32_lit 105 10\<close>.\<close>

definition f32_lit :: "int \<Rightarrow> int \<Rightarrow> f32" where
  "f32_lit n d = word_of_int (fp_of_units F32 (n * fp_one F32) d)"

definition f64_lit :: "int \<Rightarrow> int \<Rightarrow> f64" where
  "f64_lit n d = word_of_int (fp_of_units F64 (n * fp_one F64) d)"

text \<open>Double arithmetic, the conversions, and the magnitude of a finite number without its
  fraction.  \<open>f32_of_int\<close> is the cast of an integer, \<open>f32_trunc\<close> the value that the cast of a
  float to an integer type has when the type can hold it.\<close>

definition f64_add :: "f64 \<Rightarrow> f64 \<Rightarrow> f64" where
  "f64_add x y = word_of_int (fp_add F64 (uint x) (uint y))"
definition f64_mul :: "f64 \<Rightarrow> f64 \<Rightarrow> f64" where
  "f64_mul x y = word_of_int (fp_mul F64 (uint x) (uint y))"
definition f64_div :: "f64 \<Rightarrow> f64 \<Rightarrow> f64" where
  "f64_div x y = word_of_int (fp_div F64 (uint x) (uint y))"

definition fp_convert :: "fp_format \<Rightarrow> fp_format \<Rightarrow> int \<Rightarrow> int" where
  "fp_convert F G x =
     (if fp_nan F x then fp_qnan G
      else fp_make G (fp_neg F x)
        (if fp_mag F x = fp_inf F then fp_inf G
         else fp_round G (fp_units F (fp_mag F x) * fp_one G) (fp_one F)))"

definition f64_of_f32 :: "f32 \<Rightarrow> f64" where
  "f64_of_f32 x = word_of_int (fp_convert F32 F64 (uint x))"

definition f32_of_int :: "int \<Rightarrow> f32" where
  "f32_of_int n = word_of_int (fp_of_units F32 (n * fp_one F32) 1)"

definition f32_trunc :: "f32 \<Rightarrow> int" where
  "f32_trunc x =
     (let i = fp_units F32 (fp_mag F32 (uint x)) div fp_one F32
      in if fp_neg F32 (uint x) then - i else i)"

section \<open>The order of the keys is the order of the values\<close>

lemma fp_hidden_pos [simp]: "0 < fp_hidden F"
  by (simp add: fp_hidden_def)

lemma fp_sign_weight_pos [simp]: "0 < fp_sign_weight F"
  by (simp add: fp_sign_weight_def)

lemma fp_units_split:
  assumes "0 \<le> r" "r < fp_hidden F"
  shows "fp_units F (e * fp_hidden F + r) =
    (if e = 0 then r else (fp_hidden F + r) * 2 ^ nat (e - 1))"
proof -
  have "(e * fp_hidden F + r) div fp_hidden F = e"
    using assms by (metis add.commute div_mult_self1 div_pos_pos_trivial add.right_neutral
        add_0 fp_hidden_pos less_irrefl)
  moreover have "(e * fp_hidden F + r) mod fp_hidden F = r"
    using assms by simp
  ultimately show ?thesis by (simp add: fp_units_def Let_def)
qed

lemma fp_units_0 [simp]: "fp_units F 0 = 0"
  by (simp add: fp_units_def)

lemma fp_units_Suc:
  assumes "0 \<le> m"
  shows "fp_units F m < fp_units F (m + 1)"
proof -
  let ?h = "fp_hidden F" and ?e = "m div fp_hidden F" and ?r = "m mod fp_hidden F"
  have m: "m = ?e * ?h + ?r" by simp
  have r: "0 \<le> ?r" "?r < ?h" by simp_all
  have e: "0 \<le> ?e" using assms by (simp add: pos_imp_zdiv_nonneg_iff)
  have fm: "fp_units F m = (if ?e = 0 then ?r else (?h + ?r) * 2 ^ nat (?e - 1))"
    using fp_units_split [OF r, of ?e] by (simp flip: m)
  show ?thesis
  proof (cases "?r + 1 < ?h")
    case True
    have m1: "m + 1 = ?e * ?h + (?r + 1)" by simp
    have "fp_units F (m + 1) =
        (if ?e = 0 then ?r + 1 else (?h + (?r + 1)) * 2 ^ nat (?e - 1))"
      by (subst m1, rule fp_units_split) (use r True in auto)
    with fm show ?thesis by simp
  next
    case False
    with r(2) have r': "?r = ?h - 1" by linarith
    then have m1: "m + 1 = (?e + 1) * ?h + 0"
      using m by (simp only: distrib_right)
    have "fp_units F m = (if ?e = 0 then ?h - 1 else (2 * ?h - 1) * 2 ^ nat (?e - 1))"
      using fm unfolding r' by (simp only: add_diff_eq mult_2)
    moreover have "fp_units F (m + 1) = ?h * 2 ^ nat ?e"
      unfolding m1 by (subst fp_units_split) (use e in auto)
    moreover have "(2 * ?h - 1) * 2 ^ nat (?e - 1) < ?h * 2 ^ nat ?e" if "?e \<noteq> 0"
    proof -
      have "nat ?e = Suc (nat (?e - 1))" using e that by simp
      then have "?h * 2 ^ nat ?e = (2 * ?h) * 2 ^ nat (?e - 1)"
        by (simp only: power_Suc mult.assoc mult.left_commute)
      then show ?thesis by (simp only: left_diff_distrib) simp
    qed
    ultimately show ?thesis by auto
  qed
qed

lemma fp_units_less:
  assumes "0 \<le> m" "m < n"
  shows "fp_units F m < fp_units F n"
proof -
  have "fp_units F (int k) < fp_units F (int (Suc k))" for k
    using fp_units_Suc [of "int k" F] by (simp add: add.commute)
  then have "fp_units F (int a) < fp_units F (int b)" if "a < b" for a b
    using that by (rule lift_Suc_mono_less)
  from this [of "nat m" "nat n"] assms show ?thesis by simp
qed

lemma fp_mag_bounds [simp]: "0 \<le> fp_mag F x" "fp_mag F x < fp_sign_weight F"
  by (simp_all add: fp_mag_def)

lemma fp_units_nonneg: "0 \<le> m \<Longrightarrow> 0 \<le> fp_units F m"
  using fp_units_less [of 0 m F] by (cases "m = 0") auto

lemma fp_units_less_iff:
  "0 \<le> m \<Longrightarrow> 0 \<le> n \<Longrightarrow> fp_units F m < fp_units F n \<longleftrightarrow> m < n"
  using fp_units_less [of m n F] fp_units_less [of n m F] by (cases m n rule: linorder_cases) auto

lemma fp_units_eq_0: "0 \<le> m \<Longrightarrow> fp_units F m = 0 \<longleftrightarrow> m = 0"
  using fp_units_less_iff [of 0 m F] fp_units_nonneg [of m F] by auto

lemma signed_less_transfer:
  fixes a b c d :: int
  assumes "0 \<le> a" "0 \<le> b" "0 \<le> c" "0 \<le> d"
    and "c = 0 \<longleftrightarrow> a = 0" "d = 0 \<longleftrightarrow> b = 0" "c < d \<longleftrightarrow> a < b" "d < c \<longleftrightarrow> b < a"
  shows "(if s then - a else a) < (if t then - b else b) \<longleftrightarrow>
         (if s then - c else c) < (if t then - d else d)"
proof -
  have "- a < b \<longleftrightarrow> a \<noteq> 0 \<or> b \<noteq> 0" "\<not> a < - b" if "0 \<le> a" "0 \<le> b" for a b :: int
    using that by auto
  with assms show ?thesis by (cases s; cases t) simp_all
qed

lemma fp_key_value: "fp_key F x < fp_key F y \<longleftrightarrow> fp_value F x < fp_value F y"
  unfolding fp_key_def fp_value_def
  by (rule signed_less_transfer) (simp_all add: fp_units_nonneg fp_units_eq_0 fp_units_less_iff)

lemma fp_lt_value:
  "fp_lt F x y \<longleftrightarrow> \<not> fp_nan F x \<and> \<not> fp_nan F y \<and> fp_value F x < fp_value F y"
  by (simp add: fp_lt_def fp_key_value)

lemma fp_eq_value:
  "fp_eq F x y \<longleftrightarrow> \<not> fp_nan F x \<and> \<not> fp_nan F y \<and> fp_value F x = fp_value F y"
  using fp_key_value [of F x y] fp_key_value [of F y x] by (auto simp: fp_eq_def)

section \<open>Rounding\<close>

lemma rne_nonneg: "0 \<le> n \<Longrightarrow> 0 < d \<Longrightarrow> 0 \<le> rne n d"
  by (simp add: rne_def Let_def pos_imp_zdiv_nonneg_iff)

lemma rne_exact: "0 < d \<Longrightarrow> rne (q * d) d = q"
  by (simp add: rne_def)

lemma fp_round_nonneg: "0 \<le> n \<Longrightarrow> 0 < d \<Longrightarrow> 0 < fp_expt F \<Longrightarrow> 0 \<le> fp_round F n d"
  by (simp add: fp_round_def Let_def rne_nonneg fp_inf_def add_nonneg_nonneg less_imp_le)

lemma fp_round_le_inf: "fp_round F n d \<le> fp_inf F"
  by (simp add: fp_round_def Let_def)

lemma fp_recombine:
  fixes e h r :: int
  shows "0 \<le> e \<Longrightarrow> int (nat (e - 1)) * h + (if e = 0 then r else h + r) = e * h + r"
  by (cases "e = 0") (auto simp: algebra_simps)

text \<open>Rounding a representable number gives the number back.\<close>

lemma fp_round_units:
  assumes m: "0 \<le> m" "m \<le> fp_inf F" and p: "0 < fp_prec F"
  shows "fp_round F (fp_units F m) 1 = m"
proof -
  let ?h = "fp_hidden F" and ?e = "m div fp_hidden F" and ?r = "m mod fp_hidden F"
  let ?u = "fp_units F m" and ?k = "nat (?e - 1)"
  define s where "s = (if ?e = 0 then ?r else ?h + ?r)"
  have r: "0 \<le> ?r" "?r < ?h" by simp_all
  have e: "0 \<le> ?e" using m by (simp add: pos_imp_zdiv_nonneg_iff)
  have me: "m = ?e * ?h + ?r" by simp
  have u: "?u = s * 2 ^ ?k"
    using fp_units_split [OF r, of ?e] e by (simp add: s_def flip: me)
  have h2: "2 * ?h = 2 ^ fp_prec F"
    using p unfolding fp_hidden_def by (metis Suc_pred' power_Suc)
  have k: "nat (bitlen ?u - int (fp_prec F)) = ?k"
  proof (cases "?e \<le> 1")
    case True
    then have "?k = 0" by simp
    then have "?u < 2 ^ fp_prec F"
      using r unfolding u h2 [symmetric] s_def by (simp only: power_0 mult_1_right split: if_split) linarith
    then have "bitlen ?u \<le> int (fp_prec F)" by (intro bitlen_le_iff_power [THEN iffD2]) auto
    with True show ?thesis by simp
  next
    case False
    then have "?h \<le> s" "s < 2 * ?h" using r by (auto simp: s_def)
    then have lo: "2 ^ (fp_prec F - 1 + ?k) \<le> ?u" and hi: "?u < 2 ^ (fp_prec F + ?k)"
      unfolding u power_add h2 [symmetric] by (simp_all add: fp_hidden_def)
    have "bitlen ?u \<le> int (fp_prec F + ?k)"
      using hi by (simp only: bitlen_le_iff_power nat_int of_nat_0_le_iff simp_thms)
    moreover have "int (fp_prec F - 1 + ?k) < bitlen ?u"
      using lo bitlen_le_iff_power [of ?u "int (fp_prec F - 1 + ?k)"]
      unfolding nat_int by (simp only: not_less [symmetric] simp_thms)
    ultimately show ?thesis using p by linarith
  qed
  have "rne ?u (1 * 2 ^ ?k) = s" unfolding u by (simp add: rne_exact)
  moreover have "int ?k * ?h + s = m"
    unfolding s_def using fp_recombine [OF e, of ?h ?r] me by simp
  ultimately show ?thesis using m(2) by (simp add: fp_round_def k Let_def)
qed

end
