(* ===== verification/SensorData.thy ===== *)
theory SensorData
  imports Floats
begin

text \<open>
  The shared data model, \<open>Firmware/Core/Inc/sensor_data.h\<close>: the sensor snapshot, the
  flight states with their names, the sensor-status and fault bits and the thresholds.
\<close>

named_theorems flag_defs \<open>the bits of the status and fault words\<close>

section \<open>Sensor snapshot\<close>

record sensor_data =
  accel_x :: f32
  accel_y :: f32
  accel_z :: f32
  gyro_x :: f32
  gyro_y :: f32
  gyro_z :: f32
  latitude :: f64
  longitude :: f64
  altitude_m :: f32
  ground_speed_mps :: f32
  gps_fix_quality :: byte
  gps_satellites :: byte
  battery_voltage_v :: f32
  battery_current_a :: f32
  battery_pct :: byte
  baro_pressure_hpa :: f32
  temperature_c :: f32
  timestamp_ms :: u32
  sensor_status :: byte

text \<open>\<open>memset(&s, 0, sizeof(s))\<close>: all bits zero is the number 0 in every field.\<close>

definition sensor_data_zero :: sensor_data where
  "sensor_data_zero =
     \<lparr>accel_x = 0, accel_y = 0, accel_z = 0, gyro_x = 0, gyro_y = 0, gyro_z = 0,
      latitude = 0, longitude = 0, altitude_m = 0, ground_speed_mps = 0,
      gps_fix_quality = 0, gps_satellites = 0, battery_voltage_v = 0,
      battery_current_a = 0, battery_pct = 0, baro_pressure_hpa = 0,
      temperature_c = 0, timestamp_ms = 0, sensor_status = 0\<rparr>"

definition SENSOR_FLAG_ALL_OK :: byte where [flag_defs]: "SENSOR_FLAG_ALL_OK = 0x1F"
definition SENSOR_FLAG_GPS_OK :: byte where [flag_defs]: "SENSOR_FLAG_GPS_OK = push_bit 2 1"

section \<open>Flight states\<close>

text \<open>\<open>FLIGHT_STATE_COUNT\<close> is the array bound of the enum, which \<open>fsm_command\<close> also uses as
  an invalid target; no state variable is meant to hold it.\<close>

datatype flight_state =
    FLIGHT_STATE_INIT
  | FLIGHT_STATE_PREFLIGHT
  | FLIGHT_STATE_ARMED
  | FLIGHT_STATE_FLYING
  | FLIGHT_STATE_LANDING
  | FLIGHT_STATE_FAULT
  | FLIGHT_STATE_COUNT

fun flight_state_code :: "flight_state \<Rightarrow> nat" where
  "flight_state_code FLIGHT_STATE_INIT = 0"
| "flight_state_code FLIGHT_STATE_PREFLIGHT = 1"
| "flight_state_code FLIGHT_STATE_ARMED = 2"
| "flight_state_code FLIGHT_STATE_FLYING = 3"
| "flight_state_code FLIGHT_STATE_LANDING = 4"
| "flight_state_code FLIGHT_STATE_FAULT = 5"
| "flight_state_code FLIGHT_STATE_COUNT = 6"

definition FLIGHT_STATE_NAMES :: "string list" where
  "FLIGHT_STATE_NAMES =
     [''INIT'', ''PREFLIGHT'', ''ARMED'', ''FLYING'', ''LANDING'', ''FAULT'']"

text \<open>Enum values compare by their codes.\<close>

instantiation flight_state :: linorder
begin

definition less_eq_flight_state :: "flight_state \<Rightarrow> flight_state \<Rightarrow> bool" where
  "less_eq_flight_state s t \<longleftrightarrow> flight_state_code s \<le> flight_state_code t"

definition less_flight_state :: "flight_state \<Rightarrow> flight_state \<Rightarrow> bool" where
  "less_flight_state s t \<longleftrightarrow> flight_state_code s < flight_state_code t"

instance
proof
  fix s t :: flight_state
  show "s \<le> t \<Longrightarrow> t \<le> s \<Longrightarrow> s = t"
    by (cases s; cases t; simp add: less_eq_flight_state_def)
qed (auto simp: less_eq_flight_state_def less_flight_state_def)

end

text \<open>\<open>FLIGHT_STATE_NAMES[s]\<close> is read within its bounds exactly for the proper states.\<close>

definition proper_state :: "flight_state \<Rightarrow> bool" where
  "proper_state s \<longleftrightarrow> s < FLIGHT_STATE_COUNT"

lemma proper_state_simps [simp]:
  "proper_state FLIGHT_STATE_INIT" "proper_state FLIGHT_STATE_PREFLIGHT"
  "proper_state FLIGHT_STATE_ARMED" "proper_state FLIGHT_STATE_FLYING"
  "proper_state FLIGHT_STATE_LANDING" "proper_state FLIGHT_STATE_FAULT"
  "\<not> proper_state FLIGHT_STATE_COUNT"
  by (simp_all add: proper_state_def less_flight_state_def)

lemma proper_state_in_names:
  "proper_state s \<longleftrightarrow> flight_state_code s < length FLIGHT_STATE_NAMES"
  by (cases s) (simp_all add: FLIGHT_STATE_NAMES_def)

section \<open>Fault bits and thresholds\<close>

definition FAULT_FLAG_GPS_LOSS :: u32 where [flag_defs]: "FAULT_FLAG_GPS_LOSS = push_bit 0 1"
definition FAULT_FLAG_SENSOR_FREEZE :: u32 where [flag_defs]: "FAULT_FLAG_SENSOR_FREEZE = push_bit 1 1"
definition FAULT_FLAG_BATT_LOW :: u32 where [flag_defs]: "FAULT_FLAG_BATT_LOW = push_bit 2 1"
definition FAULT_FLAG_COMMS_TIMEOUT :: u32 where [flag_defs]: "FAULT_FLAG_COMMS_TIMEOUT = push_bit 3 1"
definition FAULT_FLAG_STACK_OVERFLOW :: u32 where [flag_defs]: "FAULT_FLAG_STACK_OVERFLOW = push_bit 5 1"

definition BATT_LOW_VOLTAGE_V :: f32 where "BATT_LOW_VOLTAGE_V = f32_lit 105 10"
definition COMMS_TIMEOUT_MS :: u32 where "COMMS_TIMEOUT_MS = 1000"
definition GPS_MIN_SATELLITES :: byte where "GPS_MIN_SATELLITES = 4"

end
