(* ===== verification/Codec.thy ===== *)
theory Codec
  imports SensorData
begin

text \<open>
  Field encodings and the packed sensor payload of \<open>Firmware/Core/Src/protocol.c\<close>:
  the little-endian writers and readers, \<open>proto_pack_sensor\<close> and
  \<open>proto_unpack_sensor\<close>.  The locale \<open>le_codec\<close> is the contract of one writer/reader
  pair; the code's pairs are interpretations of it, and the packet round trips rest on
  its lemmas.
\<close>

section \<open>Little-endian writers and readers\<close>

text \<open>Each \<open>put\<close> is given as the bytes it stores at its pointer, each \<open>get\<close> reads from
  the start of the bytes at its pointer.  A float is moved into an integer of its size by
  \<open>memcpy\<close>, which leaves the bit pattern as it is.\<close>

definition put_f32 :: "f32 \<Rightarrow> byte list" where
  "put_f32 v = [ucast v, ucast (drop_bit 8 v), ucast (drop_bit 16 v), ucast (drop_bit 24 v)]"

definition put_f64 :: "f64 \<Rightarrow> byte list" where
  "put_f64 v = map (\<lambda>i. ucast (drop_bit (8 * i) v)) [0..<8]"

definition put_u32 :: "u32 \<Rightarrow> byte list" where
  "put_u32 v = [ucast v, ucast (drop_bit 8 v), ucast (drop_bit 16 v), ucast (drop_bit 24 v)]"

definition get_f32 :: "byte list \<Rightarrow> f32" where
  "get_f32 b = ucast (b ! 0) OR push_bit 8 (ucast (b ! 1)) OR push_bit 16 (ucast (b ! 2))
     OR push_bit 24 (ucast (b ! 3))"

definition get_f64 :: "byte list \<Rightarrow> f64" where
  "get_f64 b = foldl (\<lambda>tmp i. tmp OR push_bit (8 * i) (ucast (b ! i))) 0 [0..<8]"

definition get_u32 :: "byte list \<Rightarrow> u32" where
  "get_u32 b = ucast (b ! 0) OR push_bit 8 (ucast (b ! 1)) OR push_bit 16 (ucast (b ! 2))
     OR push_bit 24 (ucast (b ! 3))"

section \<open>The contract of a writer and its reader\<close>

locale le_codec =
  fixes put :: "'a \<Rightarrow> byte list" and get :: "byte list \<Rightarrow> 'a" and width :: nat
  assumes length_put: "length (put v) = width"
    and get_put: "get (put v @ r) = v"
    and put_get: "width \<le> length bs \<Longrightarrow> put (get bs) = take width bs"
begin

lemma put_inject: "put v = put w \<longleftrightarrow> v = w"
  by (metis get_put [of v "[]"] get_put [of w "[]"])

lemma drop_put: "drop width (put v @ r) = r"
  by (simp add: length_put)

lemma drop_put_beyond: "width \<le> n \<Longrightarrow> drop n (put v @ r) = drop (n - width) r"
  by (simp add: length_put)

lemma get_put_nil: "get (put v) = v"
  using get_put [of v "[]"] by simp

lemma get_take: "width \<le> length bs \<Longrightarrow> get (take width bs) = get bs"
  by (simp flip: put_get add: get_put_nil)

end

text \<open>All the code's pairs are instances of one scheme over the number of bytes.\<close>

definition le_put :: "nat \<Rightarrow> 'a::len word \<Rightarrow> byte list" where
  "le_put k w = map (\<lambda>i. ucast (drop_bit (8 * i) w)) [0..<k]"

definition le_get :: "nat \<Rightarrow> byte list \<Rightarrow> 'a::len word" where
  "le_get k b = foldl (\<lambda>tmp i. tmp OR push_bit (8 * i) (ucast (b ! i))) 0 [0..<k]"

lemma bit_le_get:
  "bit (le_get k b :: 'a::len word) n \<longleftrightarrow>
     n < LENGTH('a) \<and> n < 8 * k \<and> bit (b ! (n div 8)) (n mod 8)"
proof (induction k)
  case 0
  then show ?case by (simp add: le_get_def)
next
  case (Suc k)
  have split: "n < 8 * Suc k \<longleftrightarrow> n < 8 * k \<or> n div 8 = k" by auto
  have "bit (b ! k) (n - 8 * k) \<longleftrightarrow> n - 8 * k < 8 \<and> bit (b ! k) (n - 8 * k)"
    using bit_imp_le_length [of "b ! k"] by auto
  moreover have "8 * k \<le> n \<and> n - 8 * k < 8 \<longleftrightarrow> n div 8 = k" by auto
  moreover have "n mod 8 = n - 8 * k" if "n div 8 = k"
    using that by (auto simp: minus_mult_div_eq_mod [symmetric])
  ultimately have byte: "8 * k \<le> n \<and> bit (b ! k) (n - 8 * k) \<longleftrightarrow>
      n div 8 = k \<and> bit (b ! (n div 8)) (n mod 8)"
    by metis
  have "bit (le_get (Suc k) b :: 'a word) n \<longleftrightarrow>
      bit (le_get k b :: 'a word) n \<or>
      n < LENGTH('a) \<and> 8 * k \<le> n \<and> bit (b ! k) (n - 8 * k)"
    by (auto simp: le_get_def bit_or_iff bit_push_bit_iff bit_unsigned_iff dest: bit_imp_le_length)
  with byte split Suc.IH show ?case by blast
qed

lemma le_get_put: "LENGTH('a::len) = 8 * k \<Longrightarrow> le_get k (le_put k v @ r) = (v :: 'a word)"
  by (rule bit_word_eqI)
    (auto simp: bit_le_get le_put_def nth_append bit_simps less_mult_imp_div_less mult.commute)

lemma le_put_get:
  assumes "LENGTH('a::len) = 8 * k" "k \<le> length bs"
  shows "le_put k (le_get k bs :: 'a word) = take k bs"
proof (rule nth_equalityI)
  fix i assume "i < length (le_put k (le_get k bs :: 'a word))"
  then have i: "i < k" by (simp add: le_put_def)
  have "bit (le_put k (le_get k bs :: 'a word) ! i) n \<longleftrightarrow> bit (bs ! i) n" if "n < 8" for n
    using i that assms(1) by (auto simp: le_put_def bit_le_get bit_simps)
  then show "le_put k (le_get k bs :: 'a word) ! i = take k bs ! i"
    using i assms(2) by (auto intro!: bit_word_eqI)
qed (use assms(2) in \<open>simp add: le_put_def\<close>)

lemma le_codec_scheme:
  assumes "LENGTH('a::len) = 8 * k"
  shows "le_codec (le_put k :: 'a word \<Rightarrow> byte list) (le_get k) k"
  by unfold_locales (use assms in \<open>simp_all add: le_get_put le_put_get, simp add: le_put_def\<close>)

lemma put_u32_scheme: "put_u32 = le_put 4" "get_u32 = le_get 4"
  by (auto simp: fun_eq_iff put_u32_def get_u32_def le_put_def le_get_def or.assoc numeral_eq_Suc)

lemma put_f32_scheme: "put_f32 = le_put 4" "get_f32 = le_get 4"
  by (auto simp: fun_eq_iff put_f32_def get_f32_def le_put_def le_get_def or.assoc numeral_eq_Suc)

lemma put_f64_scheme: "put_f64 = le_put 8" "get_f64 = le_get 8"
  by (simp_all add: fun_eq_iff put_f64_def get_f64_def le_put_def le_get_def)

interpretation u32c: le_codec put_u32 get_u32 4
  unfolding put_u32_scheme by (rule le_codec_scheme) simp

interpretation f32c: le_codec put_f32 get_f32 4
  unfolding put_f32_scheme by (rule le_codec_scheme) simp

interpretation f64c: le_codec put_f64 get_f64 8
  unfolding put_f64_scheme by (rule le_codec_scheme) simp

text \<open>A byte field is stored and read as it is (\<open>*p++ = v\<close>, \<open>v = *p++\<close>).\<close>

definition put_u8 :: "byte \<Rightarrow> byte list" where "put_u8 v = [v]"
definition get_u8 :: "byte list \<Rightarrow> byte" where "get_u8 b = b ! 0"

interpretation u8c: le_codec put_u8 get_u8 1
proof
  fix bs :: "byte list" assume "1 \<le> length bs"
  then show "put_u8 (get_u8 bs) = take 1 bs"
    by (cases bs) (simp_all add: put_u8_def get_u8_def)
qed (simp_all add: put_u8_def get_u8_def)

lemmas put_lengths [len_simps] =
  u32c.length_put f32c.length_put f64c.length_put u8c.length_put

lemmas get_puts = u32c.get_put f32c.get_put f64c.get_put u8c.get_put
  u32c.get_put_nil f32c.get_put_nil f64c.get_put_nil u8c.get_put_nil

lemmas put_injects = u32c.put_inject f32c.put_inject f64c.put_inject u8c.put_inject

section \<open>The sensor payload\<close>

text \<open>The size the code expects.  The fields add up to 72 bytes, see
  \<open>length_sensor_bytes\<close>.\<close>

definition SENSOR_PACKED_SIZE :: nat where "SENSOR_PACKED_SIZE = 73"

text \<open>The stores in the code's order, each through the advancing pointer \<open>p\<close>.\<close>

definition sensor_chunks :: "sensor_data \<Rightarrow> byte list list" where
  "sensor_chunks s =
     [put_f32 (accel_x s),
      put_f32 (accel_y s),
      put_f32 (accel_z s),
      put_f32 (gyro_x s),
      put_f32 (gyro_y s),
      put_f32 (gyro_z s),
      put_f64 (latitude s),
      put_f64 (longitude s),
      put_f32 (altitude_m s),
      put_f32 (ground_speed_mps s),
      put_u8 (gps_fix_quality s),
      put_u8 (gps_satellites s),
      put_f32 (battery_voltage_v s),
      put_f32 (battery_current_a s),
      put_u8 (battery_pct s),
      put_f32 (baro_pressure_hpa s),
      put_f32 (temperature_c s),
      put_u32 (timestamp_ms s),
      put_u8 (sensor_status s)]"

text \<open>\<open>proto_pack_sensor(s, buf, buf_size)\<close>: the return value and the buffer.\<close>

definition proto_pack_sensor :: "sensor_data \<Rightarrow> buf \<Rightarrow> nat \<Rightarrow> nat \<times> buf" where
  "proto_pack_sensor s buf buf_size =
     (if buf_size < SENSOR_PACKED_SIZE then (0, buf)
      else let (buf', p) = emit_all buf 0 (sensor_chunks s) in (p, buf'))"

text \<open>\<open>proto_unpack_sensor(buf, len, out)\<close>: \<open>None\<close> for \<open>false\<close>, which leaves \<open>*out\<close>
  alone; otherwise the new value of \<open>*out\<close>, all of whose fields are assigned.\<close>

definition proto_unpack_sensor :: "buf \<Rightarrow> nat \<Rightarrow> sensor_data option" where
  "proto_unpack_sensor buf len =
     (if len < SENSOR_PACKED_SIZE then None
      else let p = buf;
         v0 = get_f32 p; p = drop 4 p;
         v1 = get_f32 p; p = drop 4 p;
         v2 = get_f32 p; p = drop 4 p;
         v3 = get_f32 p; p = drop 4 p;
         v4 = get_f32 p; p = drop 4 p;
         v5 = get_f32 p; p = drop 4 p;
         v6 = get_f64 p; p = drop 8 p;
         v7 = get_f64 p; p = drop 8 p;
         v8 = get_f32 p; p = drop 4 p;
         v9 = get_f32 p; p = drop 4 p;
         v10 = get_u8 p; p = drop 1 p;
         v11 = get_u8 p; p = drop 1 p;
         v12 = get_f32 p; p = drop 4 p;
         v13 = get_f32 p; p = drop 4 p;
         v14 = get_u8 p; p = drop 1 p;
         v15 = get_f32 p; p = drop 4 p;
         v16 = get_f32 p; p = drop 4 p;
         v17 = get_u32 p; p = drop 4 p;
         v18 = get_u8 p
      in Some \<lparr>accel_x = v0, accel_y = v1, accel_z = v2, gyro_x = v3, gyro_y = v4, gyro_z
              = v5, latitude = v6, longitude = v7, altitude_m = v8, ground_speed_mps =
              v9, gps_fix_quality = v10, gps_satellites = v11, battery_voltage_v = v12,
              battery_current_a = v13, battery_pct = v14, baro_pressure_hpa = v15,
              temperature_c = v16, timestamp_ms = v17, sensor_status = v18\<rparr>)"

subsection \<open>Layout and round trips\<close>

definition sensor_bytes :: "sensor_data \<Rightarrow> byte list" where
  "sensor_bytes s = concat (sensor_chunks s)"

lemma length_sensor_bytes [len_simps]: "length (sensor_bytes s) = 72"
  by (simp add: sensor_bytes_def sensor_chunks_def len_simps)

lemma proto_pack_sensor_eq:
  assumes "buf_size \<le> length buf"
  shows "proto_pack_sensor s buf buf_size =
    (if buf_size < 73 then (0, buf) else (72, sensor_bytes s @ drop 72 buf))"
  using assms emit_all_eq [of 0 "sensor_chunks s" buf]
  by (simp add: proto_pack_sensor_def SENSOR_PACKED_SIZE_def buf_put_0 len_simps
      flip: sensor_bytes_def)

lemmas sensor_drops = u32c.drop_put_beyond f32c.drop_put_beyond f64c.drop_put_beyond
  u8c.drop_put_beyond

lemma unpack_sensor_bytes:
  "proto_unpack_sensor (sensor_bytes s @ r) len = (if len < 73 then None else Some s)"
  by (simp add: proto_unpack_sensor_def sensor_bytes_def sensor_chunks_def
      SENSOR_PACKED_SIZE_def Let_def sensor_drops get_puts del: drop_append)

lemma sensor_bytes_inject: "sensor_bytes s = sensor_bytes t \<longleftrightarrow> s = t"
  using unpack_sensor_bytes [of s "[]" 73] unpack_sensor_bytes [of t "[]" 73]
  by (metis less_irrefl option.inject)

section \<open>Properties\<close>

text \<open>C27: Packing a sample into a buffer of at least 73 bytes writes its 72 bytes at the front,
  leaves the rest of the buffer alone and returns 72; unpacking gives the sample back when it is
  told 73 bytes, and fails when it is told the length that packing returned.\<close>

theorem pack_unpack_sensor:
  assumes "73 \<le> buf_size" "buf_size \<le> length buf"
  shows "\<exists>b. proto_pack_sensor s buf buf_size = (72, b) \<and> length b = length buf \<and>
    drop 72 b = drop 72 buf \<and> proto_unpack_sensor b 73 = Some s \<and> proto_unpack_sensor b 72 = None"
proof (intro exI conjI)
  let ?b = "sensor_bytes s @ drop 72 buf"
  show "proto_pack_sensor s buf buf_size = (72, ?b)"
    using assms by (simp add: proto_pack_sensor_eq)
  show "length ?b = length buf" "drop 72 ?b = drop 72 buf"
    using assms by (simp_all add: len_simps)
  show "proto_unpack_sensor ?b 73 = Some s" "proto_unpack_sensor ?b 72 = None"
    by (simp_all add: unpack_sensor_bytes)
qed

theorem pack_unpack_sensor_witness:
  "\<exists>b. proto_pack_sensor (sensor_data_zero\<lparr>accel_z := 0x411CF5C3\<rparr>) (replicate 80 0xEE) 80 = (72, b) \<and>
    length b = length (replicate 80 (0xEE :: byte)) \<and> drop 72 b = drop 72 (replicate 80 0xEE) \<and>
    proto_unpack_sensor b 73 = Some (sensor_data_zero\<lparr>accel_z := 0x411CF5C3\<rparr>) \<and>
    proto_unpack_sensor b 72 = None"
  by (rule pack_unpack_sensor) simp_all

end
