(* ===== verification/Crc.thy ===== *)
theory Crc
  imports Prelude
begin

text \<open>
  CRC-16/CCITT (polynomial 0x1021, start value 0xFFFF, not reflected): \<open>proto_crc16\<close> of
  \<open>Firmware/Core/Src/protocol.c\<close> and its twin \<open>pkt_crc16\<close> of
  \<open>Simulator/packet_serializer.c\<close>.  The lemmas show that the shift step is linear and
  injective, that the byte loop is the bit-serial shift register run over the message bits,
  and which errors the checksum always detects.
\<close>

section \<open>The loops\<close>

text \<open>One turn of the inner loop.  The C computes in \<open>int\<close> and stores back into a
  \<open>uint16_t\<close>, so the bit shifted out of the top is lost.\<close>

definition crc16_shift :: "u16 \<Rightarrow> u16" where
  "crc16_shift crc =
     (if crc AND 0x8000 \<noteq> 0 then push_bit 1 crc XOR 0x1021 else push_bit 1 crc)"

text \<open>The body of the outer loop: one byte goes into the top, then eight shifts.\<close>

definition crc16_byte :: "u16 \<Rightarrow> byte \<Rightarrow> u16" where
  "crc16_byte crc b = (crc16_shift ^^ 8) (crc XOR push_bit 8 (ucast b))"

fun crc16_loop :: "u16 \<Rightarrow> byte list \<Rightarrow> u16" where
  "crc16_loop crc [] = crc"
| "crc16_loop crc (b # bs) = crc16_loop (crc16_byte crc b) bs"

text \<open>\<open>data\<close> points to at least \<open>len\<close> bytes; the loop reads the first \<open>len\<close>.\<close>

definition proto_crc16 :: "byte list \<Rightarrow> nat \<Rightarrow> u16" where
  "proto_crc16 data len = crc16_loop 0xFFFF (take len data)"

section \<open>The shift step is linear and injective\<close>

lemma crc16_shift_bit:
  "crc16_shift crc = (if bit crc 15 then push_bit 1 crc XOR 0x1021 else push_bit 1 crc)"
proof -
  have "(0x8000 :: u16) = push_bit 15 1" by simp
  then have "(crc AND 0x8000 \<noteq> 0) = bit crc 15"
    by (metis and_exp_eq_0_iff_not_bit push_bit_of_1)
  then show ?thesis by (simp add: crc16_shift_def)
qed

lemma crc16_shift_0 [simp]: "crc16_shift 0 = 0"
  by (simp add: crc16_shift_def)

lemma crc16_shift_xor: "crc16_shift (x XOR y) = crc16_shift x XOR crc16_shift y"
  unfolding crc16_shift_bit by (rule bit_word_eqI) (auto simp: bit_simps)

lemma crc16_shift_eq_0: "crc16_shift x = 0 \<longleftrightarrow> x = 0"
proof
  assume z: "crc16_shift x = 0"
  have n15: "\<not> bit x 15"
  proof
    assume b: "bit x 15"
    have "bit (crc16_shift x) 0"
      unfolding crc16_shift_bit by (simp only: b if_True bit_xor_iff bit_push_bit_iff) simp
    with z show False by simp
  qed
  have "bit x n = bit (crc16_shift x) (Suc n)" if "n < 15" for n
    unfolding crc16_shift_bit if_not_P [OF n15] bit_push_bit_iff using that by simp
  with z have low: "\<not> bit x n" if "n < 15" for n using that by simp
  show "x = 0"
  proof (rule bit_word_eqI)
    fix n assume "n < LENGTH(16)"
    then have "n < 15 \<or> n = 15" by auto
    then show "bit x n \<longleftrightarrow> bit 0 n" using low n15 by auto
  qed
qed simp

lemma crc16_shift_pow_0 [simp]: "(crc16_shift ^^ n) 0 = 0"
  by (induction n) simp_all

lemma crc16_shift_pow_xor:
  "(crc16_shift ^^ n) (x XOR y) = (crc16_shift ^^ n) x XOR (crc16_shift ^^ n) y"
  by (induction n) (simp_all add: crc16_shift_xor)

lemma crc16_shift_pow_eq_0: "(crc16_shift ^^ n) x = 0 \<longleftrightarrow> x = 0"
  by (induction n) (simp_all add: crc16_shift_eq_0)

lemma word_xor_eq_0: "x XOR y = 0 \<longleftrightarrow> x = (y :: 'a::len word)"
  by (auto simp: bit_eq_iff bit_xor_iff)

lemma word_xor_cancel: "x XOR z = y XOR z \<longleftrightarrow> x = (y :: 'a::len word)"
  by (auto simp: bit_eq_iff bit_xor_iff)

lemma crc16_shift_pow_inject:
  "(crc16_shift ^^ n) x = (crc16_shift ^^ n) y \<longleftrightarrow> x = y"
  by (metis crc16_shift_pow_xor crc16_shift_pow_eq_0 word_xor_eq_0)

lemma crc16_byte_inject_state: "crc16_byte c b = crc16_byte c' b \<longleftrightarrow> c = c'"
  by (simp add: crc16_byte_def crc16_shift_pow_inject word_xor_cancel)

lemma crc16_loop_inject_state: "crc16_loop c bs = crc16_loop c' bs \<longleftrightarrow> c = c'"
  by (induction bs arbitrary: c c') (simp_all add: crc16_byte_inject_state)

lemma crc16_loop_append: "crc16_loop c (xs @ ys) = crc16_loop (crc16_loop c xs) ys"
  by (induction xs arbitrary: c) simp_all

section \<open>The bit-serial reference\<close>

text \<open>The shift register the CRC is specified by: the feedback is the register's top bit
  against the next message bit, most significant bit of each byte first.\<close>

definition crc_bit :: "u16 \<Rightarrow> bool \<Rightarrow> u16" where
  "crc_bit c d = (if bit c 15 \<noteq> d then push_bit 1 c XOR 0x1021 else push_bit 1 c)"

definition byte_bits :: "byte \<Rightarrow> bool list" where
  "byte_bits b = map (\<lambda>i. bit b (7 - i)) [0..<8]"

definition message_bits :: "byte list \<Rightarrow> bool list" where
  "message_bits bs = concat (map byte_bits bs)"

lemma crc16_shift_feed:
  "crc16_shift (c XOR y) = crc_bit c (bit y 15) XOR push_bit 1 y"
  unfolding crc16_shift_bit crc_bit_def by (rule bit_word_eqI) (auto simp: bit_simps)

lemma crc16_shift_pow_feed:
  "n \<le> 16 \<Longrightarrow> (crc16_shift ^^ n) (c XOR y) =
     foldl crc_bit c (map (\<lambda>i. bit y (15 - i)) [0..<n]) XOR push_bit n y"
proof (induction n)
  case 0
  then show ?case by simp
next
  case (Suc n)
  then have "bit (push_bit n y) 15 = bit y (15 - n)" by (simp add: bit_simps)
  moreover have "push_bit 1 (push_bit n y) = push_bit (Suc n) y" by simp
  ultimately show ?case using Suc by (simp add: crc16_shift_feed)
qed

lemma crc16_byte_serial: "crc16_byte c b = foldl crc_bit c (byte_bits b)"
proof -
  let ?y = "push_bit 8 (ucast b :: u16)"
  have "push_bit 8 ?y = 0" by (rule bit_word_eqI) (auto simp: bit_simps)
  moreover have "map (\<lambda>i. bit ?y (15 - i)) [0..<8] = byte_bits b"
    by (auto simp: byte_bits_def bit_simps)
  ultimately show ?thesis
    using crc16_shift_pow_feed [of 8 c ?y] by (simp add: crc16_byte_def)
qed

lemma crc16_loop_serial: "crc16_loop c bs = foldl crc_bit c (message_bits bs)"
  by (induction bs arbitrary: c) (simp_all add: message_bits_def crc16_byte_serial)

section \<open>Which errors are always detected\<close>

definition bits_xor :: "bool list \<Rightarrow> bool list \<Rightarrow> bool list" where
  "bits_xor xs ys = map2 (\<noteq>) xs ys"

lemma crc_bit_xor: "crc_bit c d XOR crc_bit e f = crc_bit (c XOR e) (d \<noteq> f)"
  unfolding crc_bit_def by (rule bit_word_eqI) (auto simp: bit_simps)

lemma crc_bit_False: "crc_bit c False = crc16_shift c"
  by (simp add: crc_bit_def crc16_shift_bit)

lemma crc_bit_0 [simp]: "crc_bit 0 False = 0"
  by (simp add: crc_bit_def)

lemma foldl_crc_bit_xor:
  "length xs = length ys \<Longrightarrow>
   foldl crc_bit c xs XOR foldl crc_bit e ys = foldl crc_bit (c XOR e) (bits_xor xs ys)"
  by (induction xs ys arbitrary: c e rule: list_induct2) (simp_all add: bits_xor_def crc_bit_xor)

lemma foldl_crc_bit_zeros [simp]: "foldl crc_bit 0 (replicate n False) = 0"
  by (induction n) simp_all

text \<open>Sixteen bits fed into the empty register come back as an injective image of the
  word they spell, so the register is empty again only after sixteen zeros.\<close>

lemma foldl_crc_bit_16_eq_0:
  assumes "length e = 16" "foldl crc_bit 0 e = 0" "i < 16"
  shows "\<not> e ! i"
proof -
  let ?y = "horner_sum of_bool 2 (rev e) :: u16"
  have bits: "bit ?y k \<longleftrightarrow> k < 16 \<and> rev e ! k" for k
    using assms(1) by (auto simp: bit_horner_sum_bit_word_iff)
  have e: "map (\<lambda>i. bit ?y (15 - i)) [0..<16] = e"
    using assms(1) by (intro nth_equalityI) (auto simp: bits rev_nth)
  have "push_bit 16 ?y = 0" by (rule bit_word_eqI) (auto simp: bit_simps)
  then have "(crc16_shift ^^ 16) ?y = foldl crc_bit 0 e"
    using crc16_shift_pow_feed [of 16 0 ?y] e by simp
  then have "?y = 0" using assms(2) by (simp add: crc16_shift_pow_eq_0)
  then have "\<not> bit ?y (15 - i)" by simp
  moreover have "15 - (15 - i) = i" using assms(3) by simp
  ultimately show ?thesis using assms(1) by (simp add: bits rev_nth)
qed

lemma foldl_crc_bit_short_eq_0:
  assumes "length e \<le> 16" "foldl crc_bit 0 e = 0"
  shows "e = replicate (length e) False"
proof -
  let ?p = "replicate (16 - length e) False"
  have z: "foldl crc_bit 0 (?p @ e) = 0" using assms(2) by simp
  have "\<not> e ! i" if "i < length e" for i
    using foldl_crc_bit_16_eq_0 [OF _ z, of "length ?p + i"] that assms(1)
    unfolding nth_append_length_plus by simp
  then show ?thesis by (auto intro: nth_equalityI)
qed

lemma bits_xor_zeros: "length xs = length ys \<Longrightarrow>
   bits_xor xs ys = replicate (length (bits_xor xs ys)) False \<Longrightarrow> xs = ys"
  by (induction xs ys rule: list_induct2) (auto simp: bits_xor_def)

lemma foldl_crc_bit_inject_state: "foldl crc_bit c xs = foldl crc_bit c' xs \<longleftrightarrow> c = c'"
proof (induction xs arbitrary: c c')
  case (Cons d xs)
  have "crc_bit c d = crc_bit c' d \<longleftrightarrow> crc_bit c d XOR crc_bit c' d = 0"
    by (simp add: word_xor_eq_0)
  also have "\<dots> \<longleftrightarrow> c = c'"
    by (simp add: crc_bit_xor crc_bit_False crc16_shift_eq_0 word_xor_eq_0)
  finally show ?case using Cons by simp
qed simp

lemma crc16_burst:
  assumes x: "message_bits xs = pre @ w @ post"
    and y: "message_bits ys = pre @ w' @ post"
    and l: "length w = length w'" "length w \<le> 16" and ne: "w \<noteq> w'"
  shows "crc16_loop c xs \<noteq> crc16_loop c ys"
proof
  let ?c = "foldl crc_bit c pre"
  assume "crc16_loop c xs = crc16_loop c ys"
  then have "foldl crc_bit ?c w = foldl crc_bit ?c w'"
    by (simp add: crc16_loop_serial x y foldl_crc_bit_inject_state)
  then have "foldl crc_bit 0 (bits_xor w w') = 0"
    using foldl_crc_bit_xor [OF l(1), of ?c ?c] by simp
  then have "bits_xor w w' = replicate (length (bits_xor w w')) False"
    using l by (intro foldl_crc_bit_short_eq_0) (simp_all add: bits_xor_def)
  with l(1) ne show False by (auto dest: bits_xor_zeros)
qed

section \<open>Properties\<close>

text \<open>C26: The firmware's CRC routine computes CRC-16/CCITT: on every buffer and length, the two
  nested loops give the value of the bit-serial shift register with polynomial 0x1021, started
  at 0xFFFF and fed the first \<open>len\<close> bytes, most significant bit first.\<close>

theorem proto_crc16_register:
  "proto_crc16 data len = foldl crc_bit 0xFFFF (message_bits (take len data))"
  by (simp add: proto_crc16_def crc16_loop_serial)

text \<open>The CRC detects every burst of at most 16 bits: two messages that differ only inside a
  window of 16 bits or less have different CRCs.\<close>

lemma proto_crc16_burst:
  assumes "message_bits (take n xs) = pre @ w @ post"
    and "message_bits (take m ys) = pre @ w' @ post"
    and "length w = length w'" "length w \<le> 16" "w \<noteq> w'"
  shows "proto_crc16 xs n \<noteq> proto_crc16 ys m"
  unfolding proto_crc16_def using assms by (rule crc16_burst)

end
