(* ===== verification/Framing.thy ===== *)
theory Framing
  imports Codec Crc
begin

text \<open>
  Wire frames on the sending side, \<open>Firmware/Core/Inc/protocol.h\<close> and the builders of
  \<open>Firmware/Core/Src/protocol.c\<close>: the frame format as an abstract specification
  (\<open>wire_frame\<close>), the internal \<open>build_frame\<close> with its stores into the output buffer, the
  packed payload structs and the two builders on top of them.  The lemmas show that every
  builder writes exactly the specified frame, or nothing when the buffer is too small.
\<close>

section \<open>Constants\<close>

definition PROTO_SOF :: byte where "PROTO_SOF = 0xAB"
definition PROTO_HEADER_SIZE :: nat where "PROTO_HEADER_SIZE = 4"
definition PROTO_CRC_SIZE :: nat where "PROTO_CRC_SIZE = 2"
definition PROTO_MAX_PAYLOAD :: nat where "PROTO_MAX_PAYLOAD = 128"
definition PROTO_MAX_FRAME :: nat where
  "PROTO_MAX_FRAME = PROTO_HEADER_SIZE + PROTO_MAX_PAYLOAD + PROTO_CRC_SIZE"

lemmas proto_sizes = PROTO_HEADER_SIZE_def PROTO_CRC_SIZE_def PROTO_MAX_PAYLOAD_def
  PROTO_MAX_FRAME_def

definition PKT_TYPE_SENSOR_FRAME :: byte where "PKT_TYPE_SENSOR_FRAME = 0x10"
definition PKT_TYPE_HEARTBEAT_REQ :: byte where "PKT_TYPE_HEARTBEAT_REQ = 0x12"
definition PKT_TYPE_TELEMETRY :: byte where "PKT_TYPE_TELEMETRY = 0x20"
definition PKT_TYPE_HEARTBEAT_ACK :: byte where "PKT_TYPE_HEARTBEAT_ACK = 0x21"
definition PKT_TYPE_BLACKBOX_ENTRY :: byte where "PKT_TYPE_BLACKBOX_ENTRY = 0x22"
definition PKT_TYPE_HEALTH_REPORT :: byte where "PKT_TYPE_HEALTH_REPORT = 0x23"

section \<open>The frame format\<close>

text \<open>\<open>[SOF][TYPE][LEN lo][LEN hi][PAYLOAD][CRC lo][CRC hi]\<close>, the CRC over type, length
  and payload.  This is the specification; the code's writers and reader are compared with
  it.\<close>

definition u16_bytes :: "u16 \<Rightarrow> byte list" where
  "u16_bytes w = [ucast w, ucast (drop_bit 8 w)]"

definition frame_body :: "byte \<Rightarrow> byte list \<Rightarrow> byte list" where
  "frame_body t p = t # u16_bytes (of_nat (length p)) @ p"

definition wire_frame :: "byte \<Rightarrow> byte list \<Rightarrow> byte list" where
  "wire_frame t p = PROTO_SOF # frame_body t p @ u16_bytes (crc16_loop 0xFFFF (frame_body t p))"

lemma length_u16_bytes [len_simps]: "length (u16_bytes w) = 2"
  by (simp add: u16_bytes_def)

lemma length_frame_body [len_simps]: "length (frame_body t p) = 3 + length p"
  by (simp add: frame_body_def len_simps)

lemma length_wire_frame [len_simps]: "length (wire_frame t p) = 6 + length p"
  by (simp add: wire_frame_def len_simps)

lemma u16_bytes_inject: "u16_bytes v = u16_bytes w \<longleftrightarrow> v = w"
  by (auto simp: u16_bytes_def intro: word_bytes_inject)

lemma proto_crc16_all: "proto_crc16 (xs @ ys) (length xs) = crc16_loop 0xFFFF xs"
  by (simp add: proto_crc16_def)

section \<open>Writing a frame\<close>

definition build_frame :: "byte \<Rightarrow> byte list \<Rightarrow> u16 \<Rightarrow> buf \<Rightarrow> nat \<Rightarrow> nat \<times> buf" where
  "build_frame type payload payload_len out_buf out_size =
     (let n = unat payload_len;
          total = PROTO_HEADER_SIZE + n + PROTO_CRC_SIZE
      in if total > out_size then (0, out_buf)
         else let
           b = out_buf[0 := PROTO_SOF, 1 := type,
                 2 := ucast (payload_len AND 0xFF), 3 := ucast (drop_bit 8 payload_len)];
           b = buf_put PROTO_HEADER_SIZE (take n payload) b;
           crc = proto_crc16 (drop 1 b) (3 + n);
           b = b[PROTO_HEADER_SIZE + n := ucast (crc AND 0xFF),
                 PROTO_HEADER_SIZE + n + 1 := ucast (drop_bit 8 crc)]
         in (total, b))"

lemma list_update_two:
  "2 \<le> length r \<Longrightarrow> (xs @ r)[length xs := a, length xs + 1 := b] = xs @ [a, b] @ drop 2 r"
  by (auto simp: list_update_append Suc_le_length_iff numeral_2_eq_2)

lemma build_frame_eq:
  assumes "unat n \<le> length payload" "out_size \<le> length buf"
  shows "build_frame t payload n buf out_size =
    (if 6 + unat n > out_size then (0, buf)
     else (6 + unat n, wire_frame t (take (unat n) payload) @ drop (6 + unat n) buf))"
proof (cases "6 + unat n > out_size")
  case True
  then show ?thesis by (simp add: build_frame_def proto_sizes Let_def)
next
  case False
  let ?n = "unat n" and ?p = "take (unat n) payload"
  have "4 \<le> length buf" using False assms(2) by simp
  then obtain b0 b1 b2 b3 r where buf: "buf = b0 # b1 # b2 # b3 # r"
    by (auto simp: Suc_le_length_iff numeral_eq_Suc)
  with False assms(2) have r: "?n + 2 \<le> length r" by simp
  have lp: "length ?p = ?n" using assms(1) by simp
  let ?b1 = "buf[0 := PROTO_SOF, 1 := t, 2 := ucast (n AND 0xFF), 3 := ucast (drop_bit 8 n)]"
  let ?body = "frame_body t ?p" and ?r = "drop ?n r"
  have b1: "?b1 = PROTO_SOF # t # u16_bytes n @ r"
    by (simp add: buf u16_bytes_def ucast_and_FF numeral_eq_Suc)
  have b2: "buf_put 4 ?p ?b1 = (PROTO_SOF # ?body) @ ?r"
    unfolding b1 using lp by (simp add: buf_put_def frame_body_def u16_bytes_def numeral_eq_Suc)
  have crc: "proto_crc16 (drop 1 (buf_put 4 ?p ?b1)) (3 + ?n) = crc16_loop 0xFFFF ?body"
    using proto_crc16_all [of ?body ?r] lp unfolding b2 by (simp add: len_simps)
  have len: "4 + ?n = length (PROTO_SOF # ?body)" using lp by (simp add: len_simps)
  have "(buf_put 4 ?p ?b1)[4 + ?n := x, 4 + ?n + 1 := y] = (PROTO_SOF # ?body) @ [x, y] @ drop 2 ?r"
    for x y unfolding b2 len by (rule list_update_two) (use r in simp)
  note upd = this
  have tail: "drop (6 + ?n) buf = drop 2 ?r" by (simp add: buf numeral_eq_Suc)
  have total: "4 + ?n + 2 = 6 + ?n" by simp
  show ?thesis
    using False unfolding build_frame_def Let_def proto_sizes crc upd total tail
    by (simp add: wire_frame_def u16_bytes_def ucast_and_FF)
qed

section \<open>Payload structs\<close>

text \<open>The fields of the packed structs carry a prefix, \<open>tl_\<close>, \<open>be_\<close> and \<open>hr_\<close>, where the
  C reuses the names of other structs.  The code sends the structs as they lie in memory;
  the target is little-endian, so each field is laid out as its writer would store it.\<close>

record pkt_telemetry =
  tl_timestamp_ms :: u32
  tl_flight_state :: byte
  tl_fault_flags :: byte
  tl_altitude_m :: f32
  tl_ground_speed_mps :: f32
  tl_battery_voltage_v :: f32
  tl_battery_pct :: byte
  tl_accel_x :: f32
  tl_accel_y :: f32
  tl_accel_z :: f32
  tl_gyro_x :: f32
  tl_gyro_y :: f32
  tl_gyro_z :: f32
  tl_latitude :: f64
  tl_longitude :: f64
  tl_gps_fix_quality :: byte
  tl_gps_satellites :: byte
  tl_temperature_c :: f32
  tl_sensor_status :: byte

definition pkt_telemetry_bytes :: "pkt_telemetry \<Rightarrow> byte list" where
  "pkt_telemetry_bytes k = concat
     [put_u32 (tl_timestamp_ms k), put_u8 (tl_flight_state k), put_u8 (tl_fault_flags k),
      put_f32 (tl_altitude_m k), put_f32 (tl_ground_speed_mps k),
      put_f32 (tl_battery_voltage_v k), put_u8 (tl_battery_pct k),
      put_f32 (tl_accel_x k), put_f32 (tl_accel_y k), put_f32 (tl_accel_z k),
      put_f32 (tl_gyro_x k), put_f32 (tl_gyro_y k), put_f32 (tl_gyro_z k),
      put_f64 (tl_latitude k), put_f64 (tl_longitude k),
      put_u8 (tl_gps_fix_quality k), put_u8 (tl_gps_satellites k),
      put_f32 (tl_temperature_c k), put_u8 (tl_sensor_status k)]"

record pkt_blackbox_entry =
  be_timestamp_ms :: u32
  be_event_type :: byte
  be_flight_state :: byte
  be_fault_flags :: byte
  be_sensor_status :: byte
  be_battery_voltage_v :: f32
  be_altitude_m :: f32
  be_message :: "byte list"   \<comment> \<open>\<open>char message[32]\<close>\<close>

definition pkt_blackbox_entry_bytes :: "pkt_blackbox_entry \<Rightarrow> byte list" where
  "pkt_blackbox_entry_bytes k = concat
     [put_u32 (be_timestamp_ms k), put_u8 (be_event_type k), put_u8 (be_flight_state k),
      put_u8 (be_fault_flags k), put_u8 (be_sensor_status k),
      put_f32 (be_battery_voltage_v k), put_f32 (be_altitude_m k), be_message k]"

text \<open>A 16-bit field of a packed struct.\<close>

definition put_u16 :: "u16 \<Rightarrow> byte list" where "put_u16 = u16_bytes"

record pkt_health_report =
  hr_timestamp_ms :: u32
  hr_cpu_load_pct :: byte
  hr_hwm_sensor :: u16
  hr_hwm_fsm :: u16
  hr_hwm_telemetry :: u16
  hr_hwm_health :: u16
  hr_free_heap_bytes :: u32

definition pkt_health_report_bytes :: "pkt_health_report \<Rightarrow> byte list" where
  "pkt_health_report_bytes k = concat
     [put_u32 (hr_timestamp_ms k), put_u8 (hr_cpu_load_pct k),
      put_u16 (hr_hwm_sensor k), put_u16 (hr_hwm_fsm k),
      put_u16 (hr_hwm_telemetry k), put_u16 (hr_hwm_health k),
      put_u32 (hr_free_heap_bytes k)]"

lemma length_put_u16 [len_simps]: "length (put_u16 w) = 2"
  by (simp add: put_u16_def len_simps)

lemma length_pkt_telemetry_bytes [len_simps]: "length (pkt_telemetry_bytes k) = 66"
  by (simp add: pkt_telemetry_bytes_def len_simps)

lemma length_pkt_blackbox_entry_bytes [len_simps]:
  "length (be_message k) = 32 \<Longrightarrow> length (pkt_blackbox_entry_bytes k) = 48"
  by (simp add: pkt_blackbox_entry_bytes_def len_simps)

lemma length_pkt_health_report_bytes [len_simps]: "length (pkt_health_report_bytes k) = 17"
  by (simp add: pkt_health_report_bytes_def len_simps)

section \<open>The builders\<close>

definition telemetry_packet :: "sensor_data \<Rightarrow> flight_state \<Rightarrow> byte \<Rightarrow> pkt_telemetry" where
  "telemetry_packet s state fault_flags =
     \<lparr>tl_timestamp_ms = timestamp_ms s,
      tl_flight_state = of_nat (flight_state_code state),
      tl_fault_flags = fault_flags,
      tl_altitude_m = altitude_m s,
      tl_ground_speed_mps = ground_speed_mps s,
      tl_battery_voltage_v = battery_voltage_v s,
      tl_battery_pct = battery_pct s,
      tl_accel_x = accel_x s, tl_accel_y = accel_y s, tl_accel_z = accel_z s,
      tl_gyro_x = gyro_x s, tl_gyro_y = gyro_y s, tl_gyro_z = gyro_z s,
      tl_latitude = latitude s, tl_longitude = longitude s,
      tl_gps_fix_quality = gps_fix_quality s,
      tl_gps_satellites = gps_satellites s,
      tl_temperature_c = temperature_c s,
      tl_sensor_status = sensor_status s\<rparr>"

definition proto_build_telemetry ::
    "sensor_data \<Rightarrow> flight_state \<Rightarrow> byte \<Rightarrow> buf \<Rightarrow> nat \<Rightarrow> nat \<times> buf" where
  "proto_build_telemetry s state fault_flags out_buf out_size =
     (let pkt = pkt_telemetry_bytes (telemetry_packet s state fault_flags)
      in build_frame PKT_TYPE_TELEMETRY pkt (of_nat (length pkt)) out_buf out_size)"

definition proto_build_health :: "pkt_health_report \<Rightarrow> buf \<Rightarrow> nat \<Rightarrow> nat \<times> buf" where
  "proto_build_health h out_buf out_size =
     (let pkt = pkt_health_report_bytes h
      in build_frame PKT_TYPE_HEALTH_REPORT pkt (of_nat (length pkt)) out_buf out_size)"

lemma build_frame_struct:
  assumes "length pkt < 65536" "out_size \<le> length buf"
  shows "build_frame t pkt (of_nat (length pkt)) buf out_size =
    (if 6 + length pkt > out_size then (0, buf)
     else (6 + length pkt, wire_frame t pkt @ drop (6 + length pkt) buf))"
proof -
  have "unat (of_nat (length pkt) :: u16) = length pkt"
    using assms(1) by (simp add: unat_of_nat take_bit_nat_eq_self)
  then show ?thesis using assms build_frame_eq [of "of_nat (length pkt)" pkt] by simp
qed

section \<open>Properties\<close>

text \<open>C28: \<open>build_frame\<close> stays inside the output buffer it was given and is all or nothing: a
  frame that does not fit leaves the buffer as it was and returns 0; otherwise the result is the
  length of the wire frame, which fills the front of the buffer, and nothing behind it
  changes.\<close>

theorem build_frame_all_or_nothing:
  assumes "unat n \<le> length payload" "out_size \<le> length buf"
    and "build_frame t payload n buf out_size = (written, b)"
  shows "length b = length buf \<and> drop out_size b = drop out_size buf \<and>
    (if out_size < 6 + unat n then written = 0 \<and> b = buf
     else written = 6 + unat n \<and> take written b = wire_frame t (take (unat n) payload) \<and>
       drop written b = drop written buf)"
  using assms build_frame_eq [OF assms(1,2), of t]
  by (auto simp: len_simps split: if_splits)

theorem build_frame_all_or_nothing_witness:
  "\<exists>written b. build_frame 0x20 [1, 2, 3] 3 (replicate 12 0) 10 = (written, b) \<and>
     written = 9 \<and> length b = 12 \<and> drop 10 b = drop 10 (replicate 12 0) \<and>
     take written b = wire_frame 0x20 [1, 2, 3]"
proof -
  obtain written b where e: "build_frame 0x20 [1, 2, 3] 3 (replicate 12 0) 10 = (written, b)"
    by (cases "build_frame 0x20 [1, 2, 3] 3 (replicate 12 0) 10")
  show ?thesis using build_frame_all_or_nothing [OF _ _ e] e by auto
qed

end
