(* ===== verification/Ring.thy ===== *)
theory Ring
  imports Main
begin

text \<open>
  Ring buffers and bounded logs in general: the contents of a ring (\<open>ring\<close>), the last
  entries of a list (\<open>keep_last\<close>), and the contract of a bounded log with a reader
  (locale \<open>record_log\<close>), which \<open>Blackbox\<close> interprets on the code's buffer and the
  telemetry loop uses.
\<close>

section \<open>The contents of a ring\<close>

definition ring :: "'a list \<Rightarrow> nat \<Rightarrow> nat \<Rightarrow> 'a list" where
  "ring es r c = map (\<lambda>i. es ! ((r + i) mod length es)) [0..<c]"

lemma length_ring [simp]: "length (ring es r c) = c"
  by (simp add: ring_def)

lemma ring_0 [simp]: "ring es r 0 = []"
  by (simp add: ring_def)

lemma ring_pop:
  assumes "0 < c" "r < length es"
  shows "ring es r c = es ! r # ring es ((r + 1) mod length es) (c - 1)"
proof -
  obtain d where "c = Suc d" using assms(1) by (cases c) auto
  then show ?thesis
    using assms(2) by (simp add: ring_def upt_conv_Cons map_Suc_upt [symmetric] mod_simps
        comp_def del: upt_Suc)
qed

lemma mod_less_range:
  "(r :: nat) < n \<Longrightarrow> i < n \<Longrightarrow> j < n \<Longrightarrow> (r + i) mod n = (r + j) mod n \<Longrightarrow> i = j"
  by (auto simp: mod_if split: if_splits)

lemma mod_length_less: "r < length es \<Longrightarrow> k mod length es < length es"
  by (cases es) simp_all

lemma ring_push:
  assumes "c < length es" "r < length es"
  shows "ring (es[(r + c) mod length es := x]) r (c + 1) = ring es r c @ [x]"
proof -
  have "(r + c) mod length es \<noteq> (r + i) mod length es" if "i < c" for i
    using that assms mod_less_range [of r "length es" i c] by auto
  moreover have "(r + c) mod length es < length es" using assms(2) by (rule mod_length_less)
  ultimately show ?thesis by (simp add: ring_def)
qed

text \<open>Storing into a full ring at its read position and advancing that position drops the
  oldest entry.\<close>

lemma ring_push_full:
  assumes "r < length es"
  shows "ring (es[r := x]) ((r + 1) mod length es) (length es) = tl (ring es r (length es)) @ [x]"
proof -
  let ?n = "length es" and ?r = "(r + 1) mod length es"
  have n: "0 < ?n" using assms by linarith
  have tl: "tl (ring es r ?n) = ring es ?r (?n - 1)"
    by (simp add: ring_pop [OF n assms])
  have r: "(?r + (?n - 1)) mod ?n = r"
  proof (cases "r + 1 = ?n")
    case True
    then show ?thesis using assms by simp
  next
    case False
    with assms have "?r = r + 1" by simp
    then have "?r + (?n - 1) = r + ?n" using n by linarith
    with assms show ?thesis by simp
  qed
  then have "ring (es[(?r + (?n - 1)) mod ?n := x]) ?r (?n - 1 + 1) = ring es ?r (?n - 1) @ [x]"
    using n assms by (intro ring_push mod_length_less) simp_all
  moreover have "?n - 1 + 1 = ?n" using n by linarith
  ultimately show ?thesis unfolding r tl by simp
qed

section \<open>The last entries of a list\<close>

definition keep_last :: "nat \<Rightarrow> 'a list \<Rightarrow> 'a list" where
  "keep_last n xs = drop (length xs - n) xs"

lemma length_keep_last [simp]: "length (keep_last n xs) = min n (length xs)"
  by (auto simp: keep_last_def)

lemma keep_last_all: "length xs \<le> n \<Longrightarrow> keep_last n xs = xs"
  by (simp add: keep_last_def)

lemma keep_last_snoc: "0 < n \<Longrightarrow> keep_last n (keep_last n xs @ [y]) = keep_last n (xs @ [y])"
  by (cases "length xs < n") (auto simp: keep_last_def Suc_diff_le)

section \<open>A reader's loop\<close>

text \<open>\<open>for (i = 0; i < n; i++) { if (!read(..)) break; .. }\<close>: the records read and the state
  left behind.\<close>

fun drain :: "('s \<Rightarrow> 'r option \<times> 's) \<Rightarrow> nat \<Rightarrow> 's \<Rightarrow> 'r list \<times> 's" where
  "drain pop 0 s = ([], s)"
| "drain pop (Suc n) s =
     (case pop s of (None, s1) \<Rightarrow> ([], s1)
      | (Some r, s1) \<Rightarrow> let (rs, s2) = drain pop n s1 in (r # rs, s2))"

section \<open>The contract of a bounded log\<close>

text \<open>\<open>push a s\<close> stores the record made from the arguments \<open>a\<close> and the running number
  \<open>seqno s\<close> (which may wrap around); the log keeps the last \<open>cap\<close> records.  \<open>pop\<close> takes the oldest one out, when
  the reader is \<open>ready\<close>.\<close>

locale record_log =
  fixes push :: "'a \<Rightarrow> 's \<Rightarrow> 's"
    and pop :: "'s \<Rightarrow> 'r option \<times> 's"
    and stored :: "'s \<Rightarrow> 'r list"
    and ready :: "'s \<Rightarrow> bool"
    and seqno :: "'s \<Rightarrow> 'n::semiring_1"
    and record_of :: "'a \<Rightarrow> 'n \<Rightarrow> 'r"
    and inv :: "'s \<Rightarrow> bool"
    and cap :: nat
  assumes cap_pos: "0 < cap"
    and inv_push: "inv s \<Longrightarrow> inv (push a s)"
    and stored_push: "inv s \<Longrightarrow> stored (push a s) = keep_last cap (stored s @ [record_of a (seqno s)])"
    and seqno_push: "inv s \<Longrightarrow> seqno (push a s) = seqno s + 1"
    and stored_le_cap: "inv s \<Longrightarrow> length (stored s) \<le> cap"
    and pop_none: "inv s \<Longrightarrow> stored s = [] \<or> \<not> ready s \<Longrightarrow> pop s = (None, s)"
    and pop_some: "inv s \<Longrightarrow> stored s = r # rs \<Longrightarrow> ready s \<Longrightarrow>
      fst (pop s) = Some r \<and> stored (snd (pop s)) = rs \<and> ready (snd (pop s)) \<and> inv (snd (pop s))"
begin

lemma inv_pop: "inv s \<Longrightarrow> inv (snd (pop s))"
  using pop_none [of s] pop_some [of s] by (cases "stored s"; cases "ready s") auto

text \<open>After any number of pushes the log holds the last \<open>cap\<close> records, numbered in order.\<close>

lemma inv_pushes: "inv s \<Longrightarrow> inv (foldl (\<lambda>s a. push a s) s as)"
  by (induction as arbitrary: s) (simp_all add: inv_push)

lemma seqno_pushes: "inv s \<Longrightarrow> seqno (foldl (\<lambda>s a. push a s) s as) = seqno s + of_nat (length as)"
  by (induction as arbitrary: s) (simp_all add: inv_push seqno_push ac_simps)

lemma stored_pushes:
  assumes "inv s"
  shows "stored (foldl (\<lambda>s a. push a s) s as) =
    keep_last cap (stored s @ map (\<lambda>i. record_of (as ! i) (seqno s + of_nat i)) [0..<length as])"
proof (induction as rule: rev_induct)
  case Nil
  then show ?case using stored_le_cap [OF assms] by (simp add: keep_last_all)
next
  case (snoc a as)
  let ?recs = "\<lambda>as. map (\<lambda>i. record_of (as ! i) (seqno s + of_nat i)) [0..<length as]"
  have recs: "?recs (as @ [a]) = ?recs as @ [record_of a (seqno s + of_nat (length as))]"
    by (simp add: nth_append)
  show ?case
    using assms snoc unfolding recs
    by (simp add: stored_push inv_pushes seqno_pushes keep_last_snoc cap_pos flip: append_assoc)
qed

text \<open>A ready reader that takes up to \<open>n\<close> records gets the oldest \<open>n\<close>, in order.\<close>

lemma drain_ready:
  assumes "inv s" "ready s"
  shows "fst (drain pop n s) = take n (stored s) \<and> stored (snd (drain pop n s)) = drop n (stored s)
    \<and> ready (snd (drain pop n s)) \<and> inv (snd (drain pop n s))"
  using assms
proof (induction n arbitrary: s)
  case (Suc n)
  show ?case
  proof (cases "stored s")
    case Nil
    with Suc.prems pop_none [of s] show ?thesis by simp
  next
    case (Cons r rs)
    note p = pop_some [OF Suc.prems(1) Cons Suc.prems(2)]
    obtain s1 where s1: "pop s = (Some r, s1)" using p by (cases "pop s") auto
    with p Suc.IH [of s1] Cons show ?thesis by (simp add: split_beta Let_def)
  qed
qed simp

lemma drain_not_ready: "inv s \<Longrightarrow> \<not> ready s \<Longrightarrow> drain pop n s = ([], s)"
  by (cases n) (simp_all add: pop_none)

lemma drain_inv: "inv s \<Longrightarrow> inv (snd (drain pop n s))"
  using drain_ready [of s n] drain_not_ready [of s n] by (cases "ready s") auto

end

end
