(* ===== verification/Blackbox.thy ===== *)
theory Blackbox
  imports Framing Ring "HOL-Library.Sublist"
begin

text \<open>
  The flight recorder, \<open>Firmware/Core/Src/blackbox.c\<close>: a ring of 512 records with a write
  and a read index, the number of records held, a running number and an overflow mark.
  Every operation runs under the recorder's own mutex, so it is one step here; the tick
  count it stamps a record with is an argument.

  \<open>bb_stored\<close> is the list of records held, oldest first.  On it \<open>blackbox_log\<close> is "append
  and keep the last 512" and \<open>blackbox_read\<close> is "take the first", except that a buffer that
  is full without having overflowed looks empty to the reader (\<open>bb_ready\<close>).  The
  interpretation of \<open>record_log\<close> states this contract.
\<close>

section \<open>Records and buffer\<close>

definition BLACKBOX_CAPACITY :: u16 where "BLACKBOX_CAPACITY = 512"
definition BLACKBOX_MSG_LEN :: nat where "BLACKBOX_MSG_LEN = 32"

datatype bb_event_type =
    BB_EVT_BOOT
  | BB_EVT_STATE_CHANGE
  | BB_EVT_FAULT_SET
  | BB_EVT_FAULT_CLEAR
  | BB_EVT_SENSOR_UPDATE
  | BB_EVT_COMMS_TIMEOUT
  | BB_EVT_WATCHDOG_FEED
  | BB_EVT_HEALTH_SNAPSHOT
  | BB_EVT_USER

fun bb_event_code :: "bb_event_type \<Rightarrow> byte" where
  "bb_event_code BB_EVT_BOOT = 0x01"
| "bb_event_code BB_EVT_STATE_CHANGE = 0x02"
| "bb_event_code BB_EVT_FAULT_SET = 0x03"
| "bb_event_code BB_EVT_FAULT_CLEAR = 0x04"
| "bb_event_code BB_EVT_SENSOR_UPDATE = 0x05"
| "bb_event_code BB_EVT_COMMS_TIMEOUT = 0x06"
| "bb_event_code BB_EVT_WATCHDOG_FEED = 0x07"
| "bb_event_code BB_EVT_HEALTH_SNAPSHOT = 0x08"
| "bb_event_code BB_EVT_USER = 0xFF"

record bb_record =
  rec_timestamp_ms :: u32
  rec_event_type :: byte
  rec_flight_state :: byte
  rec_fault_flags :: byte
  rec_sensor_status :: byte
  rec_battery_voltage_v :: f32
  rec_altitude_m :: f32
  rec_accel_magnitude :: f32
  rec_message :: "byte list"   \<comment> \<open>\<open>char message[BLACKBOX_MSG_LEN]\<close>\<close>
  rec_sequence :: u16
  rec_pad :: "byte list"       \<comment> \<open>\<open>uint8_t _pad[2]\<close>\<close>

text \<open>\<open>memset(rec, 0, sizeof(*rec))\<close>.\<close>

definition bb_record_zero :: bb_record where
  "bb_record_zero =
     \<lparr>rec_timestamp_ms = 0, rec_event_type = 0, rec_flight_state = 0, rec_fault_flags = 0,
      rec_sensor_status = 0, rec_battery_voltage_v = 0, rec_altitude_m = 0,
      rec_accel_magnitude = 0, rec_message = replicate BLACKBOX_MSG_LEN 0,
      rec_sequence = 0, rec_pad = [0, 0]\<rparr>"

text \<open>The packed struct as it lies in memory.\<close>

definition bb_record_bytes :: "bb_record \<Rightarrow> byte list" where
  "bb_record_bytes r = concat
     [put_u32 (rec_timestamp_ms r), put_u8 (rec_event_type r), put_u8 (rec_flight_state r),
      put_u8 (rec_fault_flags r), put_u8 (rec_sensor_status r),
      put_f32 (rec_battery_voltage_v r), put_f32 (rec_altitude_m r),
      put_f32 (rec_accel_magnitude r), rec_message r, put_u16 (rec_sequence r), rec_pad r]"

record blackbox =
  entries :: "bb_record list"
  write_idx :: u16
  read_idx :: u16
  bb_count :: u16
  sequence :: u16
  overflow :: bool

section \<open>Operations\<close>

definition blackbox_init :: "blackbox \<Rightarrow> blackbox" where
  "blackbox_init bb =
     \<lparr>entries = replicate (unat BLACKBOX_CAPACITY) bb_record_zero, write_idx = 0, read_idx = 0,
      bb_count = 0, sequence = 0, overflow = False\<rparr>"

text \<open>The arguments of a log call, with the tick count read inside it; \<open>None\<close> is a null
  message pointer.\<close>

record bb_args =
  arg_tick :: u32
  arg_type :: bb_event_type
  arg_state :: flight_state
  arg_fault_flags :: byte
  arg_sensor_status :: byte
  arg_voltage :: f32
  arg_altitude :: f32
  arg_accel_mag :: f32
  arg_msg :: "byte list option"

definition bb_make_record :: "bb_args \<Rightarrow> u16 \<Rightarrow> bb_record" where
  "bb_make_record a seq = bb_record_zero
     \<lparr>rec_timestamp_ms := arg_tick a,
      rec_event_type := bb_event_code (arg_type a),
      rec_flight_state := of_nat (flight_state_code (arg_state a)),
      rec_fault_flags := arg_fault_flags a,
      rec_sensor_status := arg_sensor_status a,
      rec_battery_voltage_v := arg_voltage a,
      rec_altitude_m := arg_altitude a,
      rec_accel_magnitude := arg_accel_mag a,
      rec_sequence := seq,
      rec_message := (case arg_msg a of None \<Rightarrow> rec_message bb_record_zero
         | Some msg \<Rightarrow> c_strncpy (rec_message bb_record_zero) msg (BLACKBOX_MSG_LEN - 1))\<rparr>"

definition blackbox_log :: "bb_args \<Rightarrow> blackbox \<Rightarrow> blackbox" where
  "blackbox_log a bb =
     (let bb = bb\<lparr>entries := (entries bb)[unat (write_idx bb) := bb_make_record a (sequence bb)],
                  sequence := sequence bb + 1\<rparr>;
          bb = bb\<lparr>write_idx := (write_idx bb + 1) mod BLACKBOX_CAPACITY\<rparr>
      in if bb_count bb < BLACKBOX_CAPACITY then bb\<lparr>bb_count := bb_count bb + 1\<rparr>
         else bb\<lparr>overflow := True, read_idx := (read_idx bb + 1) mod BLACKBOX_CAPACITY\<rparr>)"

text \<open>\<open>None\<close> is the result \<open>false\<close>, with \<open>*out\<close> left alone.\<close>

definition blackbox_read :: "blackbox \<Rightarrow> bb_record option \<times> blackbox" where
  "blackbox_read bb =
     (let available = bb_count bb > 0 \<and> (read_idx bb \<noteq> write_idx bb \<or> overflow bb)
      in if available
         then (Some (entries bb ! unat (read_idx bb)),
           bb\<lparr>read_idx := (read_idx bb + 1) mod BLACKBOX_CAPACITY,
              bb_count := (if bb_count bb > 0 then bb_count bb - 1 else bb_count bb),
              overflow := False\<rparr>)
         else (None, bb))"

definition blackbox_peek :: "blackbox \<Rightarrow> u16 \<Rightarrow> bb_record option" where
  "blackbox_peek bb idx =
     (if idx \<ge> BLACKBOX_CAPACITY then None else Some (entries bb ! unat idx))"

definition blackbox_count :: "blackbox \<Rightarrow> u16" where
  "blackbox_count bb = bb_count bb"

definition blackbox_rewind :: "blackbox \<Rightarrow> blackbox" where
  "blackbox_rewind bb =
     (if sequence bb \<ge> BLACKBOX_CAPACITY then bb\<lparr>read_idx := write_idx bb\<rparr>
      else bb\<lparr>read_idx := 0\<rparr>)"

section \<open>Invariant and contents\<close>

definition rec_ok :: "bb_record \<Rightarrow> bool" where
  "rec_ok r \<longleftrightarrow> length (rec_message r) = BLACKBOX_MSG_LEN \<and> last (rec_message r) = 0 \<and>
     length (rec_pad r) = 2"

definition bb_inv :: "blackbox \<Rightarrow> bool" where
  "bb_inv bb \<longleftrightarrow>
     length (entries bb) = 512 \<and> (\<forall>r \<in> set (entries bb). rec_ok r) \<and>
     unat (read_idx bb) < 512 \<and> unat (bb_count bb) \<le> 512 \<and>
     unat (write_idx bb) = (unat (read_idx bb) + unat (bb_count bb)) mod 512 \<and>
     (overflow bb \<longrightarrow> unat (bb_count bb) = 512)"

definition bb_stored :: "blackbox \<Rightarrow> bb_record list" where
  "bb_stored bb = ring (entries bb) (unat (read_idx bb)) (unat (bb_count bb))"

definition bb_ready :: "blackbox \<Rightarrow> bool" where
  "bb_ready bb \<longleftrightarrow> (unat (bb_count bb) = 512 \<longrightarrow> overflow bb)"

lemma length_bb_stored [simp]: "length (bb_stored bb) = unat (bb_count bb)"
  by (simp add: bb_stored_def)

lemma bb_count_le: "bb_inv bb \<Longrightarrow> unat (bb_count bb) \<le> 512"
  by (simp add: bb_inv_def)

lemma unat_next_idx: "unat i < 512 \<Longrightarrow> unat ((i + 1) mod BLACKBOX_CAPACITY) = (unat i + 1) mod 512"
  for i :: u16
  by (simp add: BLACKBOX_CAPACITY_def unat_mod unat_word_ariths)

lemma unat_Suc_small: "unat c < 512 \<Longrightarrow> unat (c + 1) = Suc (unat c)" for c :: u16
  by (simp add: unat_word_ariths)

lemma unat_pred: "0 < c \<Longrightarrow> unat (c - 1) = unat c - 1" for c :: u16
  by (simp add: unat_minus_one word_greater_zero_iff)

lemma count_less_cap: "c < BLACKBOX_CAPACITY \<longleftrightarrow> unat c < 512"
  by (simp add: BLACKBOX_CAPACITY_def word_less_nat_alt)

lemma rec_ok_make [simp]: "rec_ok (bb_make_record a seq)"
proof (cases "arg_msg a")
  case None
  then show ?thesis
    by (simp add: rec_ok_def bb_make_record_def bb_record_zero_def BLACKBOX_MSG_LEN_def)
next
  case (Some msg)
  have "last (c_strncpy (replicate 32 0) msg 31) = 0"
    by (simp add: c_strncpy_def)
  with Some show ?thesis
    by (simp add: rec_ok_def bb_make_record_def bb_record_zero_def BLACKBOX_MSG_LEN_def len_simps)
qed

lemma bb_inv_init [simp]: "bb_inv (blackbox_init bb)"
  by (simp add: bb_inv_def blackbox_init_def BLACKBOX_CAPACITY_def rec_ok_def bb_record_zero_def
      BLACKBOX_MSG_LEN_def)

lemma bb_stored_init [simp]: "bb_stored (blackbox_init bb) = []"
  by (simp add: bb_stored_def blackbox_init_def)

section \<open>Logging appends and keeps the last 512 records\<close>

lemma rec_ok_update:
  "\<forall>r \<in> set es. rec_ok r \<Longrightarrow> rec_ok x \<Longrightarrow> \<forall>r \<in> set (es[i := x]). rec_ok r"
  using set_update_subset_insert [of es i x] by blast

lemma blackbox_log_room:
  assumes inv: "bb_inv bb" and room: "unat (bb_count bb) < 512"
  shows "bb_inv (blackbox_log a bb)"
    "bb_stored (blackbox_log a bb) = bb_stored bb @ [bb_make_record a (sequence bb)]"
    "unat (bb_count (blackbox_log a bb)) = Suc (unat (bb_count bb))"
    "overflow (blackbox_log a bb) = False"
proof -
  let ?x = "bb_make_record a (sequence bb)" and ?r = "unat (read_idx bb)"
    and ?c = "unat (bb_count bb)" and ?w = "unat (write_idx bb)"
  let ?bb = "blackbox_log a bb"
  have w: "?w = (?r + ?c) mod 512" "?w < 512" using inv by (simp_all add: bb_inv_def)
  have f: "entries ?bb = (entries bb)[?w := ?x]" "read_idx ?bb = read_idx bb"
    "unat (write_idx ?bb) = (?w + 1) mod 512" "unat (bb_count ?bb) = Suc ?c"
    "overflow ?bb = overflow bb"
    using room w(2) by (simp_all add: blackbox_log_def Let_def count_less_cap unat_next_idx
        unat_Suc_small)
  show "unat (bb_count ?bb) = Suc ?c" by (fact f(4))
  show "overflow ?bb = False" using inv room f(5) by (auto simp: bb_inv_def)
  have ok: "\<forall>r \<in> set (entries ?bb). rec_ok r"
    unfolding f using inv by (intro rec_ok_update) (simp_all add: bb_inv_def)
  have "overflow bb \<longrightarrow> ?c = 512" using inv by (simp add: bb_inv_def)
  with ok show "bb_inv ?bb"
    using inv room unfolding bb_inv_def f w by (simp add: mod_simps)
  show "bb_stored ?bb = bb_stored bb @ [?x]"
    using ring_push [of ?c "entries bb" ?r ?x] inv room unfolding bb_stored_def f w
    by (simp add: bb_inv_def)
qed

lemma blackbox_log_full:
  assumes inv: "bb_inv bb" and full: "unat (bb_count bb) = 512"
  shows "bb_inv (blackbox_log a bb)"
    "bb_stored (blackbox_log a bb) = tl (bb_stored bb) @ [bb_make_record a (sequence bb)]"
    "bb_count (blackbox_log a bb) = bb_count bb"
    "overflow (blackbox_log a bb) = True"
proof -
  let ?x = "bb_make_record a (sequence bb)" and ?r = "unat (read_idx bb)"
    and ?w = "unat (write_idx bb)"
  let ?bb = "blackbox_log a bb"
  have w: "?w = ?r" "?r < 512" using inv full by (simp_all add: bb_inv_def)
  have f: "entries ?bb = (entries bb)[?r := ?x]" "unat (read_idx ?bb) = (?r + 1) mod 512"
    "unat (write_idx ?bb) = (?r + 1) mod 512" "bb_count ?bb = bb_count bb" "overflow ?bb"
    using full w by (simp_all add: blackbox_log_def Let_def count_less_cap unat_next_idx)
  show "bb_count ?bb = bb_count bb" "overflow ?bb = True" using f by simp_all
  have ok: "\<forall>r \<in> set (entries ?bb). rec_ok r"
    unfolding f using inv by (intro rec_ok_update) (simp_all add: bb_inv_def)
  then show "bb_inv ?bb" using inv full unfolding bb_inv_def f by simp
  show "bb_stored ?bb = tl (bb_stored bb) @ [?x]"
    using ring_push_full [of ?r "entries bb" ?x] inv full unfolding bb_stored_def f
    by (simp add: bb_inv_def)
qed

lemma bb_inv_log: "bb_inv bb \<Longrightarrow> bb_inv (blackbox_log a bb)"
  using blackbox_log_room(1) blackbox_log_full(1) [of bb a]
  by (cases "unat (bb_count bb) < 512") (auto simp: bb_inv_def)

lemma bb_stored_log:
  assumes "bb_inv bb"
  shows "bb_stored (blackbox_log a bb) =
    keep_last 512 (bb_stored bb @ [bb_make_record a (sequence bb)])"
proof (cases "unat (bb_count bb) < 512")
  case True
  then show ?thesis using blackbox_log_room(2) [OF assms] by (simp add: keep_last_all)
next
  case False
  then have full: "unat (bb_count bb) = 512" using assms by (simp add: bb_inv_def)
  then have "bb_stored bb \<noteq> []" by (auto simp flip: length_0_conv)
  with full show ?thesis
    using blackbox_log_full(2) [OF assms full] by (simp add: keep_last_def drop_Suc)
qed

lemma sequence_log [simp]: "sequence (blackbox_log a bb) = sequence bb + 1"
  by (simp add: blackbox_log_def Let_def)

section \<open>Reading takes the oldest record, when the reader sees one\<close>

lemma blackbox_available_iff:
  assumes "bb_inv bb"
  shows "(bb_count bb > 0 \<and> (read_idx bb \<noteq> write_idx bb \<or> overflow bb)) \<longleftrightarrow>
    bb_stored bb \<noteq> [] \<and> bb_ready bb"
proof -
  let ?r = "unat (read_idx bb)" and ?c = "unat (bb_count bb)"
  have b: "?r < 512" "?c \<le> 512" "unat (write_idx bb) = (?r + ?c) mod 512"
    using assms by (simp_all add: bb_inv_def)
  have "read_idx bb = write_idx bb \<longleftrightarrow> ?r = (?r + ?c) mod 512"
    by (simp only: word_unat_eq_iff b(3))
  also have "\<dots> \<longleftrightarrow> ?c = 0 \<or> ?c = 512"
    using b(1,2) by (auto simp: mod_if)
  finally have eq: "read_idx bb = write_idx bb \<longleftrightarrow> ?c = 0 \<or> ?c = 512" .
  have ne: "bb_stored bb \<noteq> [] \<longleftrightarrow> ?c \<noteq> 0" by (simp flip: length_0_conv)
  have pos: "bb_count bb > 0 \<longleftrightarrow> ?c \<noteq> 0" by (simp add: word_greater_zero_iff unat_eq_zero)
  show ?thesis unfolding eq ne pos bb_ready_def by auto
qed

lemma blackbox_read_none:
  "bb_inv bb \<Longrightarrow> bb_stored bb = [] \<or> \<not> bb_ready bb \<Longrightarrow> blackbox_read bb = (None, bb)"
  unfolding blackbox_read_def Let_def blackbox_available_iff by auto

lemma blackbox_read_some:
  assumes inv: "bb_inv bb" and st: "bb_stored bb = r # rs" and ready: "bb_ready bb"
  shows "fst (blackbox_read bb) = Some r" "bb_stored (snd (blackbox_read bb)) = rs"
    "bb_ready (snd (blackbox_read bb))" "bb_inv (snd (blackbox_read bb))"
    "sequence (snd (blackbox_read bb)) = sequence bb"
proof -
  let ?r = "unat (read_idx bb)" and ?c = "unat (bb_count bb)"
  let ?bb = "snd (blackbox_read bb)"
  have len: "?c = Suc (length rs)" using st by (metis length_Cons length_bb_stored)
  then have pos: "0 < bb_count bb" by (simp add: word_greater_zero_iff flip: unat_eq_zero)
  have b: "?r < 512" "length (entries bb) = 512" using inv by (simp_all add: bb_inv_def)
  have av: "bb_count bb > 0 \<and> (read_idx bb \<noteq> write_idx bb \<or> overflow bb)"
    unfolding blackbox_available_iff [OF inv] using st ready by simp
  have f: "entries ?bb = entries bb" "unat (read_idx ?bb) = (?r + 1) mod 512"
    "write_idx ?bb = write_idx bb" "unat (bb_count ?bb) = ?c - 1" "\<not> overflow ?bb"
    "sequence ?bb = sequence bb"
    unfolding blackbox_read_def Let_def if_P [OF av]
    using pos b by (simp_all add: unat_next_idx unat_pred)
  have "r # rs = entries bb ! ?r # ring (entries bb) ((?r + 1) mod 512) (?c - 1)"
    using ring_pop [of ?c ?r "entries bb"] len b st by (simp add: bb_stored_def)
  moreover have "fst (blackbox_read bb) = Some (entries bb ! ?r)"
    unfolding blackbox_read_def Let_def if_P [OF av] by simp
  ultimately show "fst (blackbox_read bb) = Some r" "bb_stored ?bb = rs"
    unfolding bb_stored_def f by simp_all
  show "sequence ?bb = sequence bb" by (fact f(6))
  have c: "?c \<le> 512" "?c \<noteq> 0" using inv len by (simp_all add: bb_inv_def)
  then show "bb_ready ?bb" unfolding bb_ready_def f by auto
  have "((?r + 1) mod 512 + (?c - 1)) mod 512 = (?r + ?c) mod 512"
    unfolding len by (simp add: mod_simps)
  then show "bb_inv ?bb" using inv c f(5) unfolding bb_inv_def f by simp
qed

interpretation bb: record_log blackbox_log blackbox_read bb_stored bb_ready sequence
  bb_make_record bb_inv 512
  by unfold_locales
    (simp_all add: bb_inv_log bb_stored_log blackbox_read_none blackbox_read_some bb_count_le)

text \<open>Records kept in the buffer are well-formed.\<close>

lemma bb_stored_ok:
  assumes "bb_inv bb" "r \<in> set (bb_stored bb)"
  shows "rec_ok r"
proof -
  have "set (bb_stored bb) \<subseteq> set (entries bb)"
    using assms(1) by (auto simp: bb_stored_def ring_def bb_inv_def)
  with assms show ?thesis by (auto simp: bb_inv_def)
qed

section \<open>Logging and reading in any order\<close>

text \<open>The calls made on a recorder, in their order, and what they do: the results of the reads and
  the recorder left behind.\<close>

datatype bb_call = Log_Call bb_args | Read_Call

fun bb_calls :: "bb_call list \<Rightarrow> blackbox \<Rightarrow> bb_record option list \<times> blackbox" where
  "bb_calls [] bb = ([], bb)"
| "bb_calls (Log_Call a # cs) bb = bb_calls cs (blackbox_log a bb)"
| "bb_calls (Read_Call # cs) bb =
     (let (r, bb) = blackbox_read bb; (rs, bb) = bb_calls cs bb in (r # rs, bb))"

text \<open>The abstract recorder: a queue of at most 512 records, the number of the next one, and whether
  reading is blocked.  The log call that fills the queue blocks it, and any other log call frees it
  again.\<close>

record bb_queue =
  q_records :: "bb_record list"
  q_next :: u16
  q_blocked :: bool

definition queue_empty :: bb_queue where
  "queue_empty = \<lparr>q_records = [], q_next = 0, q_blocked = False\<rparr>"

definition queue_log :: "bb_args \<Rightarrow> bb_queue \<Rightarrow> bb_queue" where
  "queue_log a q =
     \<lparr>q_records = keep_last 512 (q_records q @ [bb_make_record a (q_next q)]),
      q_next = q_next q + 1, q_blocked = (length (q_records q) = 511)\<rparr>"

definition queue_read :: "bb_queue \<Rightarrow> bb_record option \<times> bb_queue" where
  "queue_read q =
     (case q_records q of [] \<Rightarrow> (None, q)
      | r # rs \<Rightarrow> if q_blocked q then (None, q) else (Some r, q\<lparr>q_records := rs\<rparr>))"

fun queue_calls :: "bb_call list \<Rightarrow> bb_queue \<Rightarrow> bb_record option list \<times> bb_queue" where
  "queue_calls [] q = ([], q)"
| "queue_calls (Log_Call a # cs) q = queue_calls cs (queue_log a q)"
| "queue_calls (Read_Call # cs) q =
     (let (r, q) = queue_read q; (rs, q) = queue_calls cs q in (r # rs, q))"

text \<open>All records the calls make, in their order.\<close>

fun logged_records :: "bb_call list \<Rightarrow> u16 \<Rightarrow> bb_record list" where
  "logged_records [] n = []"
| "logged_records (Log_Call a # cs) n = bb_make_record a n # logged_records cs (n + 1)"
| "logged_records (Read_Call # cs) n = logged_records cs n"

definition bb_abs :: "blackbox \<Rightarrow> bb_queue" where
  "bb_abs bb = \<lparr>q_records = bb_stored bb, q_next = sequence bb, q_blocked = (\<not> bb_ready bb)\<rparr>"

lemma bb_abs_init: "bb_abs (blackbox_init bb) = queue_empty"
  by (simp add: bb_abs_def queue_empty_def bb_ready_def) (simp add: blackbox_init_def)

lemma bb_ready_log_iff:
  "bb_inv bb \<Longrightarrow> bb_ready (blackbox_log a bb) \<longleftrightarrow> unat (bb_count bb) \<noteq> 511"
  using blackbox_log_room(3,4) [of bb a] blackbox_log_full(3,4) [of bb a]
  by (cases "unat (bb_count bb) < 512") (auto simp: bb_ready_def bb_inv_def)

lemma bb_abs_log: "bb_inv bb \<Longrightarrow> bb_abs (blackbox_log a bb) = queue_log a (bb_abs bb)"
  by (simp add: bb_abs_def queue_log_def bb_stored_log bb_ready_log_iff)

lemma bb_abs_read:
  assumes "bb_inv bb"
  shows "queue_read (bb_abs bb) = (fst (blackbox_read bb), bb_abs (snd (blackbox_read bb)))"
proof (cases "bb_stored bb")
  case Nil
  then show ?thesis using blackbox_read_none [OF assms] by (simp add: queue_read_def bb_abs_def)
next
  case (Cons r rs)
  then show ?thesis
    using blackbox_read_none [OF assms] blackbox_read_some [OF assms Cons]
    by (cases "bb_ready bb") (simp_all add: queue_read_def bb_abs_def)
qed

lemma bb_calls_abs:
  "bb_inv bb \<Longrightarrow> bb_inv (snd (bb_calls cs bb)) \<and>
     queue_calls cs (bb_abs bb) = (fst (bb_calls cs bb), bb_abs (snd (bb_calls cs bb)))"
proof (induction cs bb rule: bb_calls.induct)
  case (3 cs bb)
  then show ?case
    using "3.IH" [OF refl prod.collapse bb.inv_pop] by (simp add: bb_abs_read split_beta Let_def)
qed (simp_all add: bb_inv_log bb_abs_log [symmetric])

lemma keep_last_subseq: "subseq (keep_last n xs) xs"
  by (simp add: keep_last_def suffix_imp_subseq suffix_drop)

lemma queue_calls_in_order:
  "subseq (List.map_filter id (fst (queue_calls cs q)) @ q_records (snd (queue_calls cs q)))
     (q_records q @ logged_records cs (q_next q))"
proof (induction cs q rule: queue_calls.induct)
  case (2 a cs q)
  let ?x = "bb_make_record a (q_next q)"
  have "subseq (keep_last 512 (q_records q @ [?x]) @ logged_records cs (q_next q + 1))
      ((q_records q @ [?x]) @ logged_records cs (q_next q + 1))"
    by (rule list_emb_append_mono [OF keep_last_subseq]) simp
  with 2 show ?case by (auto simp: queue_log_def intro: subseq_order.trans)
next
  case (3 cs q)
  then show ?case
    by (cases "q_records q") (auto simp: queue_read_def List.map_filter_simps split_beta Let_def)
qed (simp add: List.map_filter_simps)

section \<open>Properties\<close>

abbreviation log_all :: "bb_args list \<Rightarrow> blackbox \<Rightarrow> blackbox" where
  "log_all as bb \<equiv> foldl (\<lambda>bb a. blackbox_log a bb) bb as"

lemma log_all_room:
  "length as \<le> 512 \<Longrightarrow> unat (bb_count (log_all as (blackbox_init bb))) = length as \<and>
     \<not> overflow (log_all as (blackbox_init bb))"
proof (induction as rule: rev_induct)
  case Nil
  show ?case by (simp add: blackbox_init_def)
next
  case (snoc a as)
  have "bb_inv (log_all as (blackbox_init bb))" by (rule bb.inv_pushes) simp
  with snoc blackbox_log_room [of "log_all as (blackbox_init bb)" a] show ?case by simp
qed

lemma log_all_full:
  "512 < length as \<Longrightarrow> unat (bb_count (log_all as (blackbox_init bb))) = 512 \<and>
     overflow (log_all as (blackbox_init bb))"
proof (induction as rule: rev_induct)
  case (snoc a as)
  have inv: "bb_inv (log_all as (blackbox_init bb))" by (rule bb.inv_pushes) simp
  show ?case
  proof (cases "length as = 512")
    case True
    then show ?thesis
      using log_all_room [of as bb] blackbox_log_full(3,4) [OF inv, of a] by simp
  next
    case False
    with snoc show ?thesis using blackbox_log_full(3,4) [OF inv, of a] by simp
  qed
qed simp

lemma log_all_ready: "length as \<noteq> 512 \<Longrightarrow> bb_ready (log_all as (blackbox_init bb))"
  using log_all_room [of as bb] log_all_full [of as bb]
  by (cases "length as < 512") (auto simp: bb_ready_def)

text \<open>C8: The flight recorder never loses a recent record: after any log calls on a fresh recorder
  the ring holds exactly the last 512 of them, oldest first, each with the number of its call
  (modulo 65536) and the contents the call was given, and every index is in bounds.\<close>

theorem recorder_keeps_last_512:
  "bb_inv (log_all as (blackbox_init bb)) \<and>
   bb_stored (log_all as (blackbox_init bb)) =
     keep_last 512 (map (\<lambda>i. bb_make_record (as ! i) (of_nat i)) [0..<length as])"
proof
  show "bb_inv (log_all as (blackbox_init bb))" by (rule bb.inv_pushes) simp
  have "sequence (blackbox_init bb) = 0" by (simp add: blackbox_init_def)
  then show "bb_stored (log_all as (blackbox_init bb)) =
     keep_last 512 (map (\<lambda>i. bb_make_record (as ! i) (of_nat i)) [0..<length as])"
    using bb.stored_pushes [of "blackbox_init bb" as] by simp
qed

text \<open>C22: Reading replays the recorder in order.  However log and read calls follow each other on a
  fresh recorder, its ring of indices and its counter behave as a queue of at most 512 records that
  drops its oldest record when full: every read takes out the oldest record held, except that it
  takes none while the queue is empty or blocked, and the queue is blocked exactly from a log call
  that brings it from 511 to 512 records until the next log call.  So the records read so far,
  followed by those still held, are records logged, each at most once and in the order logged.\<close>

theorem recorder_reads_in_order:
  "queue_calls cs queue_empty =
     (fst (bb_calls cs (blackbox_init bb)), bb_abs (snd (bb_calls cs (blackbox_init bb)))) \<and>
   bb_inv (snd (bb_calls cs (blackbox_init bb))) \<and>
   subseq (List.map_filter id (fst (bb_calls cs (blackbox_init bb))) @
       bb_stored (snd (bb_calls cs (blackbox_init bb))))
     (logged_records cs 0)"
proof -
  have q: "queue_calls cs queue_empty =
      (fst (bb_calls cs (blackbox_init bb)), bb_abs (snd (bb_calls cs (blackbox_init bb))))"
    "bb_inv (snd (bb_calls cs (blackbox_init bb)))"
    using bb_calls_abs [of "blackbox_init bb" cs] by (simp_all add: bb_abs_init)
  have "q_records (bb_abs b) = bb_stored b" for b by (simp add: bb_abs_def)
  with q show ?thesis
    using queue_calls_in_order [of cs queue_empty] by (simp add: queue_empty_def)
qed

definition example_args :: bb_args where
  "example_args =
     \<lparr>arg_tick = 7, arg_type = BB_EVT_BOOT, arg_state = FLIGHT_STATE_INIT, arg_fault_flags = 0,
      arg_sensor_status = 0, arg_voltage = 0, arg_altitude = 0, arg_accel_mag = 0,
      arg_msg = None\<rparr>"

definition example_blackbox :: blackbox where
  "example_blackbox =
     \<lparr>entries = [], write_idx = 0, read_idx = 0, bb_count = 0, sequence = 0, overflow = False\<rparr>"

text \<open>A recorder filled to the brim is unreadable: after exactly 512 log calls it counts 512
  records and every read fails, with no change.\<close>

lemma recorder_full_unreadable:
  assumes "length as = 512"
  shows "unat (blackbox_count (log_all as (blackbox_init bb))) = 512 \<and>
    blackbox_read (log_all as (blackbox_init bb)) = (None, log_all as (blackbox_init bb))"
proof
  have inv: "bb_inv (log_all as (blackbox_init bb))" by (rule bb.inv_pushes) simp
  show "unat (blackbox_count (log_all as (blackbox_init bb))) = 512"
    using log_all_room [of as bb] assms by (simp add: blackbox_count_def)
  have "\<not> bb_ready (log_all as (blackbox_init bb))"
    using log_all_room [of as bb] assms by (simp add: bb_ready_def)
  then show "blackbox_read (log_all as (blackbox_init bb)) = (None, log_all as (blackbox_init bb))"
    using inv by (simp add: blackbox_read_none)
qed

text \<open>This is not only so at the start: a recorder that overflowed is readable, but after one read
  and one log call it is blocked again, with 512 records in it.\<close>

lemma recorder_blocks_again:
  assumes "bb_inv bb" "bb_stored bb = r # rs" "length rs = 511" "bb_ready bb"
  shows "fst (bb_calls [Read_Call, Log_Call a, Read_Call] bb) = [Some r, None]"
proof -
  have "fst (queue_calls [Read_Call, Log_Call a, Read_Call] (bb_abs bb)) = [Some r, None]"
    using assms by (simp add: bb_abs_def queue_read_def queue_log_def keep_last_def split: list.split)
  with bb_calls_abs [OF assms(1), of "[Read_Call, Log_Call a, Read_Call]"] show ?thesis by simp
qed

text \<open>Rewinding does not replay: when every record has been read, \<open>blackbox_rewind\<close> moves the
  read position but not the count, and the next read still fails.\<close>

lemma recorder_rewind_no_replay:
  assumes "bb_inv bb" "bb_ready bb" "unat (blackbox_count bb) \<le> n"
  shows "fst (blackbox_read (blackbox_rewind (snd (drain blackbox_read n bb)))) = None"
proof -
  let ?b = "snd (drain blackbox_read n bb)"
  have "bb_stored ?b = drop n (bb_stored bb)"
    using bb.drain_ready [OF assms(1,2), of n] by simp
  then have "length (bb_stored ?b) = 0" using assms(3) by (simp add: blackbox_count_def)
  then have "bb_count ?b = 0" by (simp add: unat_eq_zero)
  then have "bb_count (blackbox_rewind ?b) = 0" by (simp add: blackbox_rewind_def)
  then show ?thesis by (simp add: blackbox_read_def Let_def)
qed

text \<open>The packed record takes 56 bytes; the header file expects 64.\<close>

lemma length_bb_record_bytes: "rec_ok r \<Longrightarrow> length (bb_record_bytes r) = 56"
  by (simp add: bb_record_bytes_def rec_ok_def BLACKBOX_MSG_LEN_def len_simps)

end
