(* ===== verification/FlightFsm.thy ===== *)
theory FlightFsm
  imports Blackbox
begin

text \<open>
  The flight state machine, \<open>Firmware/Core/Inc/flight_fsm.h\<close> and
  \<open>Firmware/Core/Src/flight_fsm.c\<close>: its context, the table of legal transitions, the
  guards, \<open>fsm_tick\<close> (one evaluation of the sensors) and \<open>fsm_command\<close> (an arm or disarm
  request).  Both operations may log to the flight recorder, which is passed through with
  the tick count the log call reads.

  The lemmas show what each operation does on every branch, that each transition made is in
  the table and leaves one record, and what holds in every context the two operations can
  reach (\<open>fsm_run\<close>).
\<close>

section \<open>Context, events and thresholds\<close>

datatype fsm_event =
    FSM_EVT_SENSOR_OK
  | FSM_EVT_GPS_ACQUIRED
  | FSM_EVT_ARMED_CMD
  | FSM_EVT_LIFTOFF
  | FSM_EVT_LAND_DETECT
  | FSM_EVT_FAULT_DETECTED
  | FSM_EVT_FAULT_CLEARED
  | FSM_EVT_DISARM_CMD

fun fsm_event_code :: "fsm_event \<Rightarrow> u32" where
  "fsm_event_code FSM_EVT_SENSOR_OK = 0x01"
| "fsm_event_code FSM_EVT_GPS_ACQUIRED = 0x02"
| "fsm_event_code FSM_EVT_ARMED_CMD = 0x03"
| "fsm_event_code FSM_EVT_LIFTOFF = 0x04"
| "fsm_event_code FSM_EVT_LAND_DETECT = 0x05"
| "fsm_event_code FSM_EVT_FAULT_DETECTED = 0x06"
| "fsm_event_code FSM_EVT_FAULT_CLEARED = 0x07"
| "fsm_event_code FSM_EVT_DISARM_CMD = 0x08"

text \<open>\<open>last_event\<close> holds the number of an event: \<open>fsm_init\<close> leaves 0 there, which is none.\<close>

record fsm_ctx =
  current_state :: flight_state
  previous_state :: flight_state
  last_event :: u32
  state_entry_ms :: u32
  ctx_fault_flags :: u32
  transition_count :: u32

definition FSM_PREFLIGHT_BATT_MIN_V :: f32 where "FSM_PREFLIGHT_BATT_MIN_V = f32_lit 11 1"
definition FSM_PREFLIGHT_GPS_MIN_SATS :: byte where "FSM_PREFLIGHT_GPS_MIN_SATS = 4"
definition FSM_PREFLIGHT_SENSOR_MASK :: byte where "FSM_PREFLIGHT_SENSOR_MASK = SENSOR_FLAG_ALL_OK"
definition FSM_ARMED_ACCEL_THRESH_G :: f32 where "FSM_ARMED_ACCEL_THRESH_G = f32_lit 15 100"
definition FSM_LANDING_ALT_THRESH_M :: f32 where "FSM_LANDING_ALT_THRESH_M = f32_lit 5 10"
definition FSM_LANDING_SPEED_THRESH :: f32 where "FSM_LANDING_SPEED_THRESH = f32_lit 3 10"

section \<open>The transition table\<close>

definition TRANSITIONS :: "(flight_state \<times> flight_state \<times> fsm_event) list" where
  "TRANSITIONS =
    [(FLIGHT_STATE_INIT,      FLIGHT_STATE_PREFLIGHT, FSM_EVT_SENSOR_OK),
     (FLIGHT_STATE_PREFLIGHT, FLIGHT_STATE_ARMED,     FSM_EVT_ARMED_CMD),
     (FLIGHT_STATE_ARMED,     FLIGHT_STATE_PREFLIGHT, FSM_EVT_DISARM_CMD),
     (FLIGHT_STATE_ARMED,     FLIGHT_STATE_FLYING,    FSM_EVT_LIFTOFF),
     (FLIGHT_STATE_FLYING,    FLIGHT_STATE_LANDING,   FSM_EVT_LAND_DETECT),
     (FLIGHT_STATE_LANDING,   FLIGHT_STATE_PREFLIGHT, FSM_EVT_DISARM_CMD),
     (FLIGHT_STATE_PREFLIGHT, FLIGHT_STATE_FAULT,     FSM_EVT_FAULT_DETECTED),
     (FLIGHT_STATE_ARMED,     FLIGHT_STATE_FAULT,     FSM_EVT_FAULT_DETECTED),
     (FLIGHT_STATE_FLYING,    FLIGHT_STATE_FAULT,     FSM_EVT_FAULT_DETECTED),
     (FLIGHT_STATE_LANDING,   FLIGHT_STATE_FAULT,     FSM_EVT_FAULT_DETECTED),
     (FLIGHT_STATE_FAULT,     FLIGHT_STATE_PREFLIGHT, FSM_EVT_FAULT_CLEARED)]"

definition transition_legal :: "flight_state \<Rightarrow> flight_state \<Rightarrow> fsm_event \<Rightarrow> bool" where
  "transition_legal from to event \<longleftrightarrow>
     list_ex (\<lambda>(f, t, e). f = from \<and> t = to \<and> e = event) TRANSITIONS"

section \<open>Doing a transition\<close>

definition transition_message :: "flight_state \<Rightarrow> flight_state \<Rightarrow> byte list" where
  "transition_message from to =
     c_snprintf BLACKBOX_MSG_LEN
       (c_str (FLIGHT_STATE_NAMES ! flight_state_code from) @ c_str ''->''
        @ c_str (FLIGHT_STATE_NAMES ! flight_state_code to))"

definition accel_magnitude :: "sensor_data \<Rightarrow> f32" where
  "accel_magnitude s =
     f32_sqrt (f32_add (f32_add (f32_mul (accel_x s) (accel_x s)) (f32_mul (accel_y s) (accel_y s)))
                       (f32_mul (accel_z s) (accel_z s)))"

text \<open>\<open>sensors\<close> is \<open>None\<close> for a null pointer; \<open>tick\<close> is the tick count at the log call.\<close>

definition do_transition ::
    "fsm_ctx \<Rightarrow> flight_state \<Rightarrow> fsm_event \<Rightarrow> u32 \<Rightarrow> sensor_data option \<Rightarrow> u32 \<Rightarrow> blackbox
     \<Rightarrow> fsm_ctx \<times> blackbox" where
  "do_transition ctx new_state event now_ms sensors tick bb =
     (let ctx = ctx\<lparr>previous_state := current_state ctx\<rparr>;
          ctx = ctx\<lparr>current_state := new_state\<rparr>;
          ctx = ctx\<lparr>last_event := fsm_event_code event\<rparr>;
          ctx = ctx\<lparr>state_entry_ms := now_ms\<rparr>;
          ctx = ctx\<lparr>transition_count := transition_count ctx + 1\<rparr>;
          msg = transition_message (previous_state ctx) (current_state ctx);
          (accel_mag, voltage, altitude) =
            (case sensors of None \<Rightarrow> (0, 0, 0)
             | Some s \<Rightarrow> (accel_magnitude s, battery_voltage_v s, altitude_m s))
      in (ctx, blackbox_log
            \<lparr>arg_tick = tick, arg_type = BB_EVT_STATE_CHANGE, arg_state = new_state,
             arg_fault_flags = ucast (ctx_fault_flags ctx),
             arg_sensor_status = (case sensors of None \<Rightarrow> 0 | Some s \<Rightarrow> sensor_status s),
             arg_voltage = voltage, arg_altitude = altitude, arg_accel_mag = accel_mag,
             arg_msg = Some msg\<rparr> bb))"

section \<open>Guards\<close>

definition guard_init_to_preflight :: "sensor_data \<Rightarrow> u32 \<Rightarrow> bool" where
  "guard_init_to_preflight s faults \<longleftrightarrow>
     sensor_status s AND FSM_PREFLIGHT_SENSOR_MASK = FSM_PREFLIGHT_SENSOR_MASK"

text \<open>No code calls this guard.\<close>

definition guard_preflight_to_armed :: "sensor_data \<Rightarrow> u32 \<Rightarrow> bool" where
  "guard_preflight_to_armed s faults \<longleftrightarrow>
     (if faults \<noteq> 0 then False
      else if f32_lt (battery_voltage_v s) FSM_PREFLIGHT_BATT_MIN_V then False
      else if gps_satellites s < FSM_PREFLIGHT_GPS_MIN_SATS then False
      else if gps_fix_quality s = 0 then False
      else True)"

definition guard_armed_to_flying :: "sensor_data \<Rightarrow> u32 \<Rightarrow> bool" where
  "guard_armed_to_flying s faults \<longleftrightarrow>
     f32_lt (f32_mul (f32_lit 981 100) FSM_ARMED_ACCEL_THRESH_G) (accel_z s)"

definition guard_flying_to_landing :: "sensor_data \<Rightarrow> u32 \<Rightarrow> bool" where
  "guard_flying_to_landing s faults \<longleftrightarrow>
     f32_lt (altitude_m s) FSM_LANDING_ALT_THRESH_M \<and>
     f32_lt (ground_speed_mps s) FSM_LANDING_SPEED_THRESH"

definition guard_any_to_fault :: "u32 \<Rightarrow> bool" where
  "guard_any_to_fault faults \<longleftrightarrow> faults \<noteq> 0"

section \<open>Operations\<close>

text \<open>\<open>memset\<close> to zero: state 0 is \<open>FLIGHT_STATE_INIT\<close>.\<close>

definition fsm_init :: "fsm_ctx \<Rightarrow> fsm_ctx" where
  "fsm_init ctx =
     \<lparr>current_state = FLIGHT_STATE_INIT, previous_state = FLIGHT_STATE_INIT, last_event = 0,
      state_entry_ms = 0, ctx_fault_flags = 0, transition_count = 0\<rparr>"

definition fsm_tick ::
    "fsm_ctx \<Rightarrow> sensor_data \<Rightarrow> u32 \<Rightarrow> u32 \<Rightarrow> u32 \<Rightarrow> blackbox \<Rightarrow> fsm_ctx \<times> blackbox \<times> bool" where
  "fsm_tick ctx sensors fault_flags now_ms tick bb =
     (let ctx = ctx\<lparr>ctx_fault_flags := fault_flags\<rparr>;
          cur = current_state ctx;
          go = (\<lambda>new_state event.
            let (ctx1, bb1) = do_transition ctx new_state event now_ms (Some sensors) tick bb
            in (ctx1, bb1, True))
      in if cur \<noteq> FLIGHT_STATE_INIT \<and> cur \<noteq> FLIGHT_STATE_FAULT \<and> guard_any_to_fault fault_flags
         then go FLIGHT_STATE_FAULT FSM_EVT_FAULT_DETECTED
         else case cur of
           FLIGHT_STATE_INIT \<Rightarrow>
             if guard_init_to_preflight sensors fault_flags
             then go FLIGHT_STATE_PREFLIGHT FSM_EVT_SENSOR_OK else (ctx, bb, False)
         | FLIGHT_STATE_PREFLIGHT \<Rightarrow> (ctx, bb, False)
         | FLIGHT_STATE_ARMED \<Rightarrow>
             if guard_armed_to_flying sensors fault_flags
             then go FLIGHT_STATE_FLYING FSM_EVT_LIFTOFF else (ctx, bb, False)
         | FLIGHT_STATE_FLYING \<Rightarrow>
             if guard_flying_to_landing sensors fault_flags
             then go FLIGHT_STATE_LANDING FSM_EVT_LAND_DETECT else (ctx, bb, False)
         | FLIGHT_STATE_LANDING \<Rightarrow> (ctx, bb, False)
         | FLIGHT_STATE_FAULT \<Rightarrow>
             if fault_flags = 0
             then go FLIGHT_STATE_PREFLIGHT FSM_EVT_FAULT_CLEARED else (ctx, bb, False)
         | FLIGHT_STATE_COUNT \<Rightarrow> (ctx, bb, False))"

definition fsm_command ::
    "fsm_ctx \<Rightarrow> fsm_event \<Rightarrow> u32 \<Rightarrow> u32 \<Rightarrow> blackbox \<Rightarrow> fsm_ctx \<times> blackbox \<times> bool" where
  "fsm_command ctx event now_ms tick bb =
     (let go = (\<lambda>target.
            if \<not> transition_legal (current_state ctx) target event then (ctx, bb, False)
            else let (ctx1, bb1) = do_transition ctx target event now_ms None tick bb
                 in (ctx1, bb1, True))
      in case event of
           FSM_EVT_ARMED_CMD \<Rightarrow> go FLIGHT_STATE_ARMED
         | FSM_EVT_DISARM_CMD \<Rightarrow> go FLIGHT_STATE_PREFLIGHT
         | _ \<Rightarrow> (ctx, bb, False))"

definition fsm_state :: "fsm_ctx \<Rightarrow> flight_state" where
  "fsm_state ctx = current_state ctx"

section \<open>The table\<close>

lemma transition_legal_iff:
  "transition_legal s t e \<longleftrightarrow>
     (case e of
        FSM_EVT_SENSOR_OK \<Rightarrow> s = FLIGHT_STATE_INIT \<and> t = FLIGHT_STATE_PREFLIGHT
      | FSM_EVT_GPS_ACQUIRED \<Rightarrow> False
      | FSM_EVT_ARMED_CMD \<Rightarrow> s = FLIGHT_STATE_PREFLIGHT \<and> t = FLIGHT_STATE_ARMED
      | FSM_EVT_LIFTOFF \<Rightarrow> s = FLIGHT_STATE_ARMED \<and> t = FLIGHT_STATE_FLYING
      | FSM_EVT_LAND_DETECT \<Rightarrow> s = FLIGHT_STATE_FLYING \<and> t = FLIGHT_STATE_LANDING
      | FSM_EVT_FAULT_DETECTED \<Rightarrow> t = FLIGHT_STATE_FAULT \<and>
          s \<in> {FLIGHT_STATE_PREFLIGHT, FLIGHT_STATE_ARMED, FLIGHT_STATE_FLYING, FLIGHT_STATE_LANDING}
      | FSM_EVT_FAULT_CLEARED \<Rightarrow> s = FLIGHT_STATE_FAULT \<and> t = FLIGHT_STATE_PREFLIGHT
      | FSM_EVT_DISARM_CMD \<Rightarrow> t = FLIGHT_STATE_PREFLIGHT \<and>
          s \<in> {FLIGHT_STATE_ARMED, FLIGHT_STATE_LANDING})"
  by (cases e) (auto simp: transition_legal_def TRANSITIONS_def)

lemma transition_legal_proper: "transition_legal s t e \<Longrightarrow> proper_state s \<and> proper_state t"
  by (cases e) (auto simp: transition_legal_iff)

lemma transition_legal_set: "transition_legal s t e \<longleftrightarrow> (s, t, e) \<in> set TRANSITIONS"
  by (auto simp: transition_legal_def list_ex_iff)

text \<open>The longest text is shorter than the message buffer, so nothing is cut.\<close>

lemma transition_message_fits:
  assumes "proper_state s" "proper_state t"
  shows "transition_message s t = c_str (FLIGHT_STATE_NAMES ! flight_state_code s) @ c_str ''->''
        @ c_str (FLIGHT_STATE_NAMES ! flight_state_code t)"
    "length (transition_message s t) < BLACKBOX_MSG_LEN - 1"
  using assms
  by (cases s; cases t; simp add: transition_message_def FLIGHT_STATE_NAMES_def c_str_def
      c_snprintf_def BLACKBOX_MSG_LEN_def)+

section \<open>One transition\<close>

lemma fsm_event_code_inject: "fsm_event_code e = fsm_event_code e' \<longleftrightarrow> e = e'"
  by (cases e; cases e'; simp)

lemma fsm_event_code_nonzero [simp]: "fsm_event_code e \<noteq> 0" "0 \<noteq> fsm_event_code e"
  by (cases e; simp)+

definition moved_ctx :: "fsm_ctx \<Rightarrow> flight_state \<Rightarrow> fsm_event \<Rightarrow> u32 \<Rightarrow> fsm_ctx" where
  "moved_ctx ctx t e now_ms =
     \<lparr>current_state = t, previous_state = current_state ctx, last_event = fsm_event_code e,
      state_entry_ms = now_ms, ctx_fault_flags = ctx_fault_flags ctx,
      transition_count = transition_count ctx + 1\<rparr>"

definition moved_args :: "fsm_ctx \<Rightarrow> flight_state \<Rightarrow> sensor_data option \<Rightarrow> u32 \<Rightarrow> bb_args" where
  "moved_args ctx t sensors tick =
     \<lparr>arg_tick = tick, arg_type = BB_EVT_STATE_CHANGE, arg_state = t,
      arg_fault_flags = ucast (ctx_fault_flags ctx),
      arg_sensor_status = (case sensors of None \<Rightarrow> 0 | Some s \<Rightarrow> sensor_status s),
      arg_voltage = (case sensors of None \<Rightarrow> 0 | Some s \<Rightarrow> battery_voltage_v s),
      arg_altitude = (case sensors of None \<Rightarrow> 0 | Some s \<Rightarrow> altitude_m s),
      arg_accel_mag = (case sensors of None \<Rightarrow> 0 | Some s \<Rightarrow> accel_magnitude s),
      arg_msg = Some (transition_message (current_state ctx) t)\<rparr>"

lemma do_transition_eq:
  "do_transition ctx t e now_ms sensors tick bb =
     (moved_ctx ctx t e now_ms, blackbox_log (moved_args ctx t sensors tick) bb)"
  by (cases sensors) (simp_all add: do_transition_def moved_ctx_def moved_args_def Let_def)

lemma moved_args_simps [simp]:
  "arg_type (moved_args ctx t sensors tick) = BB_EVT_STATE_CHANGE"
  "arg_state (moved_args ctx t sensors tick) = t"
  by (simp_all add: moved_args_def)

section \<open>The two operations against the table\<close>

text \<open>
  \<open>fsm_tick\<close> never consults \<open>TRANSITIONS\<close>; its switch is meant to agree with it.
  \<open>sensed e s f\<close> says that sensors \<open>s\<close> and fault flags \<open>f\<close> raise event \<open>e\<close>.
\<close>

fun sensed :: "fsm_event \<Rightarrow> sensor_data \<Rightarrow> u32 \<Rightarrow> bool" where
  "sensed FSM_EVT_SENSOR_OK s f \<longleftrightarrow> guard_init_to_preflight s f"
| "sensed FSM_EVT_LIFTOFF s f \<longleftrightarrow> f = 0 \<and> guard_armed_to_flying s f"
| "sensed FSM_EVT_LAND_DETECT s f \<longleftrightarrow> f = 0 \<and> guard_flying_to_landing s f"
| "sensed FSM_EVT_FAULT_DETECTED s f \<longleftrightarrow> f \<noteq> 0"
| "sensed FSM_EVT_FAULT_CLEARED s f \<longleftrightarrow> f = 0"
| "sensed _ s f \<longleftrightarrow> False"

lemma fsm_tick_moves:
  assumes "transition_legal (current_state ctx) t e" "sensed e s f"
  shows "fsm_tick ctx s f now tick bb =
     (moved_ctx (ctx\<lparr>ctx_fault_flags := f\<rparr>) t e now,
      blackbox_log (moved_args (ctx\<lparr>ctx_fault_flags := f\<rparr>) t (Some s) tick) bb, True)"
  using assms
  by (cases e)
    (auto simp: transition_legal_iff fsm_tick_def do_transition_eq guard_any_to_fault_def Let_def)

lemma fsm_tick_stays:
  assumes "proper_state (current_state ctx)"
    and legal: "\<And>t e. transition_legal (current_state ctx) t e \<Longrightarrow> \<not> sensed e s f"
  shows "fsm_tick ctx s f now tick bb = (ctx\<lparr>ctx_fault_flags := f\<rparr>, bb, False)"
  using assms(1) legal [of FLIGHT_STATE_PREFLIGHT FSM_EVT_SENSOR_OK]
    legal [of FLIGHT_STATE_FLYING FSM_EVT_LIFTOFF]
    legal [of FLIGHT_STATE_LANDING FSM_EVT_LAND_DETECT]
    legal [of FLIGHT_STATE_FAULT FSM_EVT_FAULT_DETECTED]
    legal [of FLIGHT_STATE_PREFLIGHT FSM_EVT_FAULT_CLEARED]
  by (cases "current_state ctx")
    (simp_all add: transition_legal_iff fsm_tick_def guard_any_to_fault_def)

lemma fsm_tick_cases:
  assumes "proper_state (current_state ctx)"
  obtains t e where "transition_legal (current_state ctx) t e" "sensed e s f"
    "fsm_tick ctx s f now tick bb =
       (moved_ctx (ctx\<lparr>ctx_fault_flags := f\<rparr>) t e now,
        blackbox_log (moved_args (ctx\<lparr>ctx_fault_flags := f\<rparr>) t (Some s) tick) bb, True)"
  | "\<forall>t e. transition_legal (current_state ctx) t e \<longrightarrow> \<not> sensed e s f"
    "fsm_tick ctx s f now tick bb = (ctx\<lparr>ctx_fault_flags := f\<rparr>, bb, False)"
proof (cases "\<exists>t e. transition_legal (current_state ctx) t e \<and> sensed e s f")
  case True
  then show ?thesis using fsm_tick_moves that(1) by blast
next
  case False
  then show ?thesis using that(2) fsm_tick_stays [OF assms, of s f] by blast
qed

lemma fsm_tick_stores_flags:
  "ctx_fault_flags (fst (fsm_tick ctx s f now tick bb)) = f"
  by (cases "current_state ctx") (simp_all add: fsm_tick_def do_transition_eq moved_ctx_def Let_def)

definition requested :: "fsm_event \<Rightarrow> bool" where
  "requested e \<longleftrightarrow> e \<in> {FSM_EVT_ARMED_CMD, FSM_EVT_DISARM_CMD}"

lemma fsm_command_moves:
  "transition_legal (current_state ctx) t e \<Longrightarrow> requested e \<Longrightarrow>
   fsm_command ctx e now tick bb =
     (moved_ctx ctx t e now, blackbox_log (moved_args ctx t None tick) bb, True)"
  by (cases e) (auto simp: requested_def fsm_command_def do_transition_eq transition_legal_iff)

lemma fsm_command_stays:
  "(\<And>t. requested e \<Longrightarrow> \<not> transition_legal (current_state ctx) t e) \<Longrightarrow>
   fsm_command ctx e now tick bb = (ctx, bb, False)"
  by (cases e) (auto simp: requested_def fsm_command_def)

lemma fsm_command_cases:
  obtains t where "transition_legal (current_state ctx) t e" "requested e"
    "fsm_command ctx e now tick bb =
       (moved_ctx ctx t e now, blackbox_log (moved_args ctx t None tick) bb, True)"
  | "\<forall>t. requested e \<longrightarrow> \<not> transition_legal (current_state ctx) t e"
    "fsm_command ctx e now tick bb = (ctx, bb, False)"
proof (cases "\<exists>t. transition_legal (current_state ctx) t e \<and> requested e")
  case True
  then show ?thesis using fsm_command_moves that(1) by blast
next
  case False
  then show ?thesis using that(2) fsm_command_stays [of e ctx] by blast
qed

section \<open>What both operations share\<close>

lemma transition_legal_irrefl [simp]: "\<not> transition_legal s s e"
  by (cases e) (auto simp: transition_legal_iff)

lemma ucast_u16_Suc: "ucast (n + 1 :: u32) = (ucast n + 1 :: u16)"
  by (rule word_uint_eq_iff [THEN iffD2])
    (simp add: unsigned_ucast_eq uint_word_ariths take_bit_eq_mod mod_mod_cancel mod_simps)

text \<open>A context with a past: it is the initial one, or its two states and its event are a row
  of the table.\<close>

definition fsm_inv :: "fsm_ctx \<Rightarrow> bool" where
  "fsm_inv ctx \<longleftrightarrow>
     (last_event ctx = 0 \<and> current_state ctx = FLIGHT_STATE_INIT \<and>
      previous_state ctx = FLIGHT_STATE_INIT) \<or>
     (\<exists>e. last_event ctx = fsm_event_code e \<and>
          transition_legal (previous_state ctx) (current_state ctx) e)"

lemma fsm_inv_init [simp]: "fsm_inv (fsm_init ctx)"
  by (simp add: fsm_inv_def fsm_init_def)

lemma fsm_inv_proper: "fsm_inv ctx \<Longrightarrow> proper_state (current_state ctx) \<and> proper_state (previous_state ctx)"
  using transition_legal_proper by (auto simp: fsm_inv_def)

lemma fsm_inv_flags [simp]: "fsm_inv (ctx\<lparr>ctx_fault_flags := f\<rparr>) = fsm_inv ctx"
  by (simp add: fsm_inv_def)

lemma fsm_inv_moved: "transition_legal (current_state ctx) t e \<Longrightarrow> fsm_inv (moved_ctx ctx t e now)"
  by (auto simp: fsm_inv_def moved_ctx_def)

text \<open>The contract of an operation on the machine: it moves along one row of the table, for an
  event it may raise, and logs the move, or it moves nothing and logs nothing.\<close>

locale fsm_operation =
  fixes run :: "fsm_ctx \<Rightarrow> blackbox \<Rightarrow> fsm_ctx \<times> blackbox \<times> bool"
    and raises :: "fsm_event \<Rightarrow> bool"
  assumes moves: "proper_state (current_state ctx) \<Longrightarrow> run ctx bb = (ctx', bb', True) \<Longrightarrow>
      \<exists>t e f now a. raises e \<and> transition_legal (current_state ctx) t e \<and>
        ctx' = moved_ctx (ctx\<lparr>ctx_fault_flags := f\<rparr>) t e now \<and>
        bb' = blackbox_log a bb \<and> arg_type a = BB_EVT_STATE_CHANGE \<and> arg_state a = t"
    and stays: "proper_state (current_state ctx) \<Longrightarrow> run ctx bb = (ctx', bb', False) \<Longrightarrow>
      (\<exists>f. ctx' = ctx\<lparr>ctx_fault_flags := f\<rparr>) \<and> bb' = bb"
begin

lemma run_cases:
  assumes "fsm_inv ctx" "run ctx bb = (ctx', bb', m)"
  obtains t e f now a where "raises e" "transition_legal (current_state ctx) t e" "m"
    "ctx' = moved_ctx (ctx\<lparr>ctx_fault_flags := f\<rparr>) t e now"
    "bb' = blackbox_log a bb" "arg_type a = BB_EVT_STATE_CHANGE" "arg_state a = t"
  | f where "\<not> m" "ctx' = ctx\<lparr>ctx_fault_flags := f\<rparr>" "bb' = bb"
proof (cases m)
  case True
  then have "run ctx bb = (ctx', bb', True)" using assms(2) by simp
  then show ?thesis
    using moves [of ctx bb ctx' bb'] fsm_inv_proper [OF assms(1)] True that(1) by blast
next
  case False
  then have "run ctx bb = (ctx', bb', False)" using assms(2) by simp
  then show ?thesis
    using stays [of ctx bb ctx' bb'] fsm_inv_proper [OF assms(1)] False that(2) by blast
qed

lemma keeps_inv: "fsm_inv ctx \<Longrightarrow> run ctx bb = (ctx', bb', m) \<Longrightarrow> fsm_inv ctx'"
  by (rule run_cases [of ctx bb ctx' bb' m]) (simp_all add: fsm_inv_moved)

lemma keeps_bb_inv: "fsm_inv ctx \<Longrightarrow> run ctx bb = (ctx', bb', m) \<Longrightarrow> bb_inv bb \<Longrightarrow> bb_inv bb'"
  by (erule (1) run_cases) (auto intro: bb_inv_log)

lemma changes_along_table:
  "fsm_inv ctx \<Longrightarrow> run ctx bb = (ctx', bb', m) \<Longrightarrow> current_state ctx' \<noteq> current_state ctx \<Longrightarrow>
   \<exists>e. raises e \<and> transition_legal (current_state ctx) (current_state ctx') e"
  by (erule (1) run_cases) (auto simp: moved_ctx_def)

lemma reports_change:
  "fsm_inv ctx \<Longrightarrow> run ctx bb = (ctx', bb', m) \<Longrightarrow> m \<longleftrightarrow> current_state ctx' \<noteq> current_state ctx"
  by (erule (1) run_cases) (auto simp: moved_ctx_def transition_legal_irrefl)

lemma one_record_per_move:
  "fsm_inv ctx \<Longrightarrow> run ctx bb = (ctx', bb', m) \<Longrightarrow>
   sequence bb' - ucast (transition_count ctx') = sequence bb - ucast (transition_count ctx)"
  by (erule (1) run_cases) (simp_all add: moved_ctx_def ucast_u16_Suc)

end

interpretation tick: fsm_operation
  "\<lambda>ctx bb. fsm_tick ctx s f now tk bb" "\<lambda>e. sensed e s f" for s f now tk
proof (unfold_locales, goal_cases)
  case (1 ctx bb ctx' bb')
  show ?case
  proof (rule fsm_tick_cases [OF 1(1), of s f now tk bb])
    fix t e
    assume "transition_legal (current_state ctx) t e" "sensed e s f"
      "fsm_tick ctx s f now tk bb = (moved_ctx (ctx\<lparr>ctx_fault_flags := f\<rparr>) t e now,
        blackbox_log (moved_args (ctx\<lparr>ctx_fault_flags := f\<rparr>) t (Some s) tk) bb, True)"
    with 1(2) show ?thesis
      by (intro exI [of _ e] exI [of _ t] exI [of _ f] exI [of _ now]
          exI [of _ "moved_args (ctx\<lparr>ctx_fault_flags := f\<rparr>) t (Some s) tk"]) simp
  qed (use 1(2) in simp)
next
  case (2 ctx bb ctx' bb')
  show ?case
    by (rule fsm_tick_cases [OF 2(1), of s f now tk bb]) (use 2(2) in auto)
qed

interpretation command: fsm_operation
  "\<lambda>ctx bb. fsm_command ctx ev now tk bb" "\<lambda>e. e = ev \<and> requested ev" for ev now tk
proof (unfold_locales, goal_cases)
  case (1 ctx bb ctx' bb')
  show ?case
  proof (rule fsm_command_cases [of ctx ev now tk bb])
    fix t
    assume "transition_legal (current_state ctx) t ev" "requested ev"
      "fsm_command ctx ev now tk bb =
        (moved_ctx ctx t ev now, blackbox_log (moved_args ctx t None tk) bb, True)"
    with 1(2) show ?thesis
      by (intro exI [of _ ev] exI [of _ t] exI [of _ "ctx_fault_flags ctx"] exI [of _ now]
          exI [of _ "moved_args ctx t None tk"]) simp
  qed (use 1(2) in simp)
next
  case (2 ctx bb ctx' bb')
  show ?case
    by (rule fsm_command_cases [of ctx ev now tk bb])
      (use 2(2) in \<open>auto intro!: exI [of _ "ctx_fault_flags ctx"]\<close>)
qed

section \<open>Reachability\<close>

inductive fsm_step :: "fsm_ctx \<times> blackbox \<Rightarrow> fsm_ctx \<times> blackbox \<Rightarrow> bool" where
  tick: "fsm_tick ctx s f now tk bb = (ctx', bb', m) \<Longrightarrow> fsm_step (ctx, bb) (ctx', bb')"
| command: "fsm_command ctx e now tk bb = (ctx', bb', m) \<Longrightarrow> fsm_step (ctx, bb) (ctx', bb')"

inductive_cases fsm_stepE: "fsm_step (ctx, bb) (ctx', bb')"

inductive fsm_run :: "fsm_ctx \<times> blackbox \<Rightarrow> bool" where
  start: "fsm_run (fsm_init ctx, blackbox_init bb)"
| step: "fsm_run x \<Longrightarrow> fsm_step x y \<Longrightarrow> fsm_run y"

lemma fsm_step_keeps:
  assumes "fsm_step (ctx, bb) (ctx', bb')" "fsm_inv ctx"
  shows "fsm_inv ctx'" "bb_inv bb \<Longrightarrow> bb_inv bb'"
    "sequence bb' - ucast (transition_count ctx') = sequence bb - ucast (transition_count ctx)"
proof -
  show "fsm_inv ctx'"
    by (rule fsm_stepE [OF assms(1)])
      (rule tick.keeps_inv command.keeps_inv, rule assms, assumption)+
  show "bb_inv bb'" if "bb_inv bb"
    by (rule fsm_stepE [OF assms(1)])
      (rule tick.keeps_bb_inv command.keeps_bb_inv, rule assms, assumption, rule that)+
  show "sequence bb' - ucast (transition_count ctx') = sequence bb - ucast (transition_count ctx)"
    by (rule fsm_stepE [OF assms(1)])
      (rule tick.one_record_per_move command.one_record_per_move, rule assms, assumption)+
qed

lemma fsm_run_inv:
  assumes "fsm_run x"
  shows "fsm_inv (fst x) \<and> bb_inv (snd x) \<and> sequence (snd x) = ucast (transition_count (fst x))"
  using assms
proof induction
  case (start ctx bb)
  have "sequence (blackbox_init bb) = ucast (transition_count (fsm_init ctx))"
    by (simp add: fsm_init_def blackbox_init_def)
  then show ?case by simp
next
  case (step x y)
  then show ?case
    using fsm_step_keeps [of "fst x" "snd x" "fst y" "snd y"] by simp
qed

section \<open>Properties\<close>

text \<open>A context and a sample to instantiate the statements with.\<close>

definition ctx_in :: "flight_state \<Rightarrow> fsm_ctx" where
  "ctx_in s = \<lparr>current_state = s, previous_state = FLIGHT_STATE_INIT, last_event = 1,
     state_entry_ms = 0, ctx_fault_flags = 0, transition_count = 1\<rparr>"

definition level_sample :: sensor_data where
  "level_sample = sensor_data_zero\<lparr>accel_z := f32_lit 981 100, sensor_status := SENSOR_FLAG_ALL_OK\<rparr>"

text \<open>C6: The hand-written switch of \<open>fsm_tick\<close> agrees with the transition table it never consults:
  a tick moves exactly when a row of the table starts in the current state with an event that the
  sensors and the fault flags raise; it then makes that row's move, and leaves one state-change
  record; otherwise it only stores the fault flags.\<close>

theorem fsm_tick_follows_table:
  assumes "proper_state (current_state ctx)"
    and "fsm_tick ctx s f now tick bb = (ctx', bb', moved)"
  shows "(moved \<longleftrightarrow> (\<exists>t e. transition_legal (current_state ctx) t e \<and> sensed e s f)) \<and>
    (\<forall>t e. transition_legal (current_state ctx) t e \<longrightarrow> sensed e s f \<longrightarrow>
       ctx' = moved_ctx (ctx\<lparr>ctx_fault_flags := f\<rparr>) t e now \<and>
       bb' = blackbox_log (moved_args (ctx\<lparr>ctx_fault_flags := f\<rparr>) t (Some s) tick) bb) \<and>
    (\<not> moved \<longrightarrow> ctx' = ctx\<lparr>ctx_fault_flags := f\<rparr> \<and> bb' = bb)"
proof -
  have all: "ctx' = moved_ctx (ctx\<lparr>ctx_fault_flags := f\<rparr>) t e now \<and>
       bb' = blackbox_log (moved_args (ctx\<lparr>ctx_fault_flags := f\<rparr>) t (Some s) tick) bb \<and> moved"
    if "transition_legal (current_state ctx) t e" "sensed e s f" for t e
    using fsm_tick_moves [OF that, where now = now and tick = tick and bb = bb] assms(2) by simp
  have none: "\<not> moved \<and> ctx' = ctx\<lparr>ctx_fault_flags := f\<rparr> \<and> bb' = bb"
    if "\<And>t e. transition_legal (current_state ctx) t e \<Longrightarrow> \<not> sensed e s f"
    using fsm_tick_stays [OF assms(1) that, where now = now and tick = tick and bb = bb] assms(2) by simp
  show ?thesis
  proof (cases "\<exists>t e. transition_legal (current_state ctx) t e \<and> sensed e s f")
    case True
    then have "moved" using all by blast
    with True all show ?thesis by blast
  next
    case False
    with none show ?thesis by blast
  qed
qed

theorem fsm_tick_follows_table_witness:
  "fsm_tick (ctx_in FLIGHT_STATE_INIT) level_sample 0 20 21 example_blackbox =
     (moved_ctx (ctx_in FLIGHT_STATE_INIT) FLIGHT_STATE_PREFLIGHT FSM_EVT_SENSOR_OK 20,
      blackbox_log (moved_args (ctx_in FLIGHT_STATE_INIT) FLIGHT_STATE_PREFLIGHT
        (Some level_sample) 21) example_blackbox, True)"
proof -
  obtain c b m where e: "fsm_tick (ctx_in FLIGHT_STATE_INIT) level_sample 0 20 21 example_blackbox = (c, b, m)"
    by (cases "fsm_tick (ctx_in FLIGHT_STATE_INIT) level_sample 0 20 21 example_blackbox" rule: prod_cases3)
  have l: "transition_legal (current_state (ctx_in FLIGHT_STATE_INIT)) FLIGHT_STATE_PREFLIGHT FSM_EVT_SENSOR_OK"
    by (simp add: transition_legal_iff ctx_in_def)
  have s: "sensed FSM_EVT_SENSOR_OK level_sample 0"
    by (simp add: guard_init_to_preflight_def FSM_PREFLIGHT_SENSOR_MASK_def level_sample_def)
  have p: "proper_state (current_state (ctx_in FLIGHT_STATE_INIT))" by (simp add: ctx_in_def)
  have f: "(ctx_in FLIGHT_STATE_INIT)\<lparr>ctx_fault_flags := 0\<rparr> = ctx_in FLIGHT_STATE_INIT"
    by (simp add: ctx_in_def)
  have "m" using fsm_tick_follows_table [OF p e] l s by blast
  moreover note fsm_tick_follows_table [OF p e, THEN conjunct2, THEN conjunct1, rule_format, OF l s]
  ultimately show ?thesis using e by (simp add: f)
qed

text \<open>C18: Faults come first: from every flying or ground state a tick with a fault goes to FAULT,
  whatever the sensors say; FAULT is left exactly when the fault word is zero, and only to
  PREFLIGHT; INIT is left only to PREFLIGHT, even with a fault.\<close>

theorem fsm_tick_fault_priority:
  assumes "proper_state (current_state ctx)"
  shows "current_state (fst (fsm_tick ctx s f now tick bb)) =
    (if current_state ctx = FLIGHT_STATE_INIT
     then (if sensor_status s AND SENSOR_FLAG_ALL_OK = SENSOR_FLAG_ALL_OK
           then FLIGHT_STATE_PREFLIGHT else FLIGHT_STATE_INIT)
     else if f \<noteq> 0 then FLIGHT_STATE_FAULT
     else if current_state ctx = FLIGHT_STATE_FAULT then FLIGHT_STATE_PREFLIGHT
     else if current_state ctx = FLIGHT_STATE_ARMED \<and> guard_armed_to_flying s f
          then FLIGHT_STATE_FLYING
     else if current_state ctx = FLIGHT_STATE_FLYING \<and> guard_flying_to_landing s f
          then FLIGHT_STATE_LANDING
     else current_state ctx)"
proof (rule fsm_tick_cases [OF assms, of s f now tick bb])
  fix t e
  assume "transition_legal (current_state ctx) t e" "sensed e s f"
    "fsm_tick ctx s f now tick bb = (moved_ctx (ctx\<lparr>ctx_fault_flags := f\<rparr>) t e now,
      blackbox_log (moved_args (ctx\<lparr>ctx_fault_flags := f\<rparr>) t (Some s) tick) bb, True)"
  then show ?thesis
    by (cases e) (auto simp: transition_legal_iff moved_ctx_def guard_init_to_preflight_def
        FSM_PREFLIGHT_SENSOR_MASK_def)
next
  assume none: "\<forall>t e. transition_legal (current_state ctx) t e \<longrightarrow> \<not> sensed e s f"
    and eq: "fsm_tick ctx s f now tick bb = (ctx\<lparr>ctx_fault_flags := f\<rparr>, bb, False)"
  have no: "\<not> sensed e s f" if "transition_legal (current_state ctx) t e" for t e
    using none that by blast
  have same: "current_state (fst (fsm_tick ctx s f now tick bb)) = current_state ctx"
    by (simp add: eq)
  show ?thesis
    unfolding same
    using assms no [of FLIGHT_STATE_PREFLIGHT FSM_EVT_SENSOR_OK]
      no [of FLIGHT_STATE_FLYING FSM_EVT_LIFTOFF] no [of FLIGHT_STATE_LANDING FSM_EVT_LAND_DETECT]
      no [of FLIGHT_STATE_FAULT FSM_EVT_FAULT_DETECTED]
      no [of FLIGHT_STATE_PREFLIGHT FSM_EVT_FAULT_CLEARED]
    by (cases "current_state ctx") (simp_all add: transition_legal_iff
        guard_init_to_preflight_def FSM_PREFLIGHT_SENSOR_MASK_def)
qed

theorem fsm_tick_fault_priority_witness:
  "current_state (fst (fsm_tick (ctx_in FLIGHT_STATE_FLYING) level_sample 4 20 21 example_blackbox))
     = FLIGHT_STATE_FAULT"
  using fsm_tick_fault_priority [of "ctx_in FLIGHT_STATE_FLYING" level_sample 4 20 21 example_blackbox]
  by (simp add: ctx_in_def)

text \<open>A command is obeyed exactly when the table has a row for it from the current state: arming
  from PREFLIGHT only, disarming from ARMED and LANDING only; any other command or state leaves
  the context and the recorder alone and returns false.\<close>

lemma fsm_command_obeyed_iff:
  assumes "fsm_command ctx e now tick bb = (ctx', bb', accepted)"
  shows "(accepted \<longleftrightarrow>
      e = FSM_EVT_ARMED_CMD \<and> current_state ctx = FLIGHT_STATE_PREFLIGHT \<or>
      e = FSM_EVT_DISARM_CMD \<and> current_state ctx \<in> {FLIGHT_STATE_ARMED, FLIGHT_STATE_LANDING}) \<and>
    (if accepted
     then ctx' = moved_ctx ctx (if e = FSM_EVT_ARMED_CMD then FLIGHT_STATE_ARMED
                                else FLIGHT_STATE_PREFLIGHT) e now \<and>
          bb' = blackbox_log (moved_args ctx (current_state ctx') None tick) bb
     else ctx' = ctx \<and> bb' = bb)"
proof (rule fsm_command_cases [of ctx e now tick bb])
  fix t
  assume "transition_legal (current_state ctx) t e" "requested e"
    "fsm_command ctx e now tick bb =
       (moved_ctx ctx t e now, blackbox_log (moved_args ctx t None tick) bb, True)"
  then show ?thesis
    using assms by (cases e) (auto simp: transition_legal_iff moved_ctx_def requested_def)
next
  assume "\<forall>t. requested e \<longrightarrow> \<not> transition_legal (current_state ctx) t e"
    "fsm_command ctx e now tick bb = (ctx, bb, False)"
  then show ?thesis
    using assms by (cases e) (auto simp: transition_legal_iff requested_def)
qed

lemma fsm_command_obeyed_iff_example:
  "fsm_command (ctx_in FLIGHT_STATE_FLYING) FSM_EVT_DISARM_CMD 30 31 example_blackbox =
     (ctx_in FLIGHT_STATE_FLYING, example_blackbox, False)"
proof -
  obtain c b m where
    e: "fsm_command (ctx_in FLIGHT_STATE_FLYING) FSM_EVT_DISARM_CMD 30 31 example_blackbox = (c, b, m)"
    by (cases "fsm_command (ctx_in FLIGHT_STATE_FLYING) FSM_EVT_DISARM_CMD 30 31 example_blackbox"
        rule: prod_cases3)
  show ?thesis using fsm_command_obeyed_iff [OF e] e by (auto simp: ctx_in_def split: if_splits)
qed

text \<open>C19: However ticks and commands interleave from power-up, the machine is either still in INIT with
  no transition made, or its last transition is a row of the table: \<open>previous_state\<close>,
  \<open>current_state\<close> and \<open>last_event\<close> are the row's two states and its event.  So FLYING was entered
  from ARMED by a liftoff, ARMED from PREFLIGHT by an arm command, LANDING from FLYING.  Both
  states have a name in the table of names, and the running number of the recorder is the number
  of transitions (modulo 65536).\<close>

theorem fsm_run_history:
  assumes "fsm_run (ctx, bb)"
  shows "((last_event ctx = 0 \<and> current_state ctx = FLIGHT_STATE_INIT \<and> previous_state ctx = FLIGHT_STATE_INIT) \<or>
      (\<exists>e. last_event ctx = fsm_event_code e \<and>
         (previous_state ctx, current_state ctx, e) \<in> set TRANSITIONS)) \<and>
    proper_state (current_state ctx) \<and> proper_state (previous_state ctx) \<and>
    sequence bb = ucast (transition_count ctx) \<and> bb_inv bb \<and>
    (current_state ctx = FLIGHT_STATE_FLYING \<longrightarrow>
       previous_state ctx = FLIGHT_STATE_ARMED \<and> last_event ctx = fsm_event_code FSM_EVT_LIFTOFF) \<and>
    (current_state ctx = FLIGHT_STATE_ARMED \<longrightarrow>
       previous_state ctx = FLIGHT_STATE_PREFLIGHT \<and> last_event ctx = fsm_event_code FSM_EVT_ARMED_CMD) \<and>
    (current_state ctx = FLIGHT_STATE_LANDING \<longrightarrow>
       previous_state ctx = FLIGHT_STATE_FLYING \<and> last_event ctx = fsm_event_code FSM_EVT_LAND_DETECT)"
proof -
  have inv: "fsm_inv ctx" "bb_inv bb" "sequence bb = ucast (transition_count ctx)"
    using fsm_run_inv [OF assms] by simp_all
  have rows: "(t = FLIGHT_STATE_FLYING \<longrightarrow> p = FLIGHT_STATE_ARMED \<and> e = FSM_EVT_LIFTOFF) \<and>
    (t = FLIGHT_STATE_ARMED \<longrightarrow> p = FLIGHT_STATE_PREFLIGHT \<and> e = FSM_EVT_ARMED_CMD) \<and>
    (t = FLIGHT_STATE_LANDING \<longrightarrow> p = FLIGHT_STATE_FLYING \<and> e = FSM_EVT_LAND_DETECT)"
    if "transition_legal p t e" for p t e
    using that by (cases e) (auto simp: transition_legal_iff)
  have last: "(last_event ctx = 0 \<and> current_state ctx = FLIGHT_STATE_INIT \<and> previous_state ctx = FLIGHT_STATE_INIT) \<or>
      (\<exists>e. last_event ctx = fsm_event_code e \<and> transition_legal (previous_state ctx) (current_state ctx) e)"
    using inv(1) by (simp add: fsm_inv_def)
  with rows have "(current_state ctx = FLIGHT_STATE_FLYING \<longrightarrow>
       previous_state ctx = FLIGHT_STATE_ARMED \<and> last_event ctx = fsm_event_code FSM_EVT_LIFTOFF) \<and>
    (current_state ctx = FLIGHT_STATE_ARMED \<longrightarrow>
       previous_state ctx = FLIGHT_STATE_PREFLIGHT \<and> last_event ctx = fsm_event_code FSM_EVT_ARMED_CMD) \<and>
    (current_state ctx = FLIGHT_STATE_LANDING \<longrightarrow>
       previous_state ctx = FLIGHT_STATE_FLYING \<and> last_event ctx = fsm_event_code FSM_EVT_LAND_DETECT)"
    by (elim disjE exE conjE) (simp, metis)
  with last inv fsm_inv_proper [OF inv(1)] show ?thesis
    unfolding transition_legal_set by blast
qed

theorem fsm_run_history_witness:
  "\<exists>ctx bb. fsm_run (ctx, bb) \<and> current_state ctx = FLIGHT_STATE_ARMED \<and>
     (previous_state ctx, current_state ctx, FSM_EVT_ARMED_CMD) \<in> set TRANSITIONS \<and>
     last_event ctx = fsm_event_code FSM_EVT_ARMED_CMD \<and> sequence bb = ucast (transition_count ctx)"
proof -
  let ?c0 = "fsm_init (ctx_in FLIGHT_STATE_ARMED)" and ?b0 = "blackbox_init example_blackbox"
  let ?c0' = "?c0\<lparr>ctx_fault_flags := 0\<rparr>"
  let ?c1 = "moved_ctx ?c0' FLIGHT_STATE_PREFLIGHT FSM_EVT_SENSOR_OK 20"
    and ?b1 = "blackbox_log (moved_args ?c0' FLIGHT_STATE_PREFLIGHT (Some level_sample) 21) ?b0"
  have s0: "current_state ?c0 = FLIGHT_STATE_INIT" by (simp add: fsm_init_def)
  then have l0: "transition_legal (current_state ?c0) FLIGHT_STATE_PREFLIGHT FSM_EVT_SENSOR_OK"
    by (simp add: transition_legal_iff)
  have g: "sensed FSM_EVT_SENSOR_OK level_sample 0"
    by (simp add: guard_init_to_preflight_def FSM_PREFLIGHT_SENSOR_MASK_def level_sample_def)
  have r1: "fsm_run (?c1, ?b1)"
    by (rule fsm_run.step [OF fsm_run.start fsm_step.tick]) (rule fsm_tick_moves [OF l0 g])
  have l1: "transition_legal (current_state ?c1) FLIGHT_STATE_ARMED FSM_EVT_ARMED_CMD"
    by (simp add: moved_ctx_def transition_legal_iff)
  let ?c2 = "moved_ctx ?c1 FLIGHT_STATE_ARMED FSM_EVT_ARMED_CMD 30"
    and ?b2 = "blackbox_log (moved_args ?c1 FLIGHT_STATE_ARMED None 31) ?b1"
  have r2: "fsm_run (?c2, ?b2)"
    by (rule fsm_run.step [OF r1 fsm_step.command]) (rule fsm_command_moves [OF l1], simp add: requested_def)
  have c2: "current_state ?c2 = FLIGHT_STATE_ARMED" by (simp add: moved_ctx_def)
  have "(FLIGHT_STATE_PREFLIGHT, FLIGHT_STATE_ARMED, FSM_EVT_ARMED_CMD) \<in> set TRANSITIONS"
    by (simp add: TRANSITIONS_def)
  with fsm_run_history [OF r2] c2 r2 show ?thesis by (intro exI [of _ ?c2] exI [of _ ?b2]) simp
qed

text \<open>Arming is not guarded: a sample that the preflight guard rejects (a low battery, too few
  satellites, no fix) does not keep the machine from being armed by the next command.\<close>

lemma arming_ignores_preflight_guard:
  assumes "current_state ctx = FLIGHT_STATE_PREFLIGHT" "\<not> guard_preflight_to_armed s 0"
    and "fsm_tick ctx s 0 now tick bb = (ctx1, bb1, moved)"
    and "fsm_command ctx1 FSM_EVT_ARMED_CMD now2 tick2 bb1 = (ctx2, bb2, accepted)"
  shows "accepted \<and> current_state ctx2 = FLIGHT_STATE_ARMED"
proof -
  have "ctx1 = ctx\<lparr>ctx_fault_flags := 0\<rparr>"
    using assms(1,3) by (simp add: fsm_tick_def guard_any_to_fault_def)
  then have "current_state ctx1 = FLIGHT_STATE_PREFLIGHT" using assms(1) by simp
  then have "transition_legal (current_state ctx1) FLIGHT_STATE_ARMED FSM_EVT_ARMED_CMD"
    by (simp add: transition_legal_iff)
  then show ?thesis
    using fsm_command_moves [of ctx1 FLIGHT_STATE_ARMED FSM_EVT_ARMED_CMD now2 tick2 bb1] assms(4)
    by (simp add: requested_def moved_ctx_def)
qed

text \<open>Standing level counts as liftoff: with no fault, one tick takes an armed machine to FLYING
  when the vertical acceleration is gravity, 9.81, alone.\<close>

lemma gravity_is_liftoff:
  assumes "current_state ctx = FLIGHT_STATE_ARMED" "accel_z s = f32_lit 981 100"
  shows "current_state (fst (fsm_tick ctx s 0 now tick bb)) = FLIGHT_STATE_FLYING"
proof -
  have "f32_lt (f32_mul (f32_lit 981 100) FSM_ARMED_ACCEL_THRESH_G) (f32_lit 981 100)"
    by code_simp
  then have "sensed FSM_EVT_LIFTOFF s 0" using assms(2) by (simp add: guard_armed_to_flying_def)
  moreover have "transition_legal (current_state ctx) FLIGHT_STATE_FLYING FSM_EVT_LIFTOFF"
    using assms(1) by (simp add: transition_legal_iff)
  ultimately show ?thesis by (simp add: fsm_tick_moves moved_ctx_def)
qed

end
