(* ===== verification/Rtos.thy ===== *)
theory Rtos
  imports FlightFsm
begin

text \<open>
  What the tasks use of the operating system and the HAL, none of which is in the
  repository.  The message queue and the event flags are parameters: a record \<open>rtos\<close> of the
  CMSIS-RTOS2 calls the tasks make, over an unknown queue type and an unknown event-flag
  type.  \<open>rtos_laws\<close> is what the calls are documented to do.  A tick count read by
  \<open>osKernelGetTickCount\<close> is an argument of the code that reads it, and
  \<open>HAL_UART_Transmit\<close> appends the transmitted bytes to a trace.

  \<open>list_rtos\<close>, a list and a word, shows that the laws can hold.
\<close>

section \<open>The calls\<close>

text \<open>\<open>osMessageQueueGet\<close> is the non-blocking get with \<open>None\<close> for a status other than
  \<open>osOK\<close>; \<open>osMessageQueuePut\<close> is the put with timeout 0, whose status no caller looks at.\<close>

record ('q, 'e) rtos =
  osMessageQueueGetCount :: "'q \<Rightarrow> u32"
  osMessageQueueGet :: "'q \<Rightarrow> sensor_data option \<times> 'q"
  osMessageQueuePut :: "'q \<Rightarrow> sensor_data \<Rightarrow> 'q"
  osEventFlagsGet :: "'e \<Rightarrow> u32"
  osEventFlagsSet :: "'e \<Rightarrow> u32 \<Rightarrow> 'e"
  osEventFlagsClear :: "'e \<Rightarrow> u32 \<Rightarrow> 'e"

text \<open>The number of messages \<open>main\<close> creates the queue for.\<close>

definition SENSOR_QUEUE_LEN :: nat where "SENSOR_QUEUE_LEN = 4"

text \<open>An event group has 24 flags; a call with another bit set is an error.\<close>

definition event_flags_ok :: "u32 \<Rightarrow> bool" where
  "event_flags_ok f \<longleftrightarrow> f AND 0xFF000000 = 0"

definition queue_laws :: "('q, 'e) rtos \<Rightarrow> ('q \<Rightarrow> sensor_data list) \<Rightarrow> bool" where
  "queue_laws r queue \<longleftrightarrow>
     (\<forall>q. length (queue q) \<le> SENSOR_QUEUE_LEN \<and>
        osMessageQueueGetCount r q = of_nat (length (queue q)) \<and>
        (case queue q of
           [] \<Rightarrow> fst (osMessageQueueGet r q) = None \<and> queue (snd (osMessageQueueGet r q)) = []
         | x # xs \<Rightarrow> fst (osMessageQueueGet r q) = Some x \<and>
             queue (snd (osMessageQueueGet r q)) = xs) \<and>
        (\<forall>x. queue (osMessageQueuePut r q x) =
           (if length (queue q) < SENSOR_QUEUE_LEN then queue q @ [x] else queue q)))"

definition flag_laws :: "('q, 'e) rtos \<Rightarrow> bool" where
  "flag_laws r \<longleftrightarrow>
     (\<forall>e. event_flags_ok (osEventFlagsGet r e) \<and>
       (\<forall>f. event_flags_ok f \<longrightarrow>
          osEventFlagsGet r (osEventFlagsSet r e f) = osEventFlagsGet r e OR f \<and>
          osEventFlagsGet r (osEventFlagsClear r e f) = osEventFlagsGet r e AND NOT f))"

section \<open>Shared objects of the firmware\<close>

text \<open>The globals of \<open>main.c\<close> that the tasks share.  \<open>huart2_tx\<close> is the trace of buffers
  transmitted on \<open>huart2\<close>.\<close>

record ('q, 'e) globals =
  g_sensor_queue :: 'q
  g_fault_flags :: 'e
  g_blackbox :: blackbox
  huart2_tx :: "byte list list"

section \<open>Consequences of the laws\<close>

lemma queue_get_nil:
  "queue_laws r queue \<Longrightarrow> queue q = [] \<Longrightarrow>
   fst (osMessageQueueGet r q) = None \<and> queue (snd (osMessageQueueGet r q)) = []"
  by (auto simp: queue_laws_def dest!: spec [of _ q])

lemma queue_get_cons:
  "queue_laws r queue \<Longrightarrow> queue q = x # xs \<Longrightarrow>
   fst (osMessageQueueGet r q) = Some x \<and> queue (snd (osMessageQueueGet r q)) = xs"
  by (auto simp: queue_laws_def dest!: spec [of _ q])

lemma queue_after_get: "queue_laws r queue \<Longrightarrow> queue (snd (osMessageQueueGet r q)) = tl (queue q)"
  using queue_get_nil [of r queue q] queue_get_cons [of r queue q] by (cases "queue q") auto

lemma queue_after_put:
  "queue_laws r queue \<Longrightarrow> length (queue q) < 4 \<Longrightarrow> queue (osMessageQueuePut r q x) = queue q @ [x]"
  by (auto simp: queue_laws_def SENSOR_QUEUE_LEN_def)

lemma queue_nonempty:
  assumes "queue_laws r queue"
  shows "osMessageQueueGetCount r q > 0 \<longleftrightarrow> queue q \<noteq> []"
proof -
  have "osMessageQueueGetCount r q = of_nat (length (queue q))" "length (queue q) \<le> 4"
    using assms by (simp_all add: queue_laws_def SENSOR_QUEUE_LEN_def)
  then have "unat (osMessageQueueGetCount r q) = length (queue q)"
    by (simp add: unat_of_nat take_bit_nat_eq_self)
  then show ?thesis by (auto simp: word_greater_zero_iff simp flip: unat_eq_zero)
qed

lemma flags_after_set:
  "flag_laws r \<Longrightarrow> event_flags_ok f \<Longrightarrow>
   osEventFlagsGet r (osEventFlagsSet r e f) = osEventFlagsGet r e OR f"
  by (simp add: flag_laws_def)

lemma flags_after_clear:
  "flag_laws r \<Longrightarrow> event_flags_ok f \<Longrightarrow>
   osEventFlagsGet r (osEventFlagsClear r e f) = osEventFlagsGet r e AND NOT f"
  by (simp add: flag_laws_def)

lemma flags_get_ok: "flag_laws r \<Longrightarrow> event_flags_ok (osEventFlagsGet r e)"
  by (simp add: flag_laws_def)

lemma event_flags_ok_and: "event_flags_ok f \<Longrightarrow> event_flags_ok (f AND g)"
  by (simp add: event_flags_ok_def and.commute and.left_commute [of f] and.assoc)

lemma event_flags_ok_or: "event_flags_ok f \<Longrightarrow> event_flags_ok g \<Longrightarrow> event_flags_ok (f OR g)"
  by (simp add: event_flags_ok_def bit.conj_disj_distrib2)

section \<open>The laws can hold\<close>

definition list_rtos :: "(sensor_data list, u32) rtos" where
  "list_rtos =
     \<lparr>osMessageQueueGetCount = (\<lambda>q. of_nat (length (take SENSOR_QUEUE_LEN q))),
      osMessageQueueGet = (\<lambda>q. case take SENSOR_QUEUE_LEN q of [] \<Rightarrow> (None, []) | x # xs \<Rightarrow> (Some x, xs)),
      osMessageQueuePut = (\<lambda>q x. take SENSOR_QUEUE_LEN (take SENSOR_QUEUE_LEN q @ [x])),
      osEventFlagsGet = (\<lambda>e. e AND 0xFFFFFF),
      osEventFlagsSet = (\<lambda>e f. e OR f),
      osEventFlagsClear = (\<lambda>e f. e AND NOT f)\<rparr>"

lemma take_tail_length: "take n q = x # xs \<Longrightarrow> length xs \<le> n"
  using length_take [of n q] by simp

lemma list_rtos_queue: "queue_laws list_rtos (take SENSOR_QUEUE_LEN)"
  by (auto simp: queue_laws_def list_rtos_def take_tail_length split: list.splits)

lemma list_rtos_flags: "flag_laws list_rtos"
proof -
  have "f AND 0xFF000000 = 0 \<Longrightarrow> f AND 0xFFFFFF = f" for f :: u32
  proof -
    assume "f AND 0xFF000000 = 0"
    moreover have "f AND 0xFFFFFF OR f AND 0xFF000000 = f"
    proof -
      have m: "(0xFFFFFF OR 0xFF000000 :: u32) = -1" by simp
      show ?thesis by (simp only: bit.conj_disj_distrib [symmetric] m and.right_neutral)
    qed
    ultimately show ?thesis by simp
  qed
  then show ?thesis
    by (auto simp: flag_laws_def list_rtos_def event_flags_ok_def and.assoc
        bit.conj_disj_distrib2 and.left_commute and.commute)
qed

end
