(* ===== verification/ProtocolRx.thy ===== *)
theory ProtocolRx
  imports Framing
begin

text \<open>
  The byte-at-a-time receiver of \<open>Firmware/Core/Src/protocol.c\<close>: its context,
  \<open>proto_rx_reset\<close> and \<open>proto_rx_feed\<close>.  The receiver is compared with an abstract one
  whose whole state is the list of bytes of the frame in progress (\<open>rx_spec_step\<close>):
  \<open>rx_pending\<close> maps the context to that list and every step commutes with it.  Which
  byte streams are accepted is then proved on the abstract side.
\<close>

section \<open>Context and operations\<close>

datatype rx_state =
    RX_STATE_WAIT_SOF
  | RX_STATE_WAIT_TYPE
  | RX_STATE_WAIT_LEN_LO
  | RX_STATE_WAIT_LEN_HI
  | RX_STATE_WAIT_PAYLOAD
  | RX_STATE_WAIT_CRC_LO
  | RX_STATE_WAIT_CRC_HI

record proto_frame =
  fr_type :: byte
  fr_len :: u16
  fr_payload :: "byte list"   \<comment> \<open>\<open>uint8_t payload[PROTO_MAX_PAYLOAD]\<close>\<close>

record proto_rx_ctx =
  rx_state :: rx_state
  rx_frame :: proto_frame
  payload_idx :: u16
  crc_lo :: byte

definition proto_frame_zero :: proto_frame where
  "proto_frame_zero = \<lparr>fr_type = 0, fr_len = 0, fr_payload = replicate PROTO_MAX_PAYLOAD 0\<rparr>"

text \<open>\<open>memset(ctx, 0, sizeof(*ctx))\<close> clears the whole context, the frame included.\<close>

definition proto_rx_reset :: "proto_rx_ctx \<Rightarrow> proto_rx_ctx" where
  "proto_rx_reset ctx =
     \<lparr>rx_state = RX_STATE_WAIT_SOF, rx_frame = proto_frame_zero, payload_idx = 0, crc_lo = 0\<rparr>"

text \<open>The \<open>default\<close> branch of the code's switch is for values outside the enum, which the
  datatype does not have.  The statement that computes a CRC over the header alone, and
  drops it, is left out: nothing uses its result.\<close>

definition proto_rx_feed :: "proto_rx_ctx \<Rightarrow> byte \<Rightarrow> proto_rx_ctx \<times> bool" where
  "proto_rx_feed ctx byte =
     (let f = rx_frame ctx in
      case rx_state ctx of
        RX_STATE_WAIT_SOF \<Rightarrow>
          (if byte = PROTO_SOF then ctx\<lparr>rx_state := RX_STATE_WAIT_TYPE\<rparr> else ctx, False)
      | RX_STATE_WAIT_TYPE \<Rightarrow>
          (ctx\<lparr>rx_frame := f\<lparr>fr_type := byte\<rparr>, rx_state := RX_STATE_WAIT_LEN_LO\<rparr>, False)
      | RX_STATE_WAIT_LEN_LO \<Rightarrow>
          (ctx\<lparr>rx_frame := f\<lparr>fr_len := ucast byte\<rparr>, rx_state := RX_STATE_WAIT_LEN_HI\<rparr>, False)
      | RX_STATE_WAIT_LEN_HI \<Rightarrow>
          (let len = fr_len f OR push_bit 8 (ucast byte);
               ctx1 = ctx\<lparr>rx_frame := f\<lparr>fr_len := len\<rparr>\<rparr>
           in if len = 0 then ctx1\<lparr>rx_state := RX_STATE_WAIT_CRC_LO\<rparr>
              else if unat len > PROTO_MAX_PAYLOAD then proto_rx_reset ctx1
              else ctx1\<lparr>payload_idx := 0, rx_state := RX_STATE_WAIT_PAYLOAD\<rparr>, False)
      | RX_STATE_WAIT_PAYLOAD \<Rightarrow>
          (let ctx1 = ctx\<lparr>rx_frame := f\<lparr>fr_payload := (fr_payload f)[unat (payload_idx ctx) := byte]\<rparr>,
                          payload_idx := payload_idx ctx + 1\<rparr>
           in if fr_len f \<le> payload_idx ctx1 then ctx1\<lparr>rx_state := RX_STATE_WAIT_CRC_LO\<rparr> else ctx1, False)
      | RX_STATE_WAIT_CRC_LO \<Rightarrow>
          (ctx\<lparr>crc_lo := byte, rx_state := RX_STATE_WAIT_CRC_HI\<rparr>, False)
      | RX_STATE_WAIT_CRC_HI \<Rightarrow>
          (let received_crc = ucast (crc_lo ctx) OR push_bit 8 (ucast byte);
               crc_buf = [fr_type f, ucast (fr_len f AND 0xFF), ucast (drop_bit 8 (fr_len f))]
                         @ take (unat (fr_len f)) (fr_payload f);
               expected_crc = proto_crc16 crc_buf (3 + unat (fr_len f))
           in (proto_rx_reset ctx, received_crc = expected_crc)))"

text \<open>Feeding a stream: the context at the end and the result for every byte.\<close>

fun rx_run :: "proto_rx_ctx \<Rightarrow> byte list \<Rightarrow> proto_rx_ctx \<times> bool list" where
  "rx_run ctx [] = (ctx, [])"
| "rx_run ctx (b # bs) =
     (let (ctx1, ok) = proto_rx_feed ctx b; (ctx2, oks) = rx_run ctx1 bs in (ctx2, ok # oks))"

section \<open>Invariant: every array access is in bounds\<close>

text \<open>In the payload state the next index is inside the payload array and below the
  announced length; in the CRC states the length that \<open>memcpy\<close> uses fits the array.\<close>

definition rx_inv :: "proto_rx_ctx \<Rightarrow> bool" where
  "rx_inv ctx \<longleftrightarrow>
     length (fr_payload (rx_frame ctx)) = PROTO_MAX_PAYLOAD \<and>
     (case rx_state ctx of
        RX_STATE_WAIT_LEN_HI \<Rightarrow> drop_bit 8 (fr_len (rx_frame ctx)) = 0
      | RX_STATE_WAIT_PAYLOAD \<Rightarrow> payload_idx ctx < fr_len (rx_frame ctx) \<and>
          unat (fr_len (rx_frame ctx)) \<le> PROTO_MAX_PAYLOAD
      | RX_STATE_WAIT_CRC_LO \<Rightarrow> unat (fr_len (rx_frame ctx)) \<le> PROTO_MAX_PAYLOAD
      | RX_STATE_WAIT_CRC_HI \<Rightarrow> unat (fr_len (rx_frame ctx)) \<le> PROTO_MAX_PAYLOAD
      | _ \<Rightarrow> True)"

lemma rx_inv_reset [simp]: "rx_inv (proto_rx_reset ctx)"
  by (simp add: rx_inv_def proto_rx_reset_def proto_frame_zero_def)

lemma rx_feed_inv:
  assumes "rx_inv ctx"
  shows "rx_inv (fst (proto_rx_feed ctx b))"
proof -
  have "drop_bit 8 (ucast b :: u16) = 0"
    by (rule bit_word_eqI) (auto simp: bit_simps bit_byte_beyond)
  with assms show ?thesis
    by (cases "rx_state ctx")
      (auto simp: rx_inv_def proto_rx_feed_def Let_def proto_sizes not_le not_less
        proto_rx_reset_def proto_frame_zero_def word_greater_zero_iff)
qed

lemma rx_run_inv: "rx_inv ctx \<Longrightarrow> rx_inv (fst (rx_run ctx bs))"
  by (induction bs arbitrary: ctx) (auto simp: Let_def split_beta intro: rx_feed_inv)

section \<open>The abstract receiver\<close>

text \<open>The frame's length field, from the bytes received so far.\<close>

definition header_len :: "byte list \<Rightarrow> nat" where
  "header_len q = unat (ucast (q ! 2) OR push_bit 8 (ucast (q ! 3)) :: u16)"

text \<open>One byte of the abstract receiver: the bytes of the frame in progress, and the frame
  just completed, if any, as its type and payload.\<close>

definition rx_spec_step :: "byte list \<Rightarrow> byte \<Rightarrow> byte list \<times> (byte \<times> byte list) option" where
  "rx_spec_step p b =
     (let q = p @ [b] in
      if p = [] then (if b = PROTO_SOF then q else [], None)
      else if length q < 4 then (q, None)
      else if PROTO_MAX_PAYLOAD < header_len q then ([], None)
      else if length q < 6 + header_len q then (q, None)
      else ([], let t = q ! 1; payload = take (header_len q) (drop 4 q)
                in if q = wire_frame t payload then Some (t, payload) else None))"

definition rx_pending :: "proto_rx_ctx \<Rightarrow> byte list" where
  "rx_pending ctx =
     (let f = rx_frame ctx; hdr = [PROTO_SOF, fr_type f] @ u16_bytes (fr_len f) in
      case rx_state ctx of
        RX_STATE_WAIT_SOF \<Rightarrow> []
      | RX_STATE_WAIT_TYPE \<Rightarrow> [PROTO_SOF]
      | RX_STATE_WAIT_LEN_LO \<Rightarrow> [PROTO_SOF, fr_type f]
      | RX_STATE_WAIT_LEN_HI \<Rightarrow> [PROTO_SOF, fr_type f, ucast (fr_len f)]
      | RX_STATE_WAIT_PAYLOAD \<Rightarrow> hdr @ take (unat (payload_idx ctx)) (fr_payload f)
      | RX_STATE_WAIT_CRC_LO \<Rightarrow> hdr @ take (unat (fr_len f)) (fr_payload f)
      | RX_STATE_WAIT_CRC_HI \<Rightarrow> hdr @ take (unat (fr_len f)) (fr_payload f) @ [crc_lo ctx])"

lemma header_len_u16_bytes: "header_len (a # t # u16_bytes n @ r) = unat n"
  by (simp add: header_len_def u16_bytes_def word_hi_lo)

lemma rx_pending_reset [simp]: "rx_pending (proto_rx_reset ctx) = []"
  by (simp add: rx_pending_def proto_rx_reset_def Let_def)

lemma drop_header: "drop 4 (a # t # u16_bytes n @ r) = r"
  by (simp add: u16_bytes_def)

lemma frame_body_len:
  "length p = unat n \<Longrightarrow> frame_body t p = t # u16_bytes n @ p"
  by (simp add: frame_body_def)

text \<open>The abstract step at a frame's last byte: only the two CRC bytes decide.\<close>

lemma rx_spec_step_last:
  assumes l: "length p = unat n" and n: "unat n \<le> PROTO_MAX_PAYLOAD"
  shows "rx_spec_step (PROTO_SOF # t # u16_bytes n @ p @ [lo]) hi =
    ([], if [lo, hi] = u16_bytes (crc16_loop 0xFFFF (frame_body t p)) then Some (t, p) else None)"
proof -
  let ?q = "PROTO_SOF # t # u16_bytes n @ p @ [lo, hi]"
  have "?q = wire_frame t p \<longleftrightarrow> [lo, hi] = u16_bytes (crc16_loop 0xFFFF (frame_body t p))"
    using l by (simp add: wire_frame_def frame_body_len)
  moreover have "take (unat n) (drop 4 ?q) = p"
    unfolding drop_header using l by simp
  ultimately show ?thesis
    using l n by (simp add: rx_spec_step_def header_len_u16_bytes len_simps Let_def)
qed

section \<open>Refinement\<close>

text \<open>A step from a context commutes with the abstract step.\<close>

definition rx_step_refines :: "proto_rx_ctx \<Rightarrow> byte \<Rightarrow> bool" where
  "rx_step_refines ctx b \<longleftrightarrow>
     rx_pending (fst (proto_rx_feed ctx b)) = fst (rx_spec_step (rx_pending ctx) b) \<and>
     (snd (proto_rx_feed ctx b) \<longleftrightarrow> snd (rx_spec_step (rx_pending ctx) b) \<noteq> None)"

lemmas rx_unfold = rx_step_refines_def proto_rx_feed_def rx_pending_def rx_spec_step_def Let_def

lemma rx_refines_header:
  assumes "rx_state ctx \<in> {RX_STATE_WAIT_SOF, RX_STATE_WAIT_TYPE, RX_STATE_WAIT_LEN_LO}"
  shows "rx_step_refines ctx b"
  using assms by (elim insertE emptyE) (simp_all add: rx_unfold ucast_u16_byte)

lemma u16_bytes_le16: "u16_bytes (ucast lo OR push_bit 8 (ucast hi)) = [lo, hi]"
  using u16_of_bytes [of lo hi] by (simp add: u16_bytes_def)

lemma rx_refines_len_hi:
  assumes "rx_inv ctx" "rx_state ctx = RX_STATE_WAIT_LEN_HI"
  shows "rx_step_refines ctx b"
proof -
  let ?n = "fr_len (rx_frame ctx)"
  have "drop_bit 8 ?n = 0" using assms by (simp add: rx_inv_def)
  then have n: "?n = ucast (ucast ?n :: byte)" using word_hi_lo [of ?n] by simp
  define lo where "lo = (ucast ?n :: byte)"
  define m where "m = (ucast lo OR push_bit 8 (ucast b) :: u16)"
  have m: "?n OR push_bit 8 (ucast b) = m" using n by (simp add: m_def lo_def)
  have mb: "u16_bytes m = [lo, b]" unfolding m_def by (rule u16_bytes_le16)
  have hl: "header_len [PROTO_SOF, fr_type (rx_frame ctx), lo, b] = unat m"
    using header_len_u16_bytes [of _ _ m "[]"] by (simp add: mb)
  have z: "unat m = 0 \<longleftrightarrow> m = 0" by (simp add: unat_eq_zero)
  let ?c = "ctx\<lparr>rx_frame := rx_frame ctx\<lparr>fr_len := m\<rparr>\<rparr>"
  have feed: "proto_rx_feed ctx b =
      (if m = 0 then ?c\<lparr>rx_state := RX_STATE_WAIT_CRC_LO\<rparr>
       else if unat m > PROTO_MAX_PAYLOAD then proto_rx_reset ?c
       else ?c\<lparr>payload_idx := 0, rx_state := RX_STATE_WAIT_PAYLOAD\<rparr>, False)"
    using assms(2) by (simp add: proto_rx_feed_def Let_def m)
  have pending: "rx_pending ctx = [PROTO_SOF, fr_type (rx_frame ctx), lo]"
    using assms(2) by (simp add: rx_pending_def lo_def Let_def)
  have spec: "rx_spec_step (rx_pending ctx) b =
      (if PROTO_MAX_PAYLOAD < unat m then [] else [PROTO_SOF, fr_type (rx_frame ctx), lo, b], None)"
    unfolding pending by (simp add: rx_spec_step_def Let_def hl)
  have "rx_pending (fst (proto_rx_feed ctx b)) =
      (if PROTO_MAX_PAYLOAD < unat m then [] else PROTO_SOF # fr_type (rx_frame ctx) # u16_bytes m)"
    unfolding feed using z by (cases "m = 0") (auto simp: proto_sizes rx_pending_def Let_def
        proto_rx_reset_def)
  then show ?thesis
    unfolding rx_step_refines_def spec by (simp add: feed mb)
qed

lemma rx_refines_payload:
  assumes "rx_inv ctx" "rx_state ctx = RX_STATE_WAIT_PAYLOAD"
  shows "rx_step_refines ctx b"
proof -
  let ?f = "rx_frame ctx"
  let ?n = "fr_len ?f" and ?i = "payload_idx ctx" and ?p = "fr_payload ?f"
  have i: "unat ?i < unat ?n" and n: "unat ?n \<le> 128" and p: "length ?p = 128"
    using assms by (simp_all add: rx_inv_def proto_sizes word_less_nat_alt)
  have i1: "unat (?i + 1) = Suc (unat ?i)"
    using i n by (simp add: unat_word_ariths)
  have tk: "take (Suc (unat ?i)) (?p[unat ?i := b]) = take (unat ?i) ?p @ [b]"
    using i n p by (simp add: take_Suc_conv_app_nth)
  have le: "?n \<le> ?i + 1 \<longleftrightarrow> unat ?n = Suc (unat ?i)"
    using i i1 by (auto simp: word_le_nat_alt)
  show ?thesis
    using assms(2) i n p unfolding rx_unfold
    by (simp add: header_len_u16_bytes le i1 tk proto_sizes len_simps)
qed

lemma rx_refines_crc_lo:
  assumes "rx_inv ctx" "rx_state ctx = RX_STATE_WAIT_CRC_LO"
  shows "rx_step_refines ctx b"
  using assms unfolding rx_unfold
  by (simp add: rx_inv_def header_len_u16_bytes proto_sizes len_simps)

lemma rx_refines_crc_hi:
  assumes "rx_inv ctx" "rx_state ctx = RX_STATE_WAIT_CRC_HI"
  shows "rx_step_refines ctx b"
proof -
  let ?f = "rx_frame ctx"
  let ?n = "fr_len ?f"
  let ?p = "take (unat ?n) (fr_payload ?f)"
  have n: "unat ?n \<le> 128" and l: "length ?p = unat ?n"
    using assms by (simp_all add: rx_inv_def proto_sizes)
  have body: "frame_body (fr_type ?f) ?p = fr_type ?f # u16_bytes ?n @ ?p"
    using l by (rule frame_body_len)
  have crc: "proto_crc16 ([fr_type ?f, ucast (?n AND 0xFF), ucast (drop_bit 8 ?n)] @ ?p) (3 + unat ?n)
      = crc16_loop 0xFFFF (frame_body (fr_type ?f) ?p)"
  proof -
    have "[fr_type ?f, ucast (?n AND 0xFF), ucast (drop_bit 8 ?n)] @ ?p = frame_body (fr_type ?f) ?p"
      by (simp add: body ucast_and_FF u16_bytes_def)
    then show ?thesis by (simp add: proto_crc16_def len_simps l del: append.simps)
  qed
  have eq: "ucast (crc_lo ctx) OR push_bit 8 (ucast b) = (c :: u16) \<longleftrightarrow> [crc_lo ctx, b] = u16_bytes c"
    for c by (metis u16_bytes_le16 u16_bytes_inject)
  have feed: "proto_rx_feed ctx b = (proto_rx_reset ctx,
      [crc_lo ctx, b] = u16_bytes (crc16_loop 0xFFFF (frame_body (fr_type ?f) ?p)))"
    using assms(2) unfolding proto_rx_feed_def Let_def crc eq by simp
  have pending: "rx_pending ctx = PROTO_SOF # fr_type ?f # u16_bytes ?n @ ?p @ [crc_lo ctx]"
    using assms(2) by (simp add: rx_pending_def Let_def)
  show ?thesis
    unfolding rx_step_refines_def feed pending
    using n l by (simp add: rx_spec_step_last proto_sizes)
qed

lemma rx_feed_refines: "rx_inv ctx \<Longrightarrow> rx_step_refines ctx b"
  by (cases "rx_state ctx")
    (simp_all add: rx_refines_header rx_refines_len_hi rx_refines_payload rx_refines_crc_lo
      rx_refines_crc_hi)

section \<open>Streams\<close>

fun rx_spec_run :: "byte list \<Rightarrow> byte list \<Rightarrow> byte list \<times> (byte \<times> byte list) option list" where
  "rx_spec_run p [] = (p, [])"
| "rx_spec_run p (b # bs) =
     (let (p1, r) = rx_spec_step p b; (p2, rs) = rx_spec_run p1 bs in (p2, r # rs))"

lemma rx_run_refines:
  "rx_inv ctx \<Longrightarrow>
   rx_pending (fst (rx_run ctx bs)) = fst (rx_spec_run (rx_pending ctx) bs) \<and>
   snd (rx_run ctx bs) = map (\<lambda>r. r \<noteq> None) (snd (rx_spec_run (rx_pending ctx) bs))"
proof (induction bs arbitrary: ctx)
  case (Cons b bs)
  with rx_feed_refines [of ctx b] rx_feed_inv [of ctx b] show ?case
    by (auto simp: rx_step_refines_def split_beta Let_def)
qed simp

lemma rx_run_append:
  "rx_run ctx (xs @ ys) =
     (let (ctx1, r1) = rx_run ctx xs; (ctx2, r2) = rx_run ctx1 ys in (ctx2, r1 @ r2))"
  by (induction xs arbitrary: ctx) (auto simp: split_beta Let_def)

lemma rx_spec_run_append:
  "rx_spec_run p (xs @ ys) =
     (let (p1, r1) = rx_spec_run p xs; (p2, r2) = rx_spec_run p1 ys in (p2, r1 @ r2))"
  by (induction xs arbitrary: p) (auto simp: split_beta Let_def)

lemma length_rx_spec_run [simp]: "length (snd (rx_spec_run p bs)) = length bs"
  by (induction bs arbitrary: p) (auto simp: split_beta Let_def)

subsection \<open>Every accepted frame was received\<close>

lemma rx_spec_step_sound:
  assumes "snd (rx_spec_step p b) = Some (t, payload)"
  shows "p @ [b] = wire_frame t payload" "length payload \<le> PROTO_MAX_PAYLOAD"
proof -
  let ?q = "p @ [b]"
  have q: "?q = wire_frame t payload" "payload = take (header_len ?q) (drop 4 ?q)"
    "header_len ?q \<le> PROTO_MAX_PAYLOAD"
    using assms unfolding rx_spec_step_def Let_def by (auto split: if_splits)
  show "?q = wire_frame t payload" by (fact q(1))
  have "length payload \<le> header_len ?q" by (subst q(2)) simp
  with q(3) show "length payload \<le> PROTO_MAX_PAYLOAD" by simp
qed

lemma rx_spec_pending_suffix:
  "\<exists>pre. p @ bs = pre @ fst (rx_spec_run p bs)"
proof (induction bs arbitrary: p)
  case (Cons b bs)
  have "\<exists>pre. p @ [b] = pre @ fst (rx_spec_step p b)"
    by (auto simp: rx_spec_step_def Let_def)
  then obtain pre where pre: "p @ [b] = pre @ fst (rx_spec_step p b)" by blast
  from Cons.IH [of "fst (rx_spec_step p b)"] obtain pre' where
    "fst (rx_spec_step p b) @ bs = pre' @ fst (rx_spec_run (fst (rx_spec_step p b)) bs)" by blast
  then have "p @ b # bs = (pre @ pre') @ fst (rx_spec_run (fst (rx_spec_step p b)) bs)"
    using pre by (metis append.assoc append_Cons append_Nil)
  then show ?case by (auto simp: split_beta Let_def)
qed simp

lemma rx_run_accept_sound:
  assumes inv: "rx_inv ctx" and idle: "rx_pending ctx = []"
    and acc: "last (snd (rx_run ctx (bs @ [b])))"
  shows "\<exists>pre t p. bs @ [b] = pre @ wire_frame t p \<and> length p \<le> PROTO_MAX_PAYLOAD"
proof -
  let ?q = "fst (rx_spec_run [] bs)"
  have "snd (rx_spec_step ?q b) \<noteq> None"
    using acc rx_run_refines [OF inv, of "bs @ [b]"]
    by (simp add: idle rx_spec_run_append split_beta Let_def)
  then obtain t p where "snd (rx_spec_step ?q b) = Some (t, p)" by auto
  note step = rx_spec_step_sound [OF this]
  obtain pre where "bs = pre @ ?q" using rx_spec_pending_suffix [of "[]" bs] by auto
  then have "bs @ [b] = pre @ wire_frame t p" using step(1) by (metis append.assoc)
  with step(2) show ?thesis by blast
qed

subsection \<open>Every frame that was sent is accepted, at its last byte\<close>

lemma rx_spec_step_inside:
  fixes t lo hi :: byte
  assumes n: "length p = unat n" "unat n \<le> PROTO_MAX_PAYLOAD"
    and k: "k < 5 + unat n"
  defines "f \<equiv> PROTO_SOF # t # u16_bytes n @ p @ [lo, hi]"
  shows "rx_spec_step (take k f) (f ! k) = (take (Suc k) f, None)"
proof -
  have lf: "length f = 6 + unat n" by (simp add: f_def n len_simps)
  have q: "take k f @ [f ! k] = take (Suc k) f"
    using k lf by (simp add: take_Suc_conv_app_nth)
  have len: "length (take (Suc k) f) = Suc k" using k lf by simp
  have hl: "header_len (take (Suc k) f) = unat n" if "3 \<le> k"
  proof -
    have "header_len (take (Suc k) f) = header_len f" using that by (simp add: header_len_def)
    also have "\<dots> = unat n" unfolding f_def by (rule header_len_u16_bytes)
    finally show ?thesis .
  qed
  show ?thesis
  proof (cases "k = 0")
    case True
    then show ?thesis by (simp add: rx_spec_step_def f_def Let_def)
  next
    case False
    then have "take k f \<noteq> []" using lf by (auto simp: f_def)
    then show ?thesis
      unfolding rx_spec_step_def Let_def q len using k n(2) hl by auto
  qed
qed

lemma rx_spec_run_inside:
  fixes t lo hi :: byte
  assumes n: "length p = unat n" "unat n \<le> PROTO_MAX_PAYLOAD"
    and k: "k \<le> 5 + unat n"
  defines "f \<equiv> PROTO_SOF # t # u16_bytes n @ p @ [lo, hi]"
  shows "rx_spec_run [] (take k f) = (take k f, replicate k None)"
  using k
proof (induction k)
  case (Suc k)
  have "length f = 6 + unat n" by (simp add: f_def n len_simps)
  with Suc.prems have t: "take (Suc k) f = take k f @ [f ! k]"
    by (simp add: take_Suc_conv_app_nth)
  have "rx_spec_step (take k f) (f ! k) = (take (Suc k) f, None)"
    unfolding f_def using Suc.prems by (intro rx_spec_step_inside n) simp
  with Suc show ?case
    by (simp add: t rx_spec_run_append Let_def replicate_append_same)
qed simp

lemma rx_spec_run_frame:
  assumes n: "length p \<le> PROTO_MAX_PAYLOAD"
  shows "rx_spec_run [] (PROTO_SOF # frame_body t p @ [lo, hi]) =
    ([], replicate (5 + length p) None @
      [if [lo, hi] = u16_bytes (crc16_loop 0xFFFF (frame_body t p)) then Some (t, p) else None])"
proof -
  let ?n = "of_nat (length p) :: u16"
  have l: "length p = unat ?n" using n by (simp add: proto_sizes unat_of_nat take_bit_nat_eq_self)
  let ?f = "PROTO_SOF # t # u16_bytes ?n @ p @ [lo]"
  have "take (5 + length p) (PROTO_SOF # t # u16_bytes ?n @ p @ [lo, hi]) = ?f"
  proof -
    have "PROTO_SOF # t # u16_bytes ?n @ p @ [lo, hi] = ?f @ [hi]" by simp
    moreover have "length ?f = 5 + length p" by (simp add: len_simps)
    ultimately show ?thesis by (metis append_eq_conv_conj)
  qed
  then have "rx_spec_run [] ?f = (?f, replicate (5 + length p) None)"
    using rx_spec_run_inside [OF l, of "5 + length p" t lo hi] n l
    by (simp del: rx_spec_run.simps)
  moreover have "PROTO_SOF # frame_body t p @ [lo, hi] = ?f @ [hi]"
    by (simp add: frame_body_len [OF l])
  ultimately show ?thesis
    using rx_spec_step_last [OF l, of t lo hi] n l
    by (simp only: rx_spec_run_append split Let_def rx_spec_run.simps)
qed

lemma rx_run_frame:
  assumes "rx_inv ctx" "rx_pending ctx = []" "length p \<le> PROTO_MAX_PAYLOAD"
  shows "snd (rx_run ctx (PROTO_SOF # frame_body t p @ [lo, hi])) =
      replicate (5 + length p) False @
        [[lo, hi] = u16_bytes (crc16_loop 0xFFFF (frame_body t p))]"
    "rx_pending (fst (rx_run ctx (PROTO_SOF # frame_body t p @ [lo, hi]))) = []"
  using rx_run_refines [OF assms(1), of "PROTO_SOF # frame_body t p @ [lo, hi]"]
  by (simp_all add: assms(2) rx_spec_run_frame [OF assms(3)] del: rx_spec_run.simps)

lemma wire_frame_split:
  obtains lo hi where "wire_frame t p = PROTO_SOF # frame_body t p @ [lo, hi]"
    "[lo, hi] = u16_bytes (crc16_loop 0xFFFF (frame_body t p))"
  by (simp add: wire_frame_def u16_bytes_def)

lemma rx_run_wire_frame:
  assumes "rx_inv ctx" "rx_pending ctx = []" "length p \<le> PROTO_MAX_PAYLOAD"
  shows "snd (rx_run ctx (wire_frame t p)) = replicate (5 + length p) False @ [True]"
    "rx_pending (fst (rx_run ctx (wire_frame t p))) = []"
proof -
  obtain lo hi where w: "wire_frame t p = PROTO_SOF # frame_body t p @ [lo, hi]"
    "[lo, hi] = u16_bytes (crc16_loop 0xFFFF (frame_body t p))"
    by (rule wire_frame_split)
  show "snd (rx_run ctx (wire_frame t p)) = replicate (5 + length p) False @ [True]"
    unfolding w(1) rx_run_frame(1) [OF assms] using w(2) by simp
  show "rx_pending (fst (rx_run ctx (wire_frame t p))) = []"
    unfolding w(1) by (rule rx_run_frame(2) [OF assms])
qed

text \<open>Bytes other than the start marker are skipped between frames.\<close>

lemma rx_run_noise:
  assumes "rx_inv ctx" "rx_pending ctx = []" "PROTO_SOF \<notin> set bs"
  shows "snd (rx_run ctx bs) = replicate (length bs) False" "rx_pending (fst (rx_run ctx bs)) = []"
proof -
  have "rx_spec_run [] bs = ([], replicate (length bs) None)"
    using assms(3) by (induction bs) (auto simp: rx_spec_step_def)
  with rx_run_refines [OF assms(1), of bs] assms(2)
  show "snd (rx_run ctx bs) = replicate (length bs) False" "rx_pending (fst (rx_run ctx bs)) = []"
    by simp_all
qed

section \<open>Resynchronisation\<close>

text \<open>An unfinished frame has at most 133 bytes, and every byte that is no start marker makes it
  longer or ends it.\<close>

lemma rx_spec_step_grows:
  assumes "b \<noteq> PROTO_SOF"
  shows "fst (rx_spec_step p b) = [] \<or>
    p \<noteq> [] \<and> length (fst (rx_spec_step p b)) = Suc (length p) \<and> length p \<le> 132"
  using assms by (auto simp: rx_spec_step_def Let_def proto_sizes)

lemma rx_spec_run_resync:
  assumes "PROTO_SOF \<notin> set bs" "p = [] \<or> 133 < length p + length bs" "length p \<le> 133"
  shows "fst (rx_spec_run p bs) = []"
  using assms
proof (induction bs arbitrary: p)
  case Nil
  then show ?case by auto
next
  case (Cons b bs)
  then have b: "b \<noteq> PROTO_SOF" by auto
  have "(fst (rx_spec_step p b) = [] \<or> 133 < length (fst (rx_spec_step p b)) + length bs) \<and>
      length (fst (rx_spec_step p b)) \<le> 133"
    using rx_spec_step_grows [OF b, of p] Cons.prems(2) by auto
  with Cons show ?case by (simp add: split_beta Let_def)
qed

lemma rx_pending_length: "rx_inv ctx \<Longrightarrow> length (rx_pending ctx) \<le> 133"
  by (cases "rx_state ctx")
    (auto simp: rx_inv_def rx_pending_def Let_def proto_sizes len_simps word_less_nat_alt)

lemma rx_run_resync:
  assumes "rx_inv ctx" "PROTO_SOF \<notin> set bs" "133 \<le> length bs"
  shows "rx_pending (fst (rx_run ctx bs)) = []"
proof -
  have "rx_pending ctx = [] \<or> 133 < length (rx_pending ctx) + length bs"
    using assms(3) by (cases "rx_pending ctx") auto
  then show ?thesis
    using rx_run_refines [OF assms(1), of bs] rx_spec_run_resync [OF assms(2)] rx_pending_length [OF assms(1)]
    by simp
qed

section \<open>Properties\<close>

text \<open>A context as it is after power-up.\<close>

definition proto_rx_zero :: proto_rx_ctx where
  "proto_rx_zero =
     \<lparr>rx_state = RX_STATE_WAIT_SOF, rx_frame = proto_frame_zero, payload_idx = 0, crc_lo = 0\<rparr>"

lemma proto_rx_zero_idle [simp]: "rx_inv proto_rx_zero" "rx_pending proto_rx_zero = []"
  by (simp_all add: proto_rx_zero_def rx_inv_def rx_pending_def proto_frame_zero_def Let_def)

text \<open>Whatever bytes arrive after a reset, the receiver never leaves its bounds: the payload
  array keeps its 128 bytes, the next payload index is below the announced length and inside the
  array, and the length that the CRC check copies fits the array.\<close>

lemma rx_never_out_of_bounds: "rx_inv (fst (rx_run (proto_rx_reset ctx) bs))"
  by (intro rx_run_inv rx_inv_reset)

text \<open>C3: The byte-driven state machine refines the abstract receiver that only keeps the bytes of
  the frame in progress: after any stream the two agree on those bytes, and on which byte
  completed a valid frame.\<close>

theorem rx_refines_frame_receiver:
  assumes "rx_inv ctx"
  shows "rx_pending (fst (rx_run ctx bs)) = fst (rx_spec_run (rx_pending ctx) bs) \<and>
    snd (rx_run ctx bs) = map (\<lambda>r. r \<noteq> None) (snd (rx_spec_run (rx_pending ctx) bs))"
  using assms by (rule rx_run_refines)

theorem rx_refines_frame_receiver_witness:
  "snd (rx_run proto_rx_zero [0xAB, 0x12]) = [False, False] \<and>
   rx_pending (fst (rx_run proto_rx_zero [0xAB, 0x12])) = [0xAB, 0x12]"
  using rx_refines_frame_receiver [OF proto_rx_zero_idle(1), of "[0xAB, 0x12]"]
  by (simp add: rx_spec_step_def PROTO_SOF_def)

text \<open>C1: Soundness of acceptance: when the receiver, started between frames, reports a complete
  frame at a byte, the stream up to that byte ends with a well-formed wire frame, start marker,
  length and CRC included, with a payload of at most 128 bytes.\<close>

theorem rx_accepts_only_frames:
  assumes "rx_inv ctx" "rx_pending ctx = []" "last (snd (rx_run ctx (bs @ [b])))"
  shows "\<exists>pre t p. bs @ [b] = pre @ wire_frame t p \<and> length p \<le> PROTO_MAX_PAYLOAD"
  using assms by (rule rx_run_accept_sound)

theorem rx_accepts_only_frames_witness:
  "\<exists>pre t p. butlast (wire_frame 0x12 [7]) @ [last (wire_frame 0x12 [7])] = pre @ wire_frame t p
     \<and> length p \<le> PROTO_MAX_PAYLOAD"
proof (rule rx_accepts_only_frames [OF proto_rx_zero_idle])
  have "wire_frame 0x12 [7] \<noteq> []" by (simp add: wire_frame_def)
  then show "last (snd (rx_run proto_rx_zero
      (butlast (wire_frame 0x12 [7]) @ [last (wire_frame 0x12 [7])])))"
    using rx_run_wire_frame(1) [of proto_rx_zero "[7]" "0x12"] by (simp add: proto_sizes)
qed

text \<open>C2: Completeness of acceptance: a frame that \<open>build_frame\<close> produced, sent after any noise
  without a start marker to a receiver between frames, is reported exactly once, at its last
  byte, and the receiver is between frames again.\<close>

theorem rx_accepts_built_frame:
  assumes "rx_inv ctx" "rx_pending ctx = []" "PROTO_SOF \<notin> set noise"
    and "length p \<le> PROTO_MAX_PAYLOAD" "out_size \<le> length buf" "6 + length p \<le> out_size"
    and "build_frame t p (of_nat (length p)) buf out_size = (written, b)"
  shows "snd (rx_run ctx (noise @ take written b)) =
      replicate (length noise + (written - 1)) False @ [True] \<and>
    rx_pending (fst (rx_run ctx (noise @ take written b))) = []"
proof -
  have "length p < 65536" using assms(4) by (simp add: proto_sizes)
  then have b: "written = 6 + length p" "take written b = wire_frame t p"
    using assms(5-7) build_frame_struct [of p out_size buf t] by (auto simp: len_simps)
  let ?c = "fst (rx_run ctx noise)"
  note noise = rx_run_noise [OF assms(1-3)]
  note acc = rx_run_wire_frame [OF rx_run_inv [OF assms(1)] noise(2) assms(4), of t]
  show ?thesis
    using noise(1) acc unfolding b(2) by (simp add: rx_run_append split_beta Let_def b(1) replicate_add)
qed

theorem rx_accepts_built_frame_witness:
  "\<exists>written b. build_frame 0x12 [] 0 (replicate 8 0) 8 = (written, b) \<and>
     snd (rx_run proto_rx_zero ([1, 2] @ take written b)) = replicate (2 + (written - 1)) False @ [True]"
proof -
  obtain written b where e: "build_frame 0x12 [] (of_nat (length ([] :: byte list))) (replicate 8 0) 8
      = (written, b)"
    by (cases "build_frame 0x12 [] (of_nat (length ([] :: byte list))) (replicate 8 0) 8")
  have "snd (rx_run proto_rx_zero ([1, 2] @ take written b)) =
      replicate (length [1, 2 :: byte] + (written - 1)) False @ [True]"
    using rx_accepts_built_frame [OF proto_rx_zero_idle _ _ _ _ e, of "[1, 2]"]
    by (simp add: PROTO_SOF_def)
  with e show ?thesis by (simp add: numeral_2_eq_2)
qed

text \<open>C12: A frame whose type or payload was damaged in transit is rejected.  Between frames the receiver
  gets a start marker, type, length field and payload of a frame, and the CRC of another one with
  the same length field, where type and payload of the two differ, and only within a window
  of at most 16 bits.  Then it reports no frame.  (Damage to the length field, the CRC or the start
  marker is not covered.)\<close>

theorem rx_rejects_damaged_frame:
  assumes "rx_inv ctx" "rx_pending ctx = []" "length p' = length p" "length p \<le> PROTO_MAX_PAYLOAD"
    and "message_bits (frame_body t p) = pre @ w @ post"
    and "message_bits (frame_body t' p') = pre @ w' @ post"
    and "length w = length w'" "length w \<le> 16" "w \<noteq> w'"
  shows "True \<notin> set (snd (rx_run ctx
    (PROTO_SOF # frame_body t' p' @ u16_bytes (crc16_loop 0xFFFF (frame_body t p)))))"
proof -
  obtain lo hi where c: "u16_bytes (crc16_loop 0xFFFF (frame_body t p)) = [lo, hi]"
    by (simp add: u16_bytes_def)
  have "crc16_loop 0xFFFF (frame_body t p) \<noteq> crc16_loop 0xFFFF (frame_body t' p')"
    using assms(5-9) by (rule crc16_burst)
  then have "[lo, hi] \<noteq> u16_bytes (crc16_loop 0xFFFF (frame_body t' p'))"
    using c u16_bytes_inject by metis
  moreover have "length p' \<le> PROTO_MAX_PAYLOAD" using assms(3,4) by simp
  ultimately show ?thesis
    unfolding c using rx_run_frame(1) [OF assms(1,2), of p' t' lo hi] by simp
qed

theorem rx_rejects_damaged_frame_witness:
  "True \<notin> set (snd (rx_run proto_rx_zero
    (PROTO_SOF # frame_body 0x10 [5, 7] @ u16_bytes (crc16_loop 0xFFFF (frame_body 0x10 [5, 6])))))"
  by (rule rx_rejects_damaged_frame [OF proto_rx_zero_idle, of "[5, 7]" "[5, 6]" "0x10"
        "message_bits [0x10, 2, 0, 5]" "byte_bits 6" "[]" "0x10" "byte_bits 7"])
    (simp_all add: proto_sizes message_bits_def frame_body_def u16_bytes_def,
     simp_all add: byte_bits_def upt_rec)

text \<open>A telemetry frame reaches the ground: what \<open>proto_build_telemetry\<close> writes into a buffer
  of at least 72 bytes is one wire frame of 72 bytes that a receiver between frames accepts,
  at its last byte.\<close>

lemma telemetry_frame_received:
  assumes "rx_inv ctx" "rx_pending ctx = []" "72 \<le> out_size" "out_size \<le> length buf"
    and "proto_build_telemetry s st f buf out_size = (written, b)"
  shows "written = 72 \<and> snd (rx_run ctx (take written b)) = replicate 71 False @ [True]"
proof -
  let ?p = "pkt_telemetry_bytes (telemetry_packet s st f)"
  have b: "written = 72" "take written b = wire_frame PKT_TYPE_TELEMETRY ?p"
    using assms(3-5) build_frame_struct [of ?p out_size buf PKT_TYPE_TELEMETRY]
    by (auto simp: proto_build_telemetry_def len_simps Let_def)
  show ?thesis
    unfolding b(2) using b(1) rx_run_wire_frame(1) [OF assms(1,2), of ?p PKT_TYPE_TELEMETRY]
    by (simp add: len_simps proto_sizes)
qed

text \<open>C14: The receiver always recovers: from any state that bytes can bring it to, however a frame was
  cut off, 133 bytes without a start marker bring it back between frames, and the next valid
  frame is reported at its last byte.\<close>

theorem rx_recovers:
  assumes "rx_inv ctx" "PROTO_SOF \<notin> set gap" "133 \<le> length gap" "length p \<le> PROTO_MAX_PAYLOAD"
  shows "rx_pending (fst (rx_run ctx gap)) = [] \<and>
    snd (rx_run (fst (rx_run ctx gap)) (wire_frame t p)) = replicate (5 + length p) False @ [True]"
  using rx_run_resync [OF assms(1-3)]
    rx_run_wire_frame(1) [OF rx_run_inv [OF assms(1)] _ assms(4), of gap t]
  by simp

theorem rx_recovers_witness:
  "snd (rx_run (fst (rx_run (fst (rx_run proto_rx_zero [0xAB, 0x10, 100, 0, 7])) (replicate 133 0)))
     (wire_frame 0x12 [])) = replicate 5 False @ [True]"
proof -
  have "PROTO_SOF \<notin> set (replicate 133 0)" "133 \<le> length (replicate 133 (0 :: byte))"
    "length [] \<le> PROTO_MAX_PAYLOAD"
    by (simp_all add: proto_sizes PROTO_SOF_def)
  from rx_recovers [OF rx_run_inv [OF proto_rx_zero_idle(1)] this, THEN conjunct2]
  show ?thesis by (simp only: list.size add_0_right)
qed

end
