(* ===== verification/TaskSensor.thy ===== *)
theory TaskSensor
  imports Rtos ProtocolRx
begin

text \<open>
  The sensor task, \<open>Firmware/Core/Src/task_sensor.c\<close>: its module state, the receive-complete
  interrupt that feeds the frame receiver, \<open>handle_frame\<close>, and one pass of the task's loop.

  The interrupt sets \<open>s_byte_ready\<close> when a frame is complete and valid; the task then looks
  at \<open>s_rx_ctx.frame\<close>.  The lemmas show what \<open>handle_frame\<close> does with each kind of frame and
  how long the queue gets, and what the task finds in that frame: the receiver has been
  reset by then, so it never is the frame that was accepted.
\<close>

section \<open>Module state\<close>

text \<open>\<open>comms_warn_logged\<close> is the local variable of the task that outlives a pass.\<close>

record sensor_task =
  s_rx_ctx :: proto_rx_ctx
  s_uart_rx_byte :: byte
  s_latest :: sensor_data
  s_last_packet_ms :: u32
  s_packet_count :: u32
  s_crc_error_count :: u32
  s_byte_ready :: bool
  comms_warn_logged :: u32

definition sensor_task_get_packet_count :: "sensor_task \<Rightarrow> u32" where
  "sensor_task_get_packet_count t = s_packet_count t"

definition sensor_task_get_crc_errors :: "sensor_task \<Rightarrow> u32" where
  "sensor_task_get_crc_errors t = s_crc_error_count t"

definition sensor_task_get_last_rx_ms :: "sensor_task \<Rightarrow> u32" where
  "sensor_task_get_last_rx_ms t = s_last_packet_ms t"

section \<open>The interrupt\<close>

text \<open>\<open>instance_ok\<close> is the comparison of the interrupting UART with \<open>huart2\<close>.  Arming the
  next one-byte reception is the HAL's business.\<close>

definition HAL_UART_RxCpltCallback :: "bool \<Rightarrow> sensor_task \<Rightarrow> sensor_task" where
  "HAL_UART_RxCpltCallback instance_ok t =
     (if \<not> instance_ok then t
      else let (ctx, complete) = proto_rx_feed (s_rx_ctx t) (s_uart_rx_byte t);
               t = t\<lparr>s_rx_ctx := ctx\<rparr>
           in if complete then t\<lparr>s_byte_ready := True\<rparr> else t)"

text \<open>The HAL stores a received byte and calls back.\<close>

definition uart_receive :: "sensor_task \<Rightarrow> byte \<Rightarrow> sensor_task" where
  "uart_receive t b = HAL_UART_RxCpltCallback True (t\<lparr>s_uart_rx_byte := b\<rparr>)"

section \<open>Handling a frame\<close>

definition heartbeat_ack :: "byte list" where
  "heartbeat_ack =
     (let payload = 0xAC;
          n = PROTO_HEADER_SIZE + 1 + PROTO_CRC_SIZE;
          ack_buf = [PROTO_SOF, PKT_TYPE_HEARTBEAT_ACK, 1, 0, payload];
          crc = proto_crc16 (drop 1 ack_buf) 4;
          ack_buf = ack_buf @ [ucast (crc AND 0xFF), ucast (drop_bit 8 crc)]
      in take n ack_buf)"

definition handle_frame ::
    "('q, 'e) rtos \<Rightarrow> u32 \<Rightarrow> proto_frame \<Rightarrow> sensor_task \<times> ('q, 'e) globals
     \<Rightarrow> sensor_task \<times> ('q, 'e) globals" where
  "handle_frame r now frame st =
     (let (t, g) = st in
      if fr_type frame = PKT_TYPE_SENSOR_FRAME then
        (case proto_unpack_sensor (fr_payload frame) (unat (fr_len frame)) of
           Some parsed \<Rightarrow>
             let t = t\<lparr>s_latest := parsed, s_last_packet_ms := now,
                       s_packet_count := s_packet_count t + 1\<rparr>;
                 q = g_sensor_queue g;
                 q = (if osMessageQueueGetCount r q > 0 then snd (osMessageQueueGet r q) else q);
                 q = osMessageQueuePut r q parsed
             in (t, g\<lparr>g_sensor_queue := q\<rparr>)
         | None \<Rightarrow> (t\<lparr>s_crc_error_count := s_crc_error_count t + 1\<rparr>, g))
      else if fr_type frame = PKT_TYPE_HEARTBEAT_REQ then
        (t, g\<lparr>huart2_tx := huart2_tx g @ [heartbeat_ack]\<rparr>)
      else (t, g))"

section \<open>The task\<close>

text \<open>Before the loop: \<open>tick\<close> is the tick count the log call reads.\<close>

definition task_sensor_start ::
    "u32 \<Rightarrow> sensor_task \<times> ('q, 'e) globals \<Rightarrow> sensor_task \<times> ('q, 'e) globals" where
  "task_sensor_start tick st =
     (let (t, g) = st;
          t = t\<lparr>s_rx_ctx := proto_rx_reset (s_rx_ctx t), s_latest := sensor_data_zero,
                comms_warn_logged := 0\<rparr>
      in (t, g\<lparr>g_blackbox := blackbox_log
            \<lparr>arg_tick = tick, arg_type = BB_EVT_BOOT, arg_state = FLIGHT_STATE_INIT,
             arg_fault_flags = 0, arg_sensor_status = 0, arg_voltage = 0, arg_altitude = 0,
             arg_accel_mag = 0, arg_msg = Some (c_str ''sensor_task started'')\<rparr> (g_blackbox g)\<rparr>))"

definition comms_overdue :: "sensor_task \<Rightarrow> u32 \<Rightarrow> bool" where
  "comms_overdue t now \<longleftrightarrow>
     s_last_packet_ms t > 0 \<and> now - s_last_packet_ms t > COMMS_TIMEOUT_MS \<and>
     now - comms_warn_logged t > 2000"

text \<open>One pass of the loop.  \<open>now1\<close> is the tick count \<open>handle_frame\<close> reads, \<open>now\<close> that of
  the comms check, \<open>tick\<close> that of the log call.\<close>

definition task_sensor_pass ::
    "('q, 'e) rtos \<Rightarrow> u32 \<Rightarrow> u32 \<Rightarrow> u32 \<Rightarrow> sensor_task \<times> ('q, 'e) globals
     \<Rightarrow> sensor_task \<times> ('q, 'e) globals" where
  "task_sensor_pass r now1 now tick st =
     (let (t, g) = (if s_byte_ready (fst st)
                    then handle_frame r now1 (rx_frame (s_rx_ctx (fst st)))
                           ((fst st)\<lparr>s_byte_ready := False\<rparr>, snd st)
                    else st)
      in if comms_overdue t now
         then (t\<lparr>comms_warn_logged := now\<rparr>,
               g\<lparr>g_blackbox := blackbox_log
                 \<lparr>arg_tick = tick, arg_type = BB_EVT_COMMS_TIMEOUT, arg_state = FLIGHT_STATE_INIT,
                  arg_fault_flags = ucast FAULT_FLAG_COMMS_TIMEOUT, arg_sensor_status = 0,
                  arg_voltage = 0, arg_altitude = 0, arg_accel_mag = 0,
                  arg_msg = Some (c_str ''UART RX timeout'')\<rparr> (g_blackbox g)\<rparr>)
         else (t, g))"

section \<open>The acknowledgement\<close>

lemma heartbeat_ack_eq: "heartbeat_ack = wire_frame PKT_TYPE_HEARTBEAT_ACK [0xAC]"
  by (simp add: heartbeat_ack_def wire_frame_def frame_body_def u16_bytes_def proto_crc16_def
      proto_sizes ucast_and_FF Let_def)

section \<open>What a frame does\<close>

lemma handle_sensor_ok:
  assumes "fr_type f = PKT_TYPE_SENSOR_FRAME"
    "proto_unpack_sensor (fr_payload f) (unat (fr_len f)) = Some s"
  shows "handle_frame r now f (t, g) =
    (t\<lparr>s_latest := s, s_last_packet_ms := now, s_packet_count := s_packet_count t + 1\<rparr>,
     g\<lparr>g_sensor_queue := osMessageQueuePut r
         (if osMessageQueueGetCount r (g_sensor_queue g) > 0
          then snd (osMessageQueueGet r (g_sensor_queue g)) else g_sensor_queue g) s\<rparr>)"
  using assms by (simp add: handle_frame_def Let_def)

lemma handle_frame_queue:
  assumes "queue_laws r queue" "length (queue (g_sensor_queue g)) \<le> 1"
    "handle_frame r now f (t, g) = (t', g')"
  shows "queue (g_sensor_queue g') = queue (g_sensor_queue g) \<or>
    queue (g_sensor_queue g') = [s_latest t']"
proof -
  let ?q = "g_sensor_queue g"
  let ?q1 = "if osMessageQueueGetCount r ?q > 0 then snd (osMessageQueueGet r ?q) else ?q"
  have "queue ?q1 = []"
    using assms(1,2) queue_nonempty [of r queue ?q] queue_after_get [of r queue ?q]
    by (cases "queue ?q") auto
  then have "queue (osMessageQueuePut r ?q1 s) = [s]" for s
    using queue_after_put [OF assms(1), of ?q1 s] by simp
  then show ?thesis
    using assms(3) by (auto simp: handle_frame_def Let_def split: if_splits option.splits)
qed

lemma handle_frame_keeps:
  assumes "handle_frame r now f (t, g) = (t', g')"
  shows "g_blackbox g' = g_blackbox g" "g_fault_flags g' = g_fault_flags g"
    "s_rx_ctx t' = s_rx_ctx t" "s_byte_ready t' = s_byte_ready t"
  using assms by (auto simp: handle_frame_def Let_def split: if_splits option.splits)

text \<open>A sensor frame shorter than the expected 73 bytes is counted as an error.\<close>

lemma handle_sensor_short:
  "fr_type f = PKT_TYPE_SENSOR_FRAME \<Longrightarrow> unat (fr_len f) < 73 \<Longrightarrow>
   handle_frame r now f (t, g) = (t\<lparr>s_crc_error_count := s_crc_error_count t + 1\<rparr>, g)"
  by (simp add: handle_frame_def proto_unpack_sensor_def SENSOR_PACKED_SIZE_def)

section \<open>What the task finds after a frame was accepted\<close>

lemma proto_rx_feed_accept: "proto_rx_feed ctx b = (ctx', True) \<Longrightarrow> ctx' = proto_rx_reset ctx"
  by (cases "rx_state ctx") (auto simp: proto_rx_feed_def Let_def)

lemma handle_reset_frame [simp]: "handle_frame r now (rx_frame (proto_rx_reset ctx)) st = st"
  by (cases st) (simp add: handle_frame_def proto_rx_reset_def proto_frame_zero_def
      PKT_TYPE_SENSOR_FRAME_def PKT_TYPE_HEARTBEAT_REQ_def)

lemma task_sensor_pass_reset:
  assumes "s_byte_ready t" "s_rx_ctx t = proto_rx_reset ctx"
  shows "task_sensor_pass r now1 now tick (t, g) =
    task_sensor_pass r now1 now tick (t\<lparr>s_byte_ready := False\<rparr>, g)"
  using assms by (simp add: task_sensor_pass_def split_beta)

lemma task_sensor_pass_keeps:
  assumes "task_sensor_pass r now1 now tick (t, g) = (t', g')"
  shows "s_rx_ctx t' = s_rx_ctx t" "\<not> s_byte_ready t'" "g_fault_flags g' = g_fault_flags g"
    "bb_inv (g_blackbox g) \<Longrightarrow> bb_inv (g_blackbox g')"
proof -
  obtain t1 g1 where h: "(if s_byte_ready t
      then handle_frame r now1 (rx_frame (s_rx_ctx t)) (t\<lparr>s_byte_ready := False\<rparr>, g) else (t, g)) = (t1, g1)"
    by (metis surj_pair)
  then have k: "s_rx_ctx t1 = s_rx_ctx t" "\<not> s_byte_ready t1" "g_fault_flags g1 = g_fault_flags g"
    "g_blackbox g1 = g_blackbox g"
    using handle_frame_keeps [of r now1 "rx_frame (s_rx_ctx t)" "t\<lparr>s_byte_ready := False\<rparr>" g t1 g1]
    by (auto split: if_splits)
  have "t' = (if comms_overdue t1 now then t1\<lparr>comms_warn_logged := now\<rparr> else t1)"
    "\<exists>a. g' = (if comms_overdue t1 now then g1\<lparr>g_blackbox := blackbox_log a (g_blackbox g1)\<rparr> else g1)"
    using assms unfolding task_sensor_pass_def fst_conv snd_conv h by (auto simp: Let_def)
  with k show "s_rx_ctx t' = s_rx_ctx t" "\<not> s_byte_ready t'" "g_fault_flags g' = g_fault_flags g"
    "bb_inv (g_blackbox g) \<Longrightarrow> bb_inv (g_blackbox g')"
    by (auto intro: bb_inv_log)
qed

lemma task_sensor_pass_queue:
  assumes "queue_laws r queue" "length (queue (g_sensor_queue g)) \<le> 1"
    "task_sensor_pass r now1 now tick (t, g) = (t', g')"
  shows "queue (g_sensor_queue g') = queue (g_sensor_queue g) \<or>
    queue (g_sensor_queue g') = [s_latest t']"
proof (cases "s_byte_ready t")
  case False
  then show ?thesis
    using assms(3) by (auto simp: task_sensor_pass_def Let_def split: if_splits)
next
  case True
  obtain t1 g1 where h: "handle_frame r now1 (rx_frame (s_rx_ctx t)) (t\<lparr>s_byte_ready := False\<rparr>, g) = (t1, g1)"
    by (metis surj_pair)
  have "g_sensor_queue g' = g_sensor_queue g1" "s_latest t' = s_latest t1"
    using assms(3) True unfolding task_sensor_pass_def fst_conv snd_conv h
    by (auto simp: Let_def h split: if_splits)
  then show ?thesis using handle_frame_queue [OF assms(1,2) h] by simp
qed

section \<open>Properties\<close>

text \<open>A task state to instantiate the statements with.\<close>

definition example_sensor_task :: "proto_rx_ctx \<Rightarrow> sensor_task" where
  "example_sensor_task ctx =
     \<lparr>s_rx_ctx = ctx, s_uart_rx_byte = 0, s_latest = sensor_data_zero, s_last_packet_ms = 0,
      s_packet_count = 0, s_crc_error_count = 0, s_byte_ready = False, comms_warn_logged = 0\<rparr>"

definition sensor_example_globals :: "sensor_data list \<Rightarrow> (sensor_data list, u32) globals" where
  "sensor_example_globals q =
     \<lparr>g_sensor_queue = q, g_fault_flags = 0, g_blackbox = blackbox_init example_blackbox,
      huart2_tx = []\<rparr>"

text \<open>A sensor frame with its full payload becomes the latest sample, counts as one packet,
  restarts the comms timeout, and leaves the queue holding that sample alone, whatever one
  sample was waiting; nothing is sent and the recorder and the event flags are untouched.\<close>

lemma sensor_frame_replaces_queue:
  fixes r :: "('q, 'e) rtos"
  assumes "queue_laws r queue" "length (queue (g_sensor_queue g)) \<le> 1"
    and "fr_type f = PKT_TYPE_SENSOR_FRAME" "fr_payload f = sensor_bytes s @ rest"
    and "73 \<le> unat (fr_len f)" "handle_frame r now f (t, g) = (t', g')"
  shows "queue (g_sensor_queue g') = [s] \<and> s_latest t' = s \<and>
    s_packet_count t' = s_packet_count t + 1 \<and> s_last_packet_ms t' = now \<and>
    huart2_tx g' = huart2_tx g \<and> g_blackbox g' = g_blackbox g \<and> g_fault_flags g' = g_fault_flags g"
proof -
  let ?q = "g_sensor_queue g"
  let ?q1 = "if osMessageQueueGetCount r ?q > 0 then snd (osMessageQueueGet r ?q) else ?q"
  have u: "proto_unpack_sensor (fr_payload f) (unat (fr_len f)) = Some s"
    using assms(4,5) by (simp add: unpack_sensor_bytes)
  have "queue ?q1 = []"
    using assms(1,2) queue_nonempty [of r queue ?q] queue_after_get [of r queue ?q]
    by (cases "queue ?q") auto
  then have "queue (osMessageQueuePut r ?q1 s) = [s]"
    using queue_after_put [OF assms(1), of ?q1 s] by simp
  then show ?thesis
    using assms(6) unfolding handle_sensor_ok [OF assms(3) u] by auto
qed

text \<open>An accepted frame is never handled: when a byte completes a valid frame and the task runs
  before another byte arrives, the frame it looks at has been cleared, so no packet is counted, no
  sample is stored or queued and no heartbeat is answered.\<close>

lemma accepted_frame_is_lost:
  fixes r :: "('q, 'e) rtos"
  assumes "snd (proto_rx_feed (s_rx_ctx t) b)"
    and "task_sensor_pass r now1 now tick (uart_receive t b, g) = (t', g')"
  shows "s_byte_ready (uart_receive t b) \<and> s_packet_count t' = s_packet_count t \<and>
    s_latest t' = s_latest t \<and> s_last_packet_ms t' = s_last_packet_ms t \<and>
    g_sensor_queue g' = g_sensor_queue g \<and> huart2_tx g' = huart2_tx g"
proof -
  obtain ctx where feed: "proto_rx_feed (s_rx_ctx t) b = (ctx, True)"
    using assms(1) by (cases "proto_rx_feed (s_rx_ctx t) b") auto
  have u: "uart_receive t b = t\<lparr>s_uart_rx_byte := b, s_rx_ctx := proto_rx_reset (s_rx_ctx t), s_byte_ready := True\<rparr>"
    using feed proto_rx_feed_accept [OF feed]
    by (simp add: uart_receive_def HAL_UART_RxCpltCallback_def)
  show ?thesis
    using assms(2) task_sensor_pass_reset [of "uart_receive t b" "s_rx_ctx t" r now1 now tick g]
    by (auto simp: u task_sensor_pass_def Let_def split: if_splits)
qed

text \<open>The receiver at the last byte of an empty heartbeat request.\<close>

definition heartbeat_rx :: proto_rx_ctx where
  "heartbeat_rx =
     \<lparr>rx_state = RX_STATE_WAIT_CRC_HI,
      rx_frame = proto_frame_zero\<lparr>fr_type := PKT_TYPE_HEARTBEAT_REQ\<rparr>,
      payload_idx = 0, crc_lo = ucast (crc16_loop 0xFFFF [0x12, 0, 0])\<rparr>"

text \<open>C34: What is handled instead has passed no check: after an accepted frame, four more bytes, a
  start marker with the type and length of a sensor frame, make the next pass of the task take an
  all-zero sample for a received packet.\<close>

theorem unchecked_packet_accepted:
  fixes r :: "('q, 'e) rtos"
  assumes "s_rx_ctx t = proto_rx_reset ctx" "s_byte_ready t"
    and "t4 = foldl uart_receive t [0xAB, 0x10, 73, 0]"
    and "task_sensor_pass r now1 now tick (t4, g) = (t', g')"
  shows "s_packet_count t' = s_packet_count t + 1 \<and> s_latest t' = sensor_data_zero \<and>
    s_last_packet_ms t' = now1"
proof -
  let ?f = "\<lparr>fr_type = 0x10, fr_len = 73, fr_payload = replicate 128 0\<rparr>"
  have t4: "rx_frame (s_rx_ctx t4) = ?f" "s_byte_ready t4" "s_packet_count t4 = s_packet_count t"
    using assms(1-3)
    by (simp_all add: uart_receive_def HAL_UART_RxCpltCallback_def proto_rx_reset_def
        proto_rx_feed_def proto_frame_zero_def PROTO_SOF_def proto_sizes)
  have "sensor_bytes sensor_data_zero = replicate 72 0"
    by (simp add: sensor_bytes_def sensor_chunks_def sensor_data_zero_def put_f32_def put_f64_def
        put_u32_def put_u8_def upt_rec numeral_eq_Suc)
  then have "replicate 128 0 = sensor_bytes sensor_data_zero @ replicate 56 0"
    by (simp flip: replicate_add)
  then have u: "proto_unpack_sensor (fr_payload ?f) (unat (fr_len ?f)) = Some sensor_data_zero"
    by (simp add: unpack_sensor_bytes)
  have ty: "fr_type ?f = PKT_TYPE_SENSOR_FRAME" by (simp add: PKT_TYPE_SENSOR_FRAME_def)
  show ?thesis
    using assms(4) t4(2,3) unfolding task_sensor_pass_def fst_conv snd_conv t4(1)
      handle_sensor_ok [OF ty u]
    by (auto simp: Let_def split: if_splits)
qed

theorem unchecked_packet_accepted_witness:
  "s_packet_count (fst (task_sensor_pass list_rtos 40 40 41
     (foldl uart_receive ((example_sensor_task (proto_rx_reset heartbeat_rx))\<lparr>s_byte_ready := True\<rparr>)
        [0xAB, 0x10, 73, 0], sensor_example_globals []))) = 1"
proof -
  let ?t = "(example_sensor_task (proto_rx_reset heartbeat_rx))\<lparr>s_byte_ready := True\<rparr>"
  obtain t' g' where p: "task_sensor_pass list_rtos 40 40 41
      (foldl uart_receive ?t [0xAB, 0x10, 73, 0], sensor_example_globals []) = (t', g')"
    by (metis surj_pair)
  have t: "s_rx_ctx ?t = proto_rx_reset heartbeat_rx" "s_byte_ready ?t" "s_packet_count ?t = 0"
    by (simp_all add: example_sensor_task_def)
  from unchecked_packet_accepted [OF t(1,2) refl p] p t(3) show ?thesis by simp
qed

end
