(* ===== verification/TaskFsm.thy ===== *)
theory TaskFsm
  imports Rtos
begin

text \<open>
  The state-machine task, \<open>Firmware/Core/Src/task_fsm.c\<close>: its module state, the accessors
  the other tasks call, the fault evaluation, and one pass of the task's loop.  A pass takes
  the newest queued sample, brings the event flags in line with the faults it evaluates, runs
  \<open>fsm_tick\<close> and logs a change of the fault word.

  The lemmas show which faults are raised, that a pass overwrites the event flags with the
  three sensor faults, and that the machine is ticked with those faults alone.
\<close>

section \<open>Module state and accessors\<close>

record fsm_task =
  s_fsm :: fsm_ctx
  s_last_sensors :: sensor_data

definition fsm_task_get_state :: "fsm_task \<Rightarrow> flight_state" where
  "fsm_task_get_state t = current_state (s_fsm t)"

definition fsm_task_get_sensors :: "fsm_task \<Rightarrow> sensor_data" where
  "fsm_task_get_sensors t = s_last_sensors t"

definition fsm_task_get_fault_flags :: "('q, 'e) rtos \<Rightarrow> 'e \<Rightarrow> byte" where
  "fsm_task_get_fault_flags r e = ucast (osEventFlagsGet r e)"

section \<open>Fault evaluation\<close>

definition evaluate_faults :: "sensor_data \<Rightarrow> u32 \<Rightarrow> u32" where
  "evaluate_faults s now_ms =
     (let flags = 0;
          flags = (if gps_fix_quality s = 0 \<or> gps_satellites s < GPS_MIN_SATELLITES
                   then flags OR FAULT_FLAG_GPS_LOSS else flags);
          flags = (if f32_lt (battery_voltage_v s) BATT_LOW_VOLTAGE_V
                   then flags OR FAULT_FLAG_BATT_LOW else flags);
          flags = (if f32_eq (accel_x s) 0 \<and> f32_eq (accel_y s) 0 \<and> f32_eq (accel_z s) 0 \<and>
                      f32_eq (gyro_x s) 0 \<and> f32_eq (gyro_y s) 0 \<and> f32_eq (gyro_z s) 0
                   then flags OR FAULT_FLAG_SENSOR_FREEZE else flags)
      in flags)"

section \<open>The task\<close>

text \<open>Before the loop.\<close>

definition task_fsm_start :: "fsm_task \<Rightarrow> fsm_task" where
  "task_fsm_start t = \<lparr>s_fsm = fsm_init (s_fsm t), s_last_sensors = sensor_data_zero\<rparr>"

text \<open>One pass of the loop.  \<open>now_ms\<close> is the tick count the pass reads, \<open>tick1\<close> the one read
  by the log call inside \<open>fsm_tick\<close>, \<open>tick2\<close> the one read by the log call at the end.  The
  fault words are compared as numbers, as in the code.\<close>

definition task_fsm_pass ::
    "('q, 'e) rtos \<Rightarrow> u32 \<Rightarrow> u32 \<Rightarrow> u32 \<Rightarrow> fsm_task \<times> ('q, 'e) globals
     \<Rightarrow> fsm_task \<times> ('q, 'e) globals" where
  "task_fsm_pass r now_ms tick1 tick2 st =
     (let (t, g) = st;
          (fresh, q) = osMessageQueueGet r (g_sensor_queue g);
          t = (case fresh of None \<Rightarrow> t | Some s \<Rightarrow> t\<lparr>s_last_sensors := s\<rparr>);
          new_faults = evaluate_faults (s_last_sensors t) now_ms;
          prev_faults = osEventFlagsGet r (g_fault_flags g);
          e = (if new_faults AND NOT prev_faults \<noteq> 0
               then osEventFlagsSet r (g_fault_flags g) (new_faults AND NOT prev_faults)
               else g_fault_flags g);
          e = (if prev_faults AND NOT new_faults \<noteq> 0
               then osEventFlagsClear r e (prev_faults AND NOT new_faults) else e);
          (fsm, bb, transitioned) =
            fsm_tick (s_fsm t) (s_last_sensors t) new_faults now_ms tick1 (g_blackbox g);
          t = t\<lparr>s_fsm := fsm\<rparr>;
          bb = (if new_faults \<noteq> prev_faults
                then blackbox_log
                  \<lparr>arg_tick = tick2,
                   arg_type = (if new_faults > prev_faults then BB_EVT_FAULT_SET else BB_EVT_FAULT_CLEAR),
                   arg_state = current_state (s_fsm t),
                   arg_fault_flags = ucast new_faults,
                   arg_sensor_status = sensor_status (s_last_sensors t),
                   arg_voltage = battery_voltage_v (s_last_sensors t),
                   arg_altitude = altitude_m (s_last_sensors t),
                   arg_accel_mag = accel_z (s_last_sensors t),
                   arg_msg = Some (c_str (if new_faults > prev_faults then ''fault raised''
                                          else ''fault cleared''))\<rparr> bb
                else bb)
      in (t, g\<lparr>g_sensor_queue := q, g_fault_flags := e, g_blackbox := bb\<rparr>))"

section \<open>Faults\<close>

definition gps_lost :: "sensor_data \<Rightarrow> bool" where
  "gps_lost s \<longleftrightarrow> gps_fix_quality s = 0 \<or> gps_satellites s < 4"

definition batt_low :: "sensor_data \<Rightarrow> bool" where
  "batt_low s \<longleftrightarrow> f32_lt (battery_voltage_v s) BATT_LOW_VOLTAGE_V"

definition imu_frozen :: "sensor_data \<Rightarrow> bool" where
  "imu_frozen s \<longleftrightarrow> (\<forall>v \<in> {accel_x s, accel_y s, accel_z s, gyro_x s, gyro_y s, gyro_z s}.
     f32_eq v 0)"

lemma evaluate_faults_cases:
  "evaluate_faults s now =
     (if gps_lost s then 1 else 0) OR (if batt_low s then 4 else 0) OR (if imu_frozen s then 2 else 0)"
  by (simp add: evaluate_faults_def gps_lost_def batt_low_def imu_frozen_def flag_defs
      GPS_MIN_SATELLITES_def Let_def)

lemma evaluate_faults_zero_iff:
  "evaluate_faults s now = 0 \<longleftrightarrow> \<not> gps_lost s \<and> \<not> batt_low s \<and> \<not> imu_frozen s"
  by (simp add: evaluate_faults_cases)

lemma evaluate_faults_small: "evaluate_faults s now AND 0x7 = evaluate_faults s now"
  by (simp add: evaluate_faults_cases)

lemma evaluate_faults_ok: "event_flags_ok (evaluate_faults s now)"
  by (simp add: evaluate_faults_cases event_flags_ok_def)

section \<open>One pass\<close>

text \<open>The sample the pass works on: the oldest queued one, or the last one.\<close>

definition pass_sample :: "('q, 'e) rtos \<Rightarrow> fsm_task \<Rightarrow> 'q \<Rightarrow> sensor_data" where
  "pass_sample r t q =
     (case fst (osMessageQueueGet r q) of None \<Rightarrow> s_last_sensors t | Some s \<Rightarrow> s)"

lemma xor_sync: "(prev OR (new AND NOT prev)) AND NOT (prev AND NOT new) = new" for prev :: "'a::len word"
  by (rule bit_word_eqI) (auto simp: bit_simps)

lemma task_fsm_pass_eqs:
  fixes r :: "('q, 'e) rtos"
  assumes "task_fsm_pass r now tick1 tick2 (t, g) = (t', g')"
  defines "s \<equiv> pass_sample r t (g_sensor_queue g)"
  shows "s_last_sensors t' = s"
    "s_fsm t' = fst (fsm_tick (s_fsm t) s (evaluate_faults s now) now tick1 (g_blackbox g))"
    "g_sensor_queue g' = snd (osMessageQueueGet r (g_sensor_queue g))"
    "huart2_tx g' = huart2_tx g"
  using assms(1)
  by (auto simp: task_fsm_pass_def s_def pass_sample_def split_beta Let_def split: option.splits)

lemma task_fsm_pass_flags:
  fixes r :: "('q, 'e) rtos"
  assumes "task_fsm_pass r now tick1 tick2 (t, g) = (t', g')" and "flag_laws r"
  shows "osEventFlagsGet r (g_fault_flags g') =
    evaluate_faults (pass_sample r t (g_sensor_queue g)) now"
proof -
  define new where "new = evaluate_faults (pass_sample r t (g_sensor_queue g)) now"
  define prev where "prev = osEventFlagsGet r (g_fault_flags g)"
  let ?s = "new AND NOT prev" and ?c = "prev AND NOT new"
  let ?e1 = "if ?s \<noteq> 0 then osEventFlagsSet r (g_fault_flags g) ?s else g_fault_flags g"
  have e: "g_fault_flags g' = (if ?c \<noteq> 0 then osEventFlagsClear r ?e1 ?c else ?e1)"
    using assms(1)
    by (auto simp: task_fsm_pass_def new_def prev_def pass_sample_def split_beta Let_def
        split: option.splits)
  have ok: "event_flags_ok ?s" "event_flags_ok ?c"
    unfolding new_def prev_def
    using assms(2) by (auto intro: event_flags_ok_and evaluate_faults_ok flags_get_ok)
  have e1: "osEventFlagsGet r ?e1 = prev OR ?s"
    using flags_after_set [OF assms(2) ok(1)] by (simp add: prev_def)
  have "osEventFlagsGet r (g_fault_flags g') = (prev OR ?s) AND NOT ?c"
  proof (cases "?c = 0")
    case True
    then have "g_fault_flags g' = ?e1" unfolding e by simp
    then show ?thesis using True e1 by (simp only: bit.compl_zero and.right_neutral)
  next
    case False
    then have "g_fault_flags g' = osEventFlagsClear r ?e1 ?c" unfolding e by simp
    then show ?thesis using flags_after_clear [OF assms(2) ok(2), of ?e1] e1 by (simp only:)
  qed
  then show ?thesis by (simp only: xor_sync new_def)
qed

text \<open>The recorder: the records of the tick, then one more exactly when the fault word
  changed.\<close>

lemma task_fsm_pass_blackbox:
  fixes r :: "('q, 'e) rtos"
  assumes "task_fsm_pass r now tick1 tick2 (t, g) = (t', g')"
  defines "s \<equiv> pass_sample r t (g_sensor_queue g)"
  defines "bb \<equiv> fst (snd (fsm_tick (s_fsm t) s (evaluate_faults s now) now tick1 (g_blackbox g)))"
  shows "if evaluate_faults s now = osEventFlagsGet r (g_fault_flags g) then g_blackbox g' = bb
    else \<exists>a. g_blackbox g' = blackbox_log a bb \<and>
      arg_type a = (if osEventFlagsGet r (g_fault_flags g) < evaluate_faults s now
                    then BB_EVT_FAULT_SET else BB_EVT_FAULT_CLEAR)"
  using assms(1)
  by (auto simp: task_fsm_pass_def s_def bb_def pass_sample_def split_beta Let_def
      split: option.splits)

lemma task_fsm_pass_bb_inv:
  assumes "task_fsm_pass r now tick1 tick2 (t, g) = (t', g')"
    and "fsm_inv (s_fsm t)" "bb_inv (g_blackbox g)"
  shows "bb_inv (g_blackbox g')"
proof -
  let ?s = "pass_sample r t (g_sensor_queue g)"
  let ?tick = "fsm_tick (s_fsm t) ?s (evaluate_faults ?s now) now tick1 (g_blackbox g)"
  have "bb_inv (fst (snd ?tick))"
    by (rule tick.keeps_bb_inv [OF assms(2), of ?s "evaluate_faults ?s now" now tick1
        "g_blackbox g" "fst ?tick" _ "snd (snd ?tick)"]) (simp_all add: assms(3))
  with task_fsm_pass_blackbox [OF assms(1)] show ?thesis
    by (auto split: if_splits intro: bb_inv_log)
qed

lemma task_fsm_pass_fsm_inv:
  assumes "task_fsm_pass r now tick1 tick2 (t, g) = (t', g')" and "fsm_inv (s_fsm t)"
  shows "fsm_inv (s_fsm t')"
proof -
  let ?s = "pass_sample r t (g_sensor_queue g)"
  let ?tick = "fsm_tick (s_fsm t) ?s (evaluate_faults ?s now) now tick1 (g_blackbox g)"
  have "fsm_inv (fst ?tick)"
    by (rule tick.keeps_inv [OF assms(2), of ?s "evaluate_faults ?s now" now tick1 "g_blackbox g"
        _ "fst (snd ?tick)" "snd (snd ?tick)"]) simp
  then show ?thesis by (simp add: task_fsm_pass_eqs(2) [OF assms(1)])
qed

section \<open>Properties\<close>

text \<open>A task state, shared objects and samples to instantiate the statements with.\<close>

definition example_globals :: "sensor_data list \<Rightarrow> u32 \<Rightarrow> (sensor_data list, u32) globals" where
  "example_globals q e =
     \<lparr>g_sensor_queue = q, g_fault_flags = e, g_blackbox = blackbox_init example_blackbox,
      huart2_tx = []\<rparr>"

definition example_fsm_task :: "flight_state \<Rightarrow> fsm_task" where
  "example_fsm_task s = \<lparr>s_fsm = ctx_in s, s_last_sensors = sensor_data_zero\<rparr>"

lemma example_globals_sel [simp]:
  "g_sensor_queue (example_globals q e) = q" "g_fault_flags (example_globals q e) = e"
  "g_blackbox (example_globals q e) = blackbox_init example_blackbox"
  "huart2_tx (example_globals q e) = []"
  by (simp_all add: example_globals_def)

text \<open>A pass of the state-machine task overwrites the event flags: afterwards they are exactly
  the GPS, battery and freeze faults of the sample it worked on, the machine has been ticked with
  that word, and a comms or stack fault that another task had raised is gone.\<close>

lemma fsm_pass_overwrites_flags:
  fixes r :: "('q, 'e) rtos"
  assumes "flag_laws r" and "task_fsm_pass r now tick1 tick2 (t, g) = (t', g')"
    and "s = pass_sample r t (g_sensor_queue g)"
  shows "osEventFlagsGet r (g_fault_flags g') =
      (if gps_lost s then 1 else 0) OR (if batt_low s then 4 else 0) OR (if imu_frozen s then 2 else 0) \<and>
    osEventFlagsGet r (g_fault_flags g') AND (FAULT_FLAG_COMMS_TIMEOUT OR FAULT_FLAG_STACK_OVERFLOW) = 0 \<and>
    s_fsm t' = fst (fsm_tick (s_fsm t) s (osEventFlagsGet r (g_fault_flags g')) now tick1 (g_blackbox g))"
proof -
  have e: "osEventFlagsGet r (g_fault_flags g') = evaluate_faults s now"
    using task_fsm_pass_flags [OF assms(2,1)] assms(3) by simp
  have f: "s_fsm t' = fst (fsm_tick (s_fsm t) s (evaluate_faults s now) now tick1 (g_blackbox g))"
    using task_fsm_pass_eqs(2) [OF assms(2)] assms(3) by simp
  have z: "evaluate_faults s now AND (FAULT_FLAG_COMMS_TIMEOUT OR FAULT_FLAG_STACK_OVERFLOW) = 0"
    by (simp add: evaluate_faults_cases flag_defs)
  show ?thesis unfolding e f using z evaluate_faults_cases [of s now] by simp
qed

text \<open>C31: Once started, the machine is in FAULT after a pass exactly when the sample shows a lost
  fix, a low battery or a frozen IMU.\<close>

theorem fsm_pass_fault_iff:
  fixes r :: "('q, 'e) rtos"
  assumes "task_fsm_pass r now tick1 tick2 (t, g) = (t', g')"
    and "fsm_inv (s_fsm t)" "current_state (s_fsm t) \<noteq> FLIGHT_STATE_INIT"
    and "s = pass_sample r t (g_sensor_queue g)"
  shows "current_state (s_fsm t') = FLIGHT_STATE_FAULT \<longleftrightarrow> gps_lost s \<or> batt_low s \<or> imu_frozen s"
proof -
  let ?f = "evaluate_faults s now"
  have p: "proper_state (current_state (s_fsm t))" using fsm_inv_proper [OF assms(2)] by simp
  have eq: "s_fsm t' = fst (fsm_tick (s_fsm t) s ?f now tick1 (g_blackbox g))"
    using task_fsm_pass_eqs(2) [OF assms(1)] assms(4) by simp
  have "current_state (s_fsm t') = FLIGHT_STATE_FAULT \<longleftrightarrow> ?f \<noteq> 0"
    unfolding eq
  proof (rule fsm_tick_cases [OF p, of s ?f now tick1 "g_blackbox g"])
    fix to e
    assume "transition_legal (current_state (s_fsm t)) to e" "sensed e s ?f"
      "fsm_tick (s_fsm t) s ?f now tick1 (g_blackbox g) =
        (moved_ctx ((s_fsm t)\<lparr>ctx_fault_flags := ?f\<rparr>) to e now, blackbox_log (moved_args
          ((s_fsm t)\<lparr>ctx_fault_flags := ?f\<rparr>) to (Some s) tick1) (g_blackbox g), True)"
    then show "current_state (fst (fsm_tick (s_fsm t) s ?f now tick1 (g_blackbox g)))
        = FLIGHT_STATE_FAULT \<longleftrightarrow> ?f \<noteq> 0"
      using assms(3) by (cases e) (auto simp: transition_legal_iff moved_ctx_def)
  next
    assume none: "\<forall>to e. transition_legal (current_state (s_fsm t)) to e \<longrightarrow> \<not> sensed e s ?f"
      and eq: "fsm_tick (s_fsm t) s ?f now tick1 (g_blackbox g) =
        ((s_fsm t)\<lparr>ctx_fault_flags := ?f\<rparr>, g_blackbox g, False)"
    have no: "\<not> sensed e s ?f" if "transition_legal (current_state (s_fsm t)) to e" for to e
      using none that by blast
    show "current_state (fst (fsm_tick (s_fsm t) s ?f now tick1 (g_blackbox g)))
        = FLIGHT_STATE_FAULT \<longleftrightarrow> ?f \<noteq> 0"
      using p assms(3) no [of FLIGHT_STATE_FAULT FSM_EVT_FAULT_DETECTED]
        no [of FLIGHT_STATE_PREFLIGHT FSM_EVT_FAULT_CLEARED]
      unfolding eq by (cases "current_state (s_fsm t)") (simp_all add: transition_legal_iff)
  qed
  then show ?thesis by (auto simp: evaluate_faults_zero_iff)
qed

theorem fsm_pass_fault_iff_witness:
  "\<exists>t' g'. task_fsm_pass list_rtos 100 101 102
      (example_fsm_task FLIGHT_STATE_PREFLIGHT, example_globals [] 0) = (t', g') \<and>
     current_state (s_fsm t') = FLIGHT_STATE_FAULT"
proof -
  obtain t' g' where p: "task_fsm_pass list_rtos 100 101 102
      (example_fsm_task FLIGHT_STATE_PREFLIGHT, example_globals [] 0) = (t', g')"
    by (metis surj_pair)
  let ?t = "example_fsm_task FLIGHT_STATE_PREFLIGHT"
  have inv: "fsm_inv (s_fsm ?t)" "current_state (s_fsm ?t) \<noteq> FLIGHT_STATE_INIT"
    by (auto simp: example_fsm_task_def ctx_in_def fsm_inv_def transition_legal_iff
        intro!: exI [of _ FSM_EVT_SENSOR_OK])
  have "pass_sample list_rtos ?t [] = sensor_data_zero"
    by (simp add: pass_sample_def list_rtos_def example_fsm_task_def)
  then have "gps_lost (pass_sample list_rtos ?t (g_sensor_queue (example_globals [] 0)))"
    by (simp add: gps_lost_def sensor_data_zero_def)
  then show ?thesis using fsm_pass_fault_iff [OF p inv refl] p by blast
qed

text \<open>The log entry for a change of the fault word goes by the size of the number: when a lower
  fault bit is newly raised while a higher one goes away, the pass records a cleared fault.\<close>

lemma fsm_pass_logs_raise_as_clear:
  fixes r :: "('q, 'e) rtos"
  assumes "task_fsm_pass r now tick1 tick2 (t, g) = (t', g')"
    and "s = pass_sample r t (g_sensor_queue g)"
    and "gps_lost s" "\<not> batt_low s" "osEventFlagsGet r (g_fault_flags g) = FAULT_FLAG_BATT_LOW"
  shows "\<exists>a bb. g_blackbox g' = blackbox_log a bb \<and> arg_type a = BB_EVT_FAULT_CLEAR"
proof -
  have "evaluate_faults s now = (if imu_frozen s then 3 else 1)"
    using assms(3,4) by (simp add: evaluate_faults_cases)
  then have "evaluate_faults s now < FAULT_FLAG_BATT_LOW"
    "evaluate_faults s now \<noteq> FAULT_FLAG_BATT_LOW" by (simp_all add: flag_defs)
  with task_fsm_pass_blackbox [OF assms(1)] assms(2,5) show ?thesis by auto
qed

end
