(* ===== verification/TaskTelemetry.thy ===== *)
theory TaskTelemetry
  imports TaskFsm
begin

text \<open>
  The telemetry task, \<open>Firmware/Core/Src/task_telemetry.c\<close>: \<open>uart_send\<close>, the frame it builds
  for a flight-recorder record, the loop that drains up to four records, and one pass of the
  task.  The lemmas show that the hand-built record frame is the specified wire frame and that
  a pass sends the telemetry frame and then the oldest stored records, in order, which rests on
  the recorder's contract (\<open>record_log\<close>).
\<close>

section \<open>Sending\<close>

definition TELEM_BLACKBOX_BURST :: nat where "TELEM_BLACKBOX_BURST = 4"

text \<open>The length argument of \<open>HAL_UART_Transmit\<close> is cut to 16 bits.\<close>

definition uart_send :: "buf \<Rightarrow> nat \<Rightarrow> byte list list \<Rightarrow> byte list list" where
  "uart_send buf len tx =
     (if len = 0 then tx else tx @ [take (unat (of_nat len :: u16)) buf])"

section \<open>Records of the flight recorder\<close>

definition blackbox_packet :: "bb_record \<Rightarrow> pkt_blackbox_entry" where
  "blackbox_packet rec =
     \<lparr>be_timestamp_ms = rec_timestamp_ms rec, be_event_type = rec_event_type rec,
      be_flight_state = rec_flight_state rec, be_fault_flags = rec_fault_flags rec,
      be_sensor_status = rec_sensor_status rec,
      be_battery_voltage_v = rec_battery_voltage_v rec, be_altitude_m = rec_altitude_m rec,
      be_message = take 32 (rec_message rec)\<rparr>"

text \<open>The frame is built in a buffer on the stack, whose first contents \<open>stack\<close> are
  unspecified: it has room for the header, the packet and the CRC.\<close>

definition blackbox_frame :: "byte list \<Rightarrow> bb_record \<Rightarrow> buf \<times> nat" where
  "blackbox_frame stack rec =
     (let bb_pkt = pkt_blackbox_entry_bytes (blackbox_packet rec);
          size = length bb_pkt;
          bb_buf = stack[0 := PROTO_SOF, 1 := PKT_TYPE_BLACKBOX_ENTRY,
                         2 := ucast (of_nat size AND 0xFF :: u32),
                         3 := ucast (drop_bit 8 (of_nat size) :: u32)];
          bb_buf = buf_put PROTO_HEADER_SIZE bb_pkt bb_buf;
          crc = proto_crc16 (drop 1 bb_buf) (3 + size);
          total = PROTO_HEADER_SIZE + size + PROTO_CRC_SIZE;
          bb_buf = bb_buf[total - 2 := ucast (crc AND 0xFF), total - 1 := ucast (drop_bit 8 crc)]
      in (bb_buf, total))"

text \<open>The draining loop, with the number of turns left.\<close>

fun telemetry_burst ::
    "byte list \<Rightarrow> nat \<Rightarrow> blackbox \<times> byte list list \<Rightarrow> blackbox \<times> byte list list" where
  "telemetry_burst stack 0 (bb, tx) = (bb, tx)"
| "telemetry_burst stack (Suc n) (bb, tx) =
     (case blackbox_read bb of
        (None, bb1) \<Rightarrow> (bb1, tx)
      | (Some rec, bb1) \<Rightarrow>
          let (bb_buf, total) = blackbox_frame stack rec
          in telemetry_burst stack n (bb1, uart_send bb_buf total tx))"

section \<open>The task\<close>

record telemetry_task =
  tx_buf :: buf
  snap :: sensor_data

definition task_telemetry_pass ::
    "('q, 'e) rtos \<Rightarrow> byte list \<Rightarrow> fsm_task \<Rightarrow> telemetry_task \<times> ('q, 'e) globals
     \<Rightarrow> telemetry_task \<times> ('q, 'e) globals" where
  "task_telemetry_pass r stack f st =
     (let (t, g) = st;
          t = t\<lparr>snap := fsm_task_get_sensors f\<rparr>;
          state = fsm_task_get_state f;
          faults = fsm_task_get_fault_flags r (g_fault_flags g);
          (n, buf) = proto_build_telemetry (snap t) state faults (tx_buf t) PROTO_MAX_FRAME;
          t = t\<lparr>tx_buf := buf\<rparr>;
          tx = uart_send buf n (huart2_tx g);
          (bb, tx) = telemetry_burst stack TELEM_BLACKBOX_BURST (g_blackbox g, tx)
      in (t, g\<lparr>g_blackbox := bb, huart2_tx := tx\<rparr>))"

section \<open>The frames sent\<close>

definition record_frame :: "bb_record \<Rightarrow> byte list" where
  "record_frame rec =
     wire_frame PKT_TYPE_BLACKBOX_ENTRY (pkt_blackbox_entry_bytes (blackbox_packet rec))"

lemma length_blackbox_packet:
  "rec_ok rec \<Longrightarrow> length (pkt_blackbox_entry_bytes (blackbox_packet rec)) = 48"
  by (rule length_pkt_blackbox_entry_bytes) (simp add: blackbox_packet_def rec_ok_def
      BLACKBOX_MSG_LEN_def)

text \<open>The hand-built frame is what \<open>build_frame\<close> would have written.\<close>

lemma blackbox_frame_build:
  assumes "rec_ok rec"
  shows "blackbox_frame stack rec =
    (let pkt = pkt_blackbox_entry_bytes (blackbox_packet rec);
         (n, b) = build_frame PKT_TYPE_BLACKBOX_ENTRY pkt 48 stack 54 in (b, n))"
  using length_blackbox_packet [OF assms]
  by (simp add: blackbox_frame_def build_frame_def Let_def proto_sizes)

lemma blackbox_frame_eq:
  assumes "rec_ok rec" "length stack = 54"
  shows "blackbox_frame stack rec = (record_frame rec, 54)"
  using length_blackbox_packet [OF assms(1)] assms(2)
    build_frame_eq [of 48 "pkt_blackbox_entry_bytes (blackbox_packet rec)" 54 stack]
  by (simp add: blackbox_frame_build [OF assms(1)] record_frame_def Let_def)

lemma uart_send_all: "0 < length b \<Longrightarrow> length b < 65536 \<Longrightarrow> uart_send (b @ c) (length b) tx = tx @ [b]"
  by (simp add: uart_send_def unat_of_nat take_bit_nat_eq_self)

lemma length_record_frame: "rec_ok rec \<Longrightarrow> length (record_frame rec) = 54"
  by (simp add: record_frame_def len_simps length_blackbox_packet)

text \<open>The loop is the generic draining loop, followed by sending what was read.\<close>

lemma bb_stored_read:
  "bb_inv bb \<Longrightarrow> blackbox_read bb = (Some rec, bb1) \<Longrightarrow> rec \<in> set (bb_stored bb)"
  using blackbox_read_none [of bb] blackbox_read_some(1) [of bb]
  by (cases "bb_stored bb"; cases "bb_ready bb") auto

lemma telemetry_burst_drain:
  assumes "bb_inv bb" "length stack = 54"
  shows "telemetry_burst stack n (bb, tx) =
    (let (rs, bb1) = drain blackbox_read n bb in (bb1, tx @ map record_frame rs))"
  using assms
proof (induction n arbitrary: bb tx)
  case (Suc n)
  show ?case
  proof (cases "blackbox_read bb")
    case (Pair o' bb1)
    have inv: "bb_inv bb1" using bb.inv_pop [OF Suc.prems(1)] Pair by simp
    show ?thesis
    proof (cases o')
      case None
      with Pair show ?thesis by simp
    next
      case (Some rec)
      have ok: "rec_ok rec"
        using bb_stored_ok [OF Suc.prems(1)] bb_stored_read [OF Suc.prems(1)] Pair Some by blast
      have "uart_send (record_frame rec) 54 tx = tx @ [record_frame rec]"
        using uart_send_all [of "record_frame rec" "[]" tx] length_record_frame [OF ok] by simp
      with Pair Some Suc.IH [OF inv Suc.prems(2)] show ?thesis
        by (simp add: blackbox_frame_eq [OF ok Suc.prems(2)] split_beta Let_def)
    qed
  qed
qed simp

lemma telemetry_send:
  assumes "length (tx_buf t) = 134"
  shows "proto_build_telemetry s st f (tx_buf t) PROTO_MAX_FRAME =
    (72, wire_frame PKT_TYPE_TELEMETRY (pkt_telemetry_bytes (telemetry_packet s st f))
         @ drop 72 (tx_buf t))"
  using assms build_frame_struct [of "pkt_telemetry_bytes (telemetry_packet s st f)" 134 "tx_buf t"]
  by (simp add: proto_build_telemetry_def proto_sizes len_simps Let_def)

text \<open>What a pass sends and leaves behind.\<close>

lemma task_telemetry_pass_eq:
  fixes r :: "('q, 'e) rtos"
  assumes "bb_inv (g_blackbox g)" "length stack = 54" "length (tx_buf t) = 134"
    and pass: "task_telemetry_pass r stack f (t, g) = (t', g')"
  shows "huart2_tx g' = huart2_tx g @
      wire_frame PKT_TYPE_TELEMETRY (pkt_telemetry_bytes (telemetry_packet (s_last_sensors f)
        (current_state (s_fsm f)) (ucast (osEventFlagsGet r (g_fault_flags g)))))
      # map record_frame (fst (drain blackbox_read 4 (g_blackbox g)))"
    "g_blackbox g' = snd (drain blackbox_read 4 (g_blackbox g))"
    "length (tx_buf t') = 134"
    "g_sensor_queue g' = g_sensor_queue g" "g_fault_flags g' = g_fault_flags g"
proof -
  let ?s = "s_last_sensors f" and ?st = "current_state (s_fsm f)"
    and ?f = "ucast (osEventFlagsGet r (g_fault_flags g)) :: byte"
  let ?w = "wire_frame PKT_TYPE_TELEMETRY (pkt_telemetry_bytes (telemetry_packet ?s ?st ?f))"
  have lw: "length ?w = 72" by (simp add: len_simps)
  have snd: "uart_send (?w @ c) 72 tx = tx @ [?w]" for c tx
    using uart_send_all [of ?w c tx] lw by simp
  have "(t', g') = (t\<lparr>snap := ?s, tx_buf := ?w @ drop 72 (tx_buf t)\<rparr>,
      g\<lparr>g_blackbox := snd (drain blackbox_read 4 (g_blackbox g)),
        huart2_tx := huart2_tx g @ ?w # map record_frame (fst (drain blackbox_read 4 (g_blackbox g)))\<rparr>)"
    unfolding pass [symmetric] task_telemetry_pass_def fsm_task_get_sensors_def
      fsm_task_get_state_def fsm_task_get_fault_flags_def
    using telemetry_send [of "t\<lparr>snap := ?s\<rparr>" ?s ?st ?f] assms(3)
    by (simp add: Let_def snd telemetry_burst_drain [OF assms(1,2)] TELEM_BLACKBOX_BURST_def
        split_beta)
  then show "huart2_tx g' = huart2_tx g @ ?w # map record_frame (fst (drain blackbox_read 4 (g_blackbox g)))"
    "g_blackbox g' = snd (drain blackbox_read 4 (g_blackbox g))" "length (tx_buf t') = 134"
    "g_sensor_queue g' = g_sensor_queue g" "g_fault_flags g' = g_fault_flags g"
    using assms(3) lw by simp_all
qed

text \<open>A number of passes, each with the state the machine has then.\<close>

definition telemetry_passes ::
    "('q, 'e) rtos \<Rightarrow> buf \<Rightarrow> fsm_task list \<Rightarrow> telemetry_task \<times> ('q, 'e) globals
     \<Rightarrow> telemetry_task \<times> ('q, 'e) globals" where
  "telemetry_passes r stack fs st = foldl (\<lambda>st f. task_telemetry_pass r stack f st) st fs"

lemma telemetry_passes_drain:
  fixes r :: "('q, 'e) rtos"
  assumes "bb_inv (g_blackbox g)" "bb_ready (g_blackbox g)" "length stack = 54" "length (tx_buf t) = 134"
  shows "bb_stored (g_blackbox (snd (telemetry_passes r stack fs (t, g)))) =
    drop (4 * length fs) (bb_stored (g_blackbox g))"
  using assms
proof (induction fs arbitrary: t g)
  case Nil
  then show ?case by (simp add: telemetry_passes_def)
next
  case (Cons f fs)
  obtain t1 g1 where p: "task_telemetry_pass r stack f (t, g) = (t1, g1)" by fastforce
  note eq = task_telemetry_pass_eq [OF Cons.prems(1,3,4) p]
  note d = bb.drain_ready [OF Cons.prems(1,2), of 4]
  have "telemetry_passes r stack (f # fs) (t, g) = telemetry_passes r stack fs (t1, g1)"
    by (simp add: telemetry_passes_def p)
  moreover have "bb_stored (g_blackbox g1) = drop 4 (bb_stored (g_blackbox g))"
    unfolding eq(2) using d by simp
  ultimately show ?case
    using Cons.IH [of g1 t1] eq(2,3) d Cons.prems(3) by (simp add: add.commute)
qed

section \<open>Properties\<close>

text \<open>C23: A pass of the telemetry task sends one telemetry frame with the state machine's sample,
  state and fault byte, then one record frame for each of the oldest four records of the flight
  recorder, in order, and takes exactly those out of it; from a recorder that is full without
  overflow it sends none.\<close>

theorem telemetry_pass_sends:
  fixes r :: "('q, 'e) rtos"
  assumes "bb_inv (g_blackbox g)" "length stack = 54" "length (tx_buf t) = 134"
    and "task_telemetry_pass r stack f (t, g) = (t', g')"
    and "n = (if bb_ready (g_blackbox g) then 4 else 0)"
  shows "huart2_tx g' = huart2_tx g @
      wire_frame PKT_TYPE_TELEMETRY (pkt_telemetry_bytes (telemetry_packet (s_last_sensors f)
        (current_state (s_fsm f)) (ucast (osEventFlagsGet r (g_fault_flags g)))))
      # map record_frame (take n (bb_stored (g_blackbox g))) \<and>
    bb_stored (g_blackbox g') = drop n (bb_stored (g_blackbox g))"
  using task_telemetry_pass_eq [OF assms(1-4)] bb.drain_ready [OF assms(1), of 4]
    bb.drain_not_ready [OF assms(1), of 4] assms(5)
  by (cases "bb_ready (g_blackbox g)") simp_all

theorem telemetry_pass_sends_witness:
  "\<exists>t' g'. task_telemetry_pass list_rtos (replicate 54 0xEE) (example_fsm_task FLIGHT_STATE_INIT)
      (\<lparr>tx_buf = replicate 134 0, snap = sensor_data_zero\<rparr>, example_globals [] 0) = (t', g') \<and>
     length (huart2_tx g') = 1"
proof -
  let ?t = "\<lparr>tx_buf = replicate 134 0, snap = sensor_data_zero\<rparr>"
  obtain t' g' where p: "task_telemetry_pass list_rtos (replicate 54 0xEE)
      (example_fsm_task FLIGHT_STATE_INIT) (?t, example_globals [] 0) = (t', g')"
    by (metis surj_pair)
  show ?thesis using telemetry_pass_sends [OF _ _ _ p refl] p by simp
qed

text \<open>C24: The recorder is drained, unless it is blocked: while no task logs, any \<open>n\<close> passes of the
  telemetry task with \<open>4 * n\<close> at least the number of stored records leave it empty, whatever the
  state machine does meanwhile, provided the recorder did not hold 512 records without the overflow
  mark at the start (\<open>bb_ready\<close>; in that state no read returns a record).\<close>

theorem telemetry_drains_recorder:
  fixes r :: "('q, 'e) rtos"
  assumes "bb_inv (g_blackbox g)" "bb_ready (g_blackbox g)" "length stack = 54" "length (tx_buf t) = 134"
    and "unat (blackbox_count (g_blackbox g)) \<le> 4 * length fs"
  shows "blackbox_count (g_blackbox (snd (telemetry_passes r stack fs (t, g)))) = 0"
proof -
  let ?bb = "g_blackbox (snd (telemetry_passes r stack fs (t, g)))"
  have "length (bb_stored ?bb) = 0"
    unfolding telemetry_passes_drain [OF assms(1-4)] using assms(5) by (simp add: blackbox_count_def)
  then have "unat (bb_count ?bb) = 0" by (simp only: length_bb_stored)
  then show ?thesis by (simp add: blackbox_count_def unat_eq_zero)
qed

theorem telemetry_drains_recorder_witness:
  "blackbox_count (g_blackbox (snd (telemetry_passes list_rtos (replicate 54 0)
      [example_fsm_task FLIGHT_STATE_INIT, example_fsm_task FLIGHT_STATE_FAULT]
      (\<lparr>tx_buf = replicate 134 0, snap = sensor_data_zero\<rparr>, (example_globals [] 0)
         \<lparr>g_blackbox := log_all (replicate 8 example_args) (blackbox_init example_blackbox)\<rparr>)))) = 0"
proof (rule telemetry_drains_recorder)
  let ?g = "(example_globals [] 0)
    \<lparr>g_blackbox := log_all (replicate 8 example_args) (blackbox_init example_blackbox)\<rparr>"
  show "bb_inv (g_blackbox ?g)" using bb.inv_pushes [of "blackbox_init example_blackbox"] by simp
  show "bb_ready (g_blackbox ?g)" using log_all_ready [of "replicate 8 example_args"] by simp
  show "unat (blackbox_count (g_blackbox ?g)) \<le>
      4 * length [example_fsm_task FLIGHT_STATE_INIT, example_fsm_task FLIGHT_STATE_FAULT]"
    using log_all_room [of "replicate 8 example_args" example_blackbox] by (simp add: blackbox_count_def)
qed simp_all

end
