(* ===== verification/TaskHealth.thy ===== *)
theory TaskHealth
  imports TaskFsm TaskSensor
begin

text \<open>
  The health monitor, \<open>Firmware/Core/Inc/health_monitor.h\<close> and
  \<open>Firmware/Core/Src/task_health.c\<close>: the task registry, the snapshot, and one pass of the task,
  which raises or clears the stack and comms faults, stores a snapshot, sends a report once a
  second and logs one record every five.  A task handle is a value of an unknown type, the
  high-water mark of a task and the free heap are what the operating system reports.
\<close>

section \<open>State\<close>

text \<open>\<open>None\<close> is a null handle.\<close>

record 'h task_registry =
  reg_sensor_task :: "'h option"
  reg_fsm_task :: "'h option"
  reg_telemetry_task :: "'h option"
  reg_health_task :: "'h option"

record health_snapshot =
  hs_timestamp_ms :: u32
  hs_cpu_load_pct :: byte
  hs_hwm_sensor :: u16
  hs_hwm_fsm :: u16
  hs_hwm_telemetry :: u16
  hs_hwm_health :: u16
  hs_free_heap_bytes :: u32
  hs_fault_flags :: byte

definition HEALTH_STACK_MIN_HWM :: u16 where "HEALTH_STACK_MIN_HWM = 32"
definition HEALTH_REPORT_PERIOD_MS :: u32 where "HEALTH_REPORT_PERIOD_MS = 1000"

text \<open>The module variables and the variables of the task that outlive a pass.\<close>

record 'h health_task =
  s_registry :: "'h task_registry"
  s_snapshot :: health_snapshot
  health_tx_buf :: buf
  last_report_ms :: u32
  last_bb_ms :: u32

definition health_snapshot_zero :: health_snapshot where
  "health_snapshot_zero =
     \<lparr>hs_timestamp_ms = 0, hs_cpu_load_pct = 0, hs_hwm_sensor = 0, hs_hwm_fsm = 0,
      hs_hwm_telemetry = 0, hs_hwm_health = 0, hs_free_heap_bytes = 0, hs_fault_flags = 0\<rparr>"

definition health_init :: "'h task_registry \<Rightarrow> 'h health_task \<Rightarrow> 'h health_task" where
  "health_init reg t = t\<lparr>s_registry := reg, s_snapshot := health_snapshot_zero\<rparr>"

definition health_get_snapshot :: "'h health_task \<Rightarrow> health_snapshot" where
  "health_get_snapshot t = s_snapshot t"

section \<open>One pass\<close>

text \<open>The mark of a registered task, cut to 16 bits; 0 for an unregistered one.\<close>

definition stack_mark :: "('h \<Rightarrow> u32) \<Rightarrow> 'h option \<Rightarrow> u16" where
  "stack_mark hwm h = (case h of None \<Rightarrow> 0 | Some x \<Rightarrow> ucast (hwm x))"

text \<open>The first half of a pass: marks, the two fault checks, the snapshot.  \<open>hwm\<close> and
  \<open>free_heap\<close> are the answers of the operating system, \<open>sensor\<close> is the state of the sensor
  task, whose last packet time is read.\<close>

definition health_checks ::
    "('q, 'e) rtos \<Rightarrow> ('h \<Rightarrow> u32) \<Rightarrow> u32 \<Rightarrow> u32 \<Rightarrow> sensor_task \<Rightarrow> 'h health_task \<Rightarrow> 'e
     \<Rightarrow> 'h health_task \<times> 'e" where
  "health_checks r hwm free_heap now sensor t e =
     (let hwm_sensor = stack_mark hwm (reg_sensor_task (s_registry t));
          hwm_fsm = stack_mark hwm (reg_fsm_task (s_registry t));
          hwm_telem = stack_mark hwm (reg_telemetry_task (s_registry t));
          hwm_health = stack_mark hwm (reg_health_task (s_registry t));
          stack_critical = (hwm_sensor < HEALTH_STACK_MIN_HWM \<or> hwm_fsm < HEALTH_STACK_MIN_HWM \<or>
                            hwm_telem < HEALTH_STACK_MIN_HWM \<or> hwm_health < HEALTH_STACK_MIN_HWM);
          e = (if stack_critical then osEventFlagsSet r e FAULT_FLAG_STACK_OVERFLOW
               else osEventFlagsClear r e FAULT_FLAG_STACK_OVERFLOW);
          last_rx = sensor_task_get_last_rx_ms sensor;
          e = (if last_rx > 0 \<and> now - last_rx > COMMS_TIMEOUT_MS
               then osEventFlagsSet r e FAULT_FLAG_COMMS_TIMEOUT
               else osEventFlagsClear r e FAULT_FLAG_COMMS_TIMEOUT)
      in (t\<lparr>s_snapshot := (s_snapshot t)
             \<lparr>hs_timestamp_ms := now, hs_hwm_sensor := hwm_sensor, hs_hwm_fsm := hwm_fsm,
              hs_hwm_telemetry := hwm_telem, hs_hwm_health := hwm_health,
              hs_free_heap_bytes := free_heap,
              hs_fault_flags := fsm_task_get_fault_flags r e\<rparr>\<rparr>, e))"

text \<open>The periodic half, when its second has passed: the report, whose fields are the values
  just stored in the snapshot, and every five seconds a record.  \<open>tick\<close> is the tick count the
  log call reads.\<close>

definition health_report ::
    "u32 \<Rightarrow> u32 \<Rightarrow> fsm_task \<Rightarrow> 'h health_task \<Rightarrow> byte list list \<Rightarrow> blackbox
     \<Rightarrow> 'h health_task \<times> byte list list \<times> blackbox" where
  "health_report now tick f t tx bb =
     (let t = t\<lparr>last_report_ms := now\<rparr>;
          rpt = \<lparr>hr_timestamp_ms = now, hr_cpu_load_pct = 0,
                 hr_hwm_sensor = hs_hwm_sensor (s_snapshot t),
                 hr_hwm_fsm = hs_hwm_fsm (s_snapshot t),
                 hr_hwm_telemetry = hs_hwm_telemetry (s_snapshot t),
                 hr_hwm_health = hs_hwm_health (s_snapshot t),
                 hr_free_heap_bytes = hs_free_heap_bytes (s_snapshot t)\<rparr>;
          (n, buf) = proto_build_health rpt (health_tx_buf t) PROTO_MAX_FRAME;
          t = t\<lparr>health_tx_buf := buf\<rparr>;
          tx = (if n > 0 then tx @ [take (unat (of_nat n :: u16)) buf] else tx)
      in if now - last_bb_ms t \<ge> 5000
         then (t\<lparr>last_bb_ms := now\<rparr>, tx, blackbox_log
                \<lparr>arg_tick = tick, arg_type = BB_EVT_HEALTH_SNAPSHOT,
                 arg_state = fsm_task_get_state f,
                 arg_fault_flags = hs_fault_flags (s_snapshot t), arg_sensor_status = 0,
                 arg_voltage = 0, arg_altitude = 0, arg_accel_mag = 0,
                 arg_msg = Some (c_str ''health ok'')\<rparr> bb)
         else (t, tx, bb))"

definition task_health_pass ::
    "('q, 'e) rtos \<Rightarrow> ('h \<Rightarrow> u32) \<Rightarrow> u32 \<Rightarrow> u32 \<Rightarrow> u32 \<Rightarrow> sensor_task \<Rightarrow> fsm_task
     \<Rightarrow> 'h health_task \<times> ('q, 'e) globals \<Rightarrow> 'h health_task \<times> ('q, 'e) globals" where
  "task_health_pass r hwm free_heap now tick sensor f st =
     (let (t, g) = st;
          (t, e) = health_checks r hwm free_heap now sensor t (g_fault_flags g);
          g = g\<lparr>g_fault_flags := e\<rparr>
      in if now - last_report_ms t \<ge> HEALTH_REPORT_PERIOD_MS
         then let (t, tx, bb) = health_report now tick f t (huart2_tx g) (g_blackbox g)
              in (t, g\<lparr>huart2_tx := tx, g_blackbox := bb\<rparr>)
         else (t, g))"

section \<open>What a pass does\<close>

definition stack_low :: "('h \<Rightarrow> u32) \<Rightarrow> 'h task_registry \<Rightarrow> bool" where
  "stack_low hwm reg \<longleftrightarrow>
     (\<exists>h \<in> {reg_sensor_task reg, reg_fsm_task reg, reg_telemetry_task reg, reg_health_task reg}.
        stack_mark hwm h < 32)"

definition comms_lost :: "u32 \<Rightarrow> u32 \<Rightarrow> bool" where
  "comms_lost now last_rx \<longleftrightarrow> last_rx > 0 \<and> now - last_rx > 1000"

text \<open>The event flags after the two fault checks.\<close>

definition health_flags :: "('q, 'e) rtos \<Rightarrow> bool \<Rightarrow> bool \<Rightarrow> 'e \<Rightarrow> 'e" where
  "health_flags r low lost e =
     (let e = (if low then osEventFlagsSet r e FAULT_FLAG_STACK_OVERFLOW
               else osEventFlagsClear r e FAULT_FLAG_STACK_OVERFLOW)
      in if lost then osEventFlagsSet r e FAULT_FLAG_COMMS_TIMEOUT
         else osEventFlagsClear r e FAULT_FLAG_COMMS_TIMEOUT)"

lemma word_set_clear:
  fixes x a b :: "'a::len word"
  shows "(x OR a) OR b = (x AND NOT (a OR b)) OR a OR b"
    "(x AND NOT a) OR b = (x AND NOT (a OR b)) OR 0 OR b"
    "(x AND NOT a) AND NOT b = (x AND NOT (a OR b)) OR 0 OR 0"
    "a AND b = 0 \<Longrightarrow> (x OR a) AND NOT b = (x AND NOT (a OR b)) OR a OR 0"
  by (auto simp: bit_eq_iff bit_simps)

lemma health_flags_get:
  assumes "flag_laws r"
  shows "osEventFlagsGet r (health_flags r low lost e) =
    (osEventFlagsGet r e AND NOT 0x28) OR (if low then 0x20 else 0) OR (if lost then 8 else 0)"
proof -
  have ok: "event_flags_ok FAULT_FLAG_STACK_OVERFLOW" "event_flags_ok FAULT_FLAG_COMMS_TIMEOUT"
    by (simp_all add: event_flags_ok_def flag_defs)
  have c: "FAULT_FLAG_STACK_OVERFLOW = 0x20" "FAULT_FLAG_COMMS_TIMEOUT = 8"
    by (simp_all add: flag_defs)
  note laws = flags_after_set [OF assms ok(1)] flags_after_set [OF assms ok(2)]
    flags_after_clear [OF assms ok(1)] flags_after_clear [OF assms ok(2)]
  have b: "(0x28 :: u32) = 0x20 OR 8" "(0x20 :: u32) AND 8 = 0" by simp_all
  show ?thesis
    unfolding health_flags_def Let_def b(1)
    by (cases low; cases lost;
        (simp only: if_True if_False c laws [unfolded c], rule word_set_clear(1-3) word_set_clear(4) [OF b(2)]))
qed

lemma health_checks_eq:
  "health_checks r hwm heap now sensor t e =
     (let m = stack_mark hwm; reg = s_registry t;
          e1 = health_flags r (stack_low hwm reg) (comms_lost now (s_last_packet_ms sensor)) e
      in (t\<lparr>s_snapshot := (s_snapshot t)
             \<lparr>hs_timestamp_ms := now, hs_hwm_sensor := m (reg_sensor_task reg),
              hs_hwm_fsm := m (reg_fsm_task reg), hs_hwm_telemetry := m (reg_telemetry_task reg),
              hs_hwm_health := m (reg_health_task reg), hs_free_heap_bytes := heap,
              hs_fault_flags := ucast (osEventFlagsGet r e1)\<rparr>\<rparr>, e1))"
  by (simp add: health_checks_def health_flags_def stack_low_def comms_lost_def Let_def
      HEALTH_STACK_MIN_HWM_def COMMS_TIMEOUT_MS_def sensor_task_get_last_rx_ms_def
      fsm_task_get_fault_flags_def)

text \<open>The report for a snapshot.\<close>

definition snapshot_report :: "health_snapshot \<Rightarrow> pkt_health_report" where
  "snapshot_report s =
     \<lparr>hr_timestamp_ms = hs_timestamp_ms s, hr_cpu_load_pct = 0, hr_hwm_sensor = hs_hwm_sensor s,
      hr_hwm_fsm = hs_hwm_fsm s, hr_hwm_telemetry = hs_hwm_telemetry s,
      hr_hwm_health = hs_hwm_health s, hr_free_heap_bytes = hs_free_heap_bytes s\<rparr>"

lemma health_report_eqs:
  assumes "health_report now tick f t tx bb = (t', tx', bb')"
    "length (health_tx_buf t) = 134" "hs_timestamp_ms (s_snapshot t) = now"
  shows "tx' = tx @ [wire_frame PKT_TYPE_HEALTH_REPORT
        (pkt_health_report_bytes (snapshot_report (s_snapshot t)))]"
    "last_report_ms t' = now" "s_snapshot t' = s_snapshot t" "s_registry t' = s_registry t"
    "length (health_tx_buf t') = 134"
    "if now - last_bb_ms t \<ge> 5000 then last_bb_ms t' = now \<and>
       (\<exists>a. bb' = blackbox_log a bb \<and> arg_type a = BB_EVT_HEALTH_SNAPSHOT)
     else last_bb_ms t' = last_bb_ms t \<and> bb' = bb"
proof -
  let ?p = "pkt_health_report_bytes (snapshot_report (s_snapshot t))"
  let ?w = "wire_frame PKT_TYPE_HEALTH_REPORT ?p"
  have lw: "length ?w = 23" by (simp add: len_simps)
  have b: "proto_build_health (snapshot_report (s_snapshot t)) (health_tx_buf t) 134 =
      (23, ?w @ drop 23 (health_tx_buf t))"
    using build_frame_struct [of ?p 134 "health_tx_buf t"] assms(2)
    by (simp add: proto_build_health_def len_simps Let_def)
  have sr: "snapshot_report (s_snapshot t) =
      \<lparr>hr_timestamp_ms = now, hr_cpu_load_pct = 0, hr_hwm_sensor = hs_hwm_sensor (s_snapshot t),
       hr_hwm_fsm = hs_hwm_fsm (s_snapshot t), hr_hwm_telemetry = hs_hwm_telemetry (s_snapshot t),
       hr_hwm_health = hs_hwm_health (s_snapshot t),
       hr_free_heap_bytes = hs_free_heap_bytes (s_snapshot t)\<rparr>"
    by (simp add: snapshot_report_def assms(3))
  let ?t1 = "t\<lparr>last_report_ms := now, health_tx_buf := ?w @ drop 23 (health_tx_buf t)\<rparr>"
  have tk: "take (unat (23 :: u16)) (?w @ drop 23 (health_tx_buf t)) = ?w" using lw by simp
  obtain a where a: "arg_type a = BB_EVT_HEALTH_SNAPSHOT"
    "health_report now tick f t tx bb =
      (if now - last_bb_ms t \<ge> 5000 then (?t1\<lparr>last_bb_ms := now\<rparr>, tx @ [?w], blackbox_log a bb)
       else (?t1, tx @ [?w], bb))"
  proof
    show "health_report now tick f t tx bb =
      (if now - last_bb_ms t \<ge> 5000 then (?t1\<lparr>last_bb_ms := now\<rparr>, tx @ [?w], blackbox_log
          \<lparr>arg_tick = tick, arg_type = BB_EVT_HEALTH_SNAPSHOT, arg_state = fsm_task_get_state f,
           arg_fault_flags = hs_fault_flags (s_snapshot t), arg_sensor_status = 0,
           arg_voltage = 0, arg_altitude = 0, arg_accel_mag = 0,
           arg_msg = Some (c_str ''health ok'')\<rparr> bb)
       else (?t1, tx @ [?w], bb))"
      using tk by (simp add: health_report_def proto_sizes sr [symmetric] b Let_def)
  qed simp
  from a(2) assms(1) show "tx' = tx @ [?w]" "last_report_ms t' = now" "s_snapshot t' = s_snapshot t"
    "s_registry t' = s_registry t" "length (health_tx_buf t') = 134"
    using assms(2) lw by (simp_all split: if_splits)
  from a assms(1) show "if now - last_bb_ms t \<ge> 5000 then last_bb_ms t' = now \<and>
       (\<exists>a. bb' = blackbox_log a bb \<and> arg_type a = BB_EVT_HEALTH_SNAPSHOT)
     else last_bb_ms t' = last_bb_ms t \<and> bb' = bb"
    by (auto split: if_splits)
qed

text \<open>A pass on the whole: the event flags, the snapshot, and whether it reports.\<close>

lemma task_health_pass_cases:
  assumes pass: "task_health_pass r hwm heap now tick sensor f (t, g) = (t', g')"
  defines "e \<equiv> health_flags r (stack_low hwm (s_registry t))
      (comms_lost now (s_last_packet_ms sensor)) (g_fault_flags g)"
  obtains t1 where "hs_timestamp_ms (s_snapshot t1) = now" "health_tx_buf t1 = health_tx_buf t"
      "last_report_ms t1 = last_report_ms t" "last_bb_ms t1 = last_bb_ms t"
      "s_registry t1 = s_registry t"
      "hs_fault_flags (s_snapshot t1) = ucast (osEventFlagsGet r e)"
      "g_fault_flags g' = e" "g_sensor_queue g' = g_sensor_queue g"
      "if now - last_report_ms t \<ge> 1000
       then health_report now tick f t1 (huart2_tx g) (g_blackbox g) = (t', huart2_tx g', g_blackbox g')
       else t' = t1 \<and> huart2_tx g' = huart2_tx g \<and> g_blackbox g' = g_blackbox g"
proof -
  let ?c = "health_checks r hwm heap now sensor t (g_fault_flags g)"
  define t1 where "t1 = fst ?c"
  have c: "?c = (t1, e)"
    unfolding t1_def health_checks_eq e_def Let_def fst_conv by (rule refl)
  have t1: "hs_timestamp_ms (s_snapshot t1) = now" "health_tx_buf t1 = health_tx_buf t"
    "last_report_ms t1 = last_report_ms t" "last_bb_ms t1 = last_bb_ms t"
    "s_registry t1 = s_registry t" "hs_fault_flags (s_snapshot t1) = ucast (osEventFlagsGet r e)"
    unfolding t1_def health_checks_eq e_def Let_def by simp_all
  obtain t2 tx bb where h: "health_report now tick f t1 (huart2_tx g) (g_blackbox g) = (t2, tx, bb)"
    by (cases "health_report now tick f t1 (huart2_tx g) (g_blackbox g)" rule: prod_cases3)
  have eq: "(t', g') = (if now - last_report_ms t \<ge> 1000
      then (t2, g\<lparr>g_fault_flags := e, huart2_tx := tx, g_blackbox := bb\<rparr>)
      else (t1, g\<lparr>g_fault_flags := e\<rparr>))"
    unfolding pass [symmetric] task_health_pass_def
    by (simp add: c h t1(3) HEALTH_REPORT_PERIOD_MS_def)
  show ?thesis
  proof (rule that [OF t1])
    show "g_fault_flags g' = e" "g_sensor_queue g' = g_sensor_queue g"
      using eq by (simp_all split: if_splits)
    show "if now - last_report_ms t \<ge> 1000
       then health_report now tick f t1 (huart2_tx g) (g_blackbox g) = (t', huart2_tx g', g_blackbox g')
       else t' = t1 \<and> huart2_tx g' = huart2_tx g \<and> g_blackbox g' = g_blackbox g"
      using eq h by (cases "now - last_report_ms t \<ge> 1000") simp_all
  qed
qed

section \<open>Properties\<close>

definition example_health_task :: "nat health_task" where
  "example_health_task =
     \<lparr>s_registry = \<lparr>reg_sensor_task = Some 1, reg_fsm_task = Some 2, reg_telemetry_task = Some 3,
                    reg_health_task = None\<rparr>,
      s_snapshot = health_snapshot_zero, health_tx_buf = replicate 134 0, last_report_ms = 0,
      last_bb_ms = 0\<rparr>"

text \<open>C37: A pass of the health task leaves the event flags as they were except for its two faults:
  the stack fault is set exactly when the mark of one of the four tasks is below 32, an
  unregistered one counting as 0, the comms fault exactly when a packet was received and the last
  one is more than a second old; the snapshot holds the resulting fault byte.\<close>

theorem health_pass_flags:
  fixes r :: "('q, 'e) rtos"
  assumes "flag_laws r" "length (health_tx_buf t) = 134"
    and "task_health_pass r hwm heap now tick sensor f (t, g) = (t', g')"
  shows "osEventFlagsGet r (g_fault_flags g') =
      (osEventFlagsGet r (g_fault_flags g) AND NOT 0x28) OR
      (if stack_low hwm (s_registry t) then 0x20 else 0) OR
      (if comms_lost now (s_last_packet_ms sensor) then 8 else 0) \<and>
    hs_fault_flags (s_snapshot t') = ucast (osEventFlagsGet r (g_fault_flags g')) \<and>
    hs_timestamp_ms (s_snapshot t') = now"
proof (rule task_health_pass_cases [OF assms(3)])
  fix t1
  assume t1: "hs_timestamp_ms (s_snapshot t1) = now" "health_tx_buf t1 = health_tx_buf t"
    "hs_fault_flags (s_snapshot t1) = ucast (osEventFlagsGet r (health_flags r
       (stack_low hwm (s_registry t)) (comms_lost now (s_last_packet_ms sensor)) (g_fault_flags g)))"
    and e: "g_fault_flags g' = health_flags r (stack_low hwm (s_registry t))
       (comms_lost now (s_last_packet_ms sensor)) (g_fault_flags g)"
    and c: "if now - last_report_ms t \<ge> 1000
       then health_report now tick f t1 (huart2_tx g) (g_blackbox g) = (t', huart2_tx g', g_blackbox g')
       else t' = t1 \<and> huart2_tx g' = huart2_tx g \<and> g_blackbox g' = g_blackbox g"
  have "s_snapshot t' = s_snapshot t1"
    using c health_report_eqs(3) [of now tick f t1 "huart2_tx g" "g_blackbox g" t' "huart2_tx g'"
        "g_blackbox g'"] t1(1,2) assms(2)
    by (simp split: if_splits)
  then show ?thesis
    using t1(1,3) by (simp add: e health_flags_get [OF assms(1)])
qed

theorem health_pass_flags_witness:
  "\<exists>t' g'. task_health_pass list_rtos (\<lambda>h. 100) 9000 500 501 (example_sensor_task proto_rx_zero)
      (example_fsm_task FLIGHT_STATE_INIT) (example_health_task, example_globals [] 1) = (t', g') \<and>
     osEventFlagsGet list_rtos (g_fault_flags g') = 0x21"
proof -
  obtain t' g' where p: "task_health_pass list_rtos (\<lambda>h. 100) 9000 500 501
      (example_sensor_task proto_rx_zero) (example_fsm_task FLIGHT_STATE_INIT)
      (example_health_task, example_globals [] 1) = (t', g')"
    by (metis surj_pair)
  have l: "length (health_tx_buf example_health_task) = 134" by (simp add: example_health_task_def)
  have "stack_low (\<lambda>h. 100) (s_registry example_health_task)"
    by (simp add: stack_low_def stack_mark_def example_health_task_def)
  moreover have "\<not> comms_lost 500 (s_last_packet_ms (example_sensor_task proto_rx_zero))"
    by (simp add: comms_lost_def example_sensor_task_def)
  ultimately have "osEventFlagsGet list_rtos (g_fault_flags g') = 0x21"
    using health_pass_flags [OF list_rtos_flags l p] by (simp add: list_rtos_def)
  with p show ?thesis by blast
qed

text \<open>The health report is periodic: a pass sends exactly one report frame, with the values of
  its snapshot, when a second or more has passed since the last one, and nothing otherwise, and
  it logs at most one record, only together with a report.\<close>

lemma health_pass_reports:
  assumes "length (health_tx_buf t) = 134"
    and "task_health_pass r hwm heap now tick sensor f (t, g) = (t', g')"
  shows "if now - last_report_ms t \<ge> 1000
    then huart2_tx g' = huart2_tx g @ [wire_frame PKT_TYPE_HEALTH_REPORT
           (pkt_health_report_bytes (snapshot_report (s_snapshot t')))] \<and> last_report_ms t' = now \<and>
         (if now - last_bb_ms t \<ge> 5000 then \<exists>a. g_blackbox g' = blackbox_log a (g_blackbox g)
          else g_blackbox g' = g_blackbox g)
    else huart2_tx g' = huart2_tx g \<and> g_blackbox g' = g_blackbox g \<and>
         last_report_ms t' = last_report_ms t"
proof (rule task_health_pass_cases [OF assms(2)])
  fix t1
  assume t1: "hs_timestamp_ms (s_snapshot t1) = now" "health_tx_buf t1 = health_tx_buf t"
    "last_report_ms t1 = last_report_ms t" "last_bb_ms t1 = last_bb_ms t"
    and c: "if now - last_report_ms t \<ge> 1000
       then health_report now tick f t1 (huart2_tx g) (g_blackbox g) = (t', huart2_tx g', g_blackbox g')
       else t' = t1 \<and> huart2_tx g' = huart2_tx g \<and> g_blackbox g' = g_blackbox g"
  show ?thesis
  proof (cases "now - last_report_ms t \<ge> 1000")
    case True
    with c have "health_report now tick f t1 (huart2_tx g) (g_blackbox g) =
        (t', huart2_tx g', g_blackbox g')" by simp
    note eq = health_report_eqs [OF this _ t1(1), unfolded t1(2), OF assms(1)]
    from True eq(1,2,3,6) t1(4) show ?thesis by (auto split: if_splits)
  next
    case False
    with c t1(3) show ?thesis by simp
  qed
qed

end
