(* ===== verification/FirmwareSystem.thy ===== *)
theory FirmwareSystem
  imports TaskSensor TaskTelemetry TaskHealth
begin

text \<open>
  The firmware as a whole, \<open>Firmware/Core/Src/main.c\<close> and the four tasks: what \<open>main\<close> sets
  up, and the step relation \<open>fw_step\<close>, whose steps are a received byte (the interrupt) and one
  pass of a task (\<open>fw_pass\<close>), with whatever tick counts and operating-system answers, in any order.  A pass
  is taken as one step; \<open>Preemption\<close> cuts the passes into the pieces that may interleave.

  \<open>fw_run\<close> are the reachable states.  \<open>fw_inv\<close> holds in all of them: the recorder and the
  receiver are well-formed, the queue holds at most one sample, the flight state is INIT,
  PREFLIGHT or FAULT, and every transmitted buffer is a wire frame.
\<close>

section \<open>State and start\<close>

record ('q, 'e, 'h) firmware =
  fw_globals :: "('q, 'e) globals"
  fw_sensor :: sensor_task
  fw_fsm :: fsm_task
  fw_telemetry :: telemetry_task
  fw_health :: "'h health_task"

text \<open>Static objects start as zero; state 0 of the receiver waits for a frame.\<close>

definition sensor_task_zero :: sensor_task where
  "sensor_task_zero =
     \<lparr>s_rx_ctx = \<lparr>rx_state = RX_STATE_WAIT_SOF, rx_frame = proto_frame_zero, payload_idx = 0,
                  crc_lo = 0\<rparr>,
      s_uart_rx_byte = 0, s_latest = sensor_data_zero, s_last_packet_ms = 0, s_packet_count = 0,
      s_crc_error_count = 0, s_byte_ready = False, comms_warn_logged = 0\<rparr>"

definition fsm_task_zero :: fsm_task where
  "fsm_task_zero =
     \<lparr>s_fsm = \<lparr>current_state = FLIGHT_STATE_INIT, previous_state = FLIGHT_STATE_INIT,
               last_event = 0, state_entry_ms = 0, ctx_fault_flags = 0, transition_count = 0\<rparr>,
      s_last_sensors = sensor_data_zero\<rparr>"

definition blackbox_zero :: blackbox where
  "blackbox_zero =
     \<lparr>entries = replicate (unat BLACKBOX_CAPACITY) bb_record_zero, write_idx = 0, read_idx = 0,
      bb_count = 0, sequence = 0, overflow = False\<rparr>"

text \<open>\<open>main\<close> up to \<open>osKernelStart\<close>: \<open>q\<close> and \<open>e\<close> are the queue and the event flags the
  operating system created, \<open>reg\<close> holds the task handles.\<close>

definition firmware_main :: "'q \<Rightarrow> 'e \<Rightarrow> 'h task_registry \<Rightarrow> ('q, 'e, 'h) firmware" where
  "firmware_main q e reg =
     \<lparr>fw_globals = \<lparr>g_sensor_queue = q, g_fault_flags = e, g_blackbox = blackbox_init blackbox_zero,
                    huart2_tx = []\<rparr>,
      fw_sensor = sensor_task_zero, fw_fsm = fsm_task_zero,
      fw_telemetry = \<lparr>tx_buf = replicate PROTO_MAX_FRAME 0, snap = sensor_data_zero\<rparr>,
      fw_health = health_init reg
        \<lparr>s_registry = reg, s_snapshot = health_snapshot_zero,
         health_tx_buf = replicate PROTO_MAX_FRAME 0, last_report_ms = 0, last_bb_ms = 0\<rparr>\<rparr>"

text \<open>The two tasks of higher priority run their first part before the others, in the order of
  their creation.\<close>

definition firmware_boot :: "u32 \<Rightarrow> 'q \<Rightarrow> 'e \<Rightarrow> 'h task_registry \<Rightarrow> ('q, 'e, 'h) firmware" where
  "firmware_boot tick q e reg =
     (let fw = firmware_main q e reg;
          (sensor, g) = task_sensor_start tick (fw_sensor fw, fw_globals fw)
      in fw\<lparr>fw_sensor := sensor, fw_globals := g, fw_fsm := task_fsm_start (fw_fsm fw)\<rparr>)"

section \<open>Steps\<close>

inductive fw_pass ::
    "('q, 'e) rtos \<Rightarrow> ('q, 'e, 'h) firmware \<Rightarrow> ('q, 'e, 'h) firmware \<Rightarrow> bool"
  for r :: "('q, 'e) rtos" where
  sensor: "task_sensor_pass r now1 now tick (fw_sensor fw, fw_globals fw) = (t, g) \<Longrightarrow>
    fw_pass r fw (fw\<lparr>fw_sensor := t, fw_globals := g\<rparr>)"
| fsm: "task_fsm_pass r now tick1 tick2 (fw_fsm fw, fw_globals fw) = (t, g) \<Longrightarrow>
    fw_pass r fw (fw\<lparr>fw_fsm := t, fw_globals := g\<rparr>)"
| telemetry: "length stack = 54 \<Longrightarrow>
    task_telemetry_pass r stack (fw_fsm fw) (fw_telemetry fw, fw_globals fw) = (t, g) \<Longrightarrow>
    fw_pass r fw (fw\<lparr>fw_telemetry := t, fw_globals := g\<rparr>)"
| health: "task_health_pass r hwm heap now tick (fw_sensor fw) (fw_fsm fw)
      (fw_health fw, fw_globals fw) = (t, g) \<Longrightarrow>
    fw_pass r fw (fw\<lparr>fw_health := t, fw_globals := g\<rparr>)"

inductive fw_step ::
    "('q, 'e) rtos \<Rightarrow> ('q, 'e, 'h) firmware \<Rightarrow> ('q, 'e, 'h) firmware \<Rightarrow> bool"
  for r :: "('q, 'e) rtos" where
  receive: "fw_step r fw (fw\<lparr>fw_sensor := uart_receive (fw_sensor fw) b\<rparr>)"
| pass: "fw_pass r fw fw' \<Longrightarrow> fw_step r fw fw'"

inductive_cases fw_step_cases: "fw_step r fw fw'"

inductive fw_run ::
    "('q, 'e) rtos \<Rightarrow> ('q \<Rightarrow> sensor_data list) \<Rightarrow> ('q, 'e, 'h) firmware \<Rightarrow> bool"
  for r :: "('q, 'e) rtos" and queue :: "'q \<Rightarrow> sensor_data list" where
  boot: "queue q = [] \<Longrightarrow> fw_run r queue (firmware_boot tick q e reg)"
| step: "fw_run r queue fw \<Longrightarrow> fw_step r fw fw' \<Longrightarrow> fw_run r queue fw'"

section \<open>Invariant\<close>

definition sent_frame :: "byte list \<Rightarrow> bool" where
  "sent_frame b \<longleftrightarrow>
     (\<exists>t p. b = wire_frame t p \<and> length p \<le> PROTO_MAX_PAYLOAD \<and>
        t \<in> {PKT_TYPE_TELEMETRY, PKT_TYPE_HEARTBEAT_ACK, PKT_TYPE_BLACKBOX_ENTRY,
              PKT_TYPE_HEALTH_REPORT})"

definition grounded :: "fsm_ctx \<Rightarrow> bool" where
  "grounded ctx \<longleftrightarrow>
     current_state ctx \<in> {FLIGHT_STATE_INIT, FLIGHT_STATE_PREFLIGHT, FLIGHT_STATE_FAULT} \<and>
     ctx_fault_flags ctx AND 7 = ctx_fault_flags ctx"

definition globals_ok :: "('q \<Rightarrow> sensor_data list) \<Rightarrow> ('q, 'e) globals \<Rightarrow> bool" where
  "globals_ok queue g \<longleftrightarrow>
     bb_inv (g_blackbox g) \<and> length (queue (g_sensor_queue g)) \<le> 1 \<and>
     (\<forall>b \<in> set (huart2_tx g). sent_frame b)"

definition fw_inv :: "('q \<Rightarrow> sensor_data list) \<Rightarrow> ('q, 'e, 'h) firmware \<Rightarrow> bool" where
  "fw_inv queue fw \<longleftrightarrow>
     globals_ok queue (fw_globals fw) \<and>
     rx_inv (s_rx_ctx (fw_sensor fw)) \<and>
     fsm_inv (s_fsm (fw_fsm fw)) \<and> grounded (s_fsm (fw_fsm fw)) \<and>
     length (tx_buf (fw_telemetry fw)) = 134 \<and> length (health_tx_buf (fw_health fw)) = 134"

text \<open>Without commands the machine stays on the ground.\<close>

lemma fsm_tick_grounded:
  assumes "grounded ctx" "f AND 7 = f"
  shows "grounded (fst (fsm_tick ctx s f now tick bb))"
proof -
  have c: "current_state ctx \<in> {FLIGHT_STATE_INIT, FLIGHT_STATE_PREFLIGHT, FLIGHT_STATE_FAULT}"
    using assms(1) by (simp add: grounded_def)
  then have "proper_state (current_state ctx)" by auto
  then show ?thesis
  proof (rule fsm_tick_cases [of ctx s f now tick bb])
    fix t e
    assume "transition_legal (current_state ctx) t e" "sensed e s f"
      "fsm_tick ctx s f now tick bb = (moved_ctx (ctx\<lparr>ctx_fault_flags := f\<rparr>) t e now,
        blackbox_log (moved_args (ctx\<lparr>ctx_fault_flags := f\<rparr>) t (Some s) tick) bb, True)"
    with c assms(2) show ?thesis
      by (cases e) (auto simp: grounded_def moved_ctx_def transition_legal_iff)
  qed (use c assms(2) in \<open>simp add: grounded_def\<close>)
qed

lemma handle_frame_sent:
  assumes "handle_frame r now f (t, g) = (t', g')" "\<forall>b \<in> set (huart2_tx g). sent_frame b"
  shows "\<forall>b \<in> set (huart2_tx g'). sent_frame b"
proof -
  have "huart2_tx g' \<in> {huart2_tx g, huart2_tx g @ [heartbeat_ack]}"
    using assms(1) by (auto simp: handle_frame_def Let_def split: if_splits option.splits)
  moreover have "sent_frame heartbeat_ack"
    unfolding sent_frame_def heartbeat_ack_eq
    by (intro exI [of _ PKT_TYPE_HEARTBEAT_ACK] exI [of _ "[0xAC]"]) (simp add: proto_sizes)
  ultimately show ?thesis using assms(2) by auto
qed

lemma task_sensor_pass_sent:
  assumes "task_sensor_pass r now1 now tick (t, g) = (t', g')" "\<forall>b \<in> set (huart2_tx g). sent_frame b"
  shows "\<forall>b \<in> set (huart2_tx g'). sent_frame b"
proof (cases "s_byte_ready t")
  case False
  with assms show ?thesis by (auto simp: task_sensor_pass_def Let_def split: if_splits)
next
  case True
  obtain t1 g1 where h: "handle_frame r now1 (rx_frame (s_rx_ctx t)) (t\<lparr>s_byte_ready := False\<rparr>, g) = (t1, g1)"
    by (metis surj_pair)
  have "huart2_tx g' = huart2_tx g1"
    using assms(1) True unfolding task_sensor_pass_def fst_conv snd_conv h
    by (auto simp: Let_def h split: if_splits)
  with handle_frame_sent [OF h assms(2)] show ?thesis by simp
qed

lemma sent_frame_telemetry: "sent_frame (wire_frame PKT_TYPE_TELEMETRY (pkt_telemetry_bytes k))"
  unfolding sent_frame_def
  by (intro exI [of _ PKT_TYPE_TELEMETRY] exI [of _ "pkt_telemetry_bytes k"])
    (simp add: proto_sizes len_simps)

lemma sent_frame_health: "sent_frame (wire_frame PKT_TYPE_HEALTH_REPORT (pkt_health_report_bytes k))"
  unfolding sent_frame_def
  by (intro exI [of _ PKT_TYPE_HEALTH_REPORT] exI [of _ "pkt_health_report_bytes k"])
    (simp add: proto_sizes len_simps)

lemma sent_frame_record: "rec_ok rec \<Longrightarrow> sent_frame (record_frame rec)"
  unfolding sent_frame_def record_frame_def
  by (intro exI [of _ PKT_TYPE_BLACKBOX_ENTRY]
      exI [of _ "pkt_blackbox_entry_bytes (blackbox_packet rec)"])
    (simp add: proto_sizes length_blackbox_packet)

lemma drain_records_ok: "bb_inv bb \<Longrightarrow> rec \<in> set (fst (drain blackbox_read n bb)) \<Longrightarrow> rec_ok rec"
  using bb.drain_ready [of bb n] bb.drain_not_ready [of bb n] bb_stored_ok [of bb]
  by (cases "bb_ready bb") (auto dest: in_set_takeD)

section \<open>Every step keeps the invariant\<close>

lemma globals_ok_sensor_pass:
  assumes "queue_laws r queue" "globals_ok queue g"
    and pass: "task_sensor_pass r now1 now tick (t, g) = (t', g')"
  shows "globals_ok queue g'"
  using assms(2) task_sensor_pass_queue [OF assms(1) _ pass] task_sensor_pass_keeps(4) [OF pass]
    task_sensor_pass_sent [OF pass]
  by (auto simp: globals_ok_def)

lemma globals_ok_fsm_pass:
  assumes "queue_laws r queue" "globals_ok queue g" "fsm_inv (s_fsm t)"
    and pass: "task_fsm_pass r now tick1 tick2 (t, g) = (t', g')"
  shows "globals_ok queue g'"
  using assms(2) task_fsm_pass_bb_inv [OF pass assms(3)] task_fsm_pass_eqs(3,4) [OF pass]
    queue_after_get [OF assms(1), of "g_sensor_queue g"]
  by (auto simp: globals_ok_def)

lemma globals_ok_telemetry_pass:
  assumes "globals_ok queue g" "length stack = 54" "length (tx_buf t) = 134"
    and pass: "task_telemetry_pass r stack f (t, g) = (t', g')"
  shows "globals_ok queue g' \<and> length (tx_buf t') = 134"
proof -
  have inv: "bb_inv (g_blackbox g)" using assms(1) by (simp add: globals_ok_def)
  note eq = task_telemetry_pass_eq [OF inv assms(2,3) pass]
  have "\<forall>b \<in> set (huart2_tx g'). sent_frame b"
    using assms(1) drain_records_ok [OF inv] sent_frame_telemetry sent_frame_record
    unfolding eq(1) globals_ok_def by auto
  with assms(1) eq bb.drain_inv [OF inv] show ?thesis by (simp add: globals_ok_def)
qed

lemma globals_ok_health_pass:
  assumes "globals_ok queue g" "length (health_tx_buf t) = 134"
    and pass: "task_health_pass r hwm heap now tick sensor f (t, g) = (t', g')"
  shows "globals_ok queue g' \<and> length (health_tx_buf t') = 134"
proof (rule task_health_pass_cases [OF pass])
  fix t1
  assume t1: "hs_timestamp_ms (s_snapshot t1) = now" "health_tx_buf t1 = health_tx_buf t"
    and q: "g_sensor_queue g' = g_sensor_queue g"
    and c: "if now - last_report_ms t \<ge> 1000
       then health_report now tick f t1 (huart2_tx g) (g_blackbox g) = (t', huart2_tx g', g_blackbox g')
       else t' = t1 \<and> huart2_tx g' = huart2_tx g \<and> g_blackbox g' = g_blackbox g"
  show ?thesis
  proof (cases "now - last_report_ms t \<ge> 1000")
    case True
    with c have "health_report now tick f t1 (huart2_tx g) (g_blackbox g) =
        (t', huart2_tx g', g_blackbox g')" by simp
    note eq = health_report_eqs [OF this _ t1(1), unfolded t1(2), OF assms(2)]
    have "bb_inv (g_blackbox g')"
      using eq(6) assms(1) by (auto simp: globals_ok_def split: if_splits intro: bb_inv_log)
    with eq(1,5) assms(1) q sent_frame_health show ?thesis by (auto simp: globals_ok_def)
  next
    case False
    with c t1 q assms show ?thesis by (simp add: globals_ok_def)
  qed
qed

lemma fw_pass_inv:
  assumes "fw_pass r fw fw'" "queue_laws r queue" "fw_inv queue fw"
  shows "fw_inv queue fw'"
  using assms(1)
proof cases
  case (sensor now1 now tick t g)
  then show ?thesis
    using assms(3) globals_ok_sensor_pass [OF assms(2) _ sensor(2)]
      task_sensor_pass_keeps(1) [OF sensor(2)]
    by (simp add: fw_inv_def)
next
  case (fsm now tick1 tick2 t g)
  let ?s = "pass_sample r (fw_fsm fw) (g_sensor_queue (fw_globals fw))"
  have "grounded (s_fsm t)"
    unfolding task_fsm_pass_eqs(2) [OF fsm(2)]
    using assms(3) by (intro fsm_tick_grounded evaluate_faults_small) (simp add: fw_inv_def)
  with fsm show ?thesis
    using assms(3) globals_ok_fsm_pass [OF assms(2) _ _ fsm(2)] task_fsm_pass_fsm_inv [OF fsm(2)]
    by (simp add: fw_inv_def)
next
  case (telemetry stack t g)
  then show ?thesis
    using assms(3) globals_ok_telemetry_pass [of queue, OF _ telemetry(2) _ telemetry(3)]
    by (simp add: fw_inv_def)
next
  case (health hwm heap now tick t g)
  then show ?thesis
    using assms(3) globals_ok_health_pass [of queue, OF _ _ health(2)] by (simp add: fw_inv_def)
qed

lemma fw_step_inv:
  assumes "fw_step r fw fw'" "queue_laws r queue" "fw_inv queue fw"
  shows "fw_inv queue fw'"
  using assms(1)
proof (rule fw_step_cases)
  fix b assume "fw' = fw\<lparr>fw_sensor := uart_receive (fw_sensor fw) b\<rparr>"
  then show ?thesis
    using assms(3) rx_feed_inv [of "s_rx_ctx (fw_sensor fw)" b]
    by (simp add: fw_inv_def uart_receive_def HAL_UART_RxCpltCallback_def split_beta Let_def)
next
  assume "fw_pass r fw fw'"
  then show ?thesis using assms(2,3) by (rule fw_pass_inv)
qed

lemma firmware_boot_inv:
  assumes "queue q = []"
  shows "fw_inv queue (firmware_boot tick q e reg)"
  using assms
  by (simp add: firmware_boot_def firmware_main_def task_sensor_start_def task_fsm_start_def
      fw_inv_def globals_ok_def grounded_def health_init_def proto_sizes bb_inv_log Let_def)
    (simp add: fsm_init_def)

lemma fw_run_inv:
  assumes "fw_run r queue fw" "queue_laws r queue"
  shows "fw_inv queue fw"
  using assms(1)
proof induction
  case (boot q tick e reg)
  then show ?case by (rule firmware_boot_inv)
next
  case (step fw fw')
  then show ?case using fw_step_inv assms(2) by blast
qed

section \<open>The output stream\<close>

text \<open>A receiver that starts between frames accepts each frame of a stream of frames, at its
  last byte.\<close>

lemma rx_run_frames:
  assumes "rx_inv ctx" "rx_pending ctx = []" "\<forall>b \<in> set tx. sent_frame b"
  shows "snd (rx_run ctx (concat tx)) = concat (map (\<lambda>b. replicate (length b - 1) False @ [True]) tx)"
  using assms
proof (induction tx arbitrary: ctx)
  case (Cons b tx)
  from Cons.prems(3) obtain t p where b: "b = wire_frame t p" "length p \<le> PROTO_MAX_PAYLOAD"
    by (auto simp: sent_frame_def)
  note acc = rx_run_wire_frame [OF Cons.prems(1,2) b(2), of t]
  have inv: "rx_inv (fst (rx_run ctx (wire_frame t p)))" using Cons.prems(1) by (rule rx_run_inv)
  have "length (wire_frame t p) - 1 = 5 + length p" by (simp add: len_simps)
  then show ?case
    using acc(1) Cons.IH [OF inv acc(2)] Cons.prems(3)
    by (simp add: rx_run_append split_beta Let_def b(1))
qed simp

section \<open>Properties\<close>

definition example_registry :: "nat task_registry" where
  "example_registry =
     \<lparr>reg_sensor_task = Some 1, reg_fsm_task = Some 2, reg_telemetry_task = Some 3,
      reg_health_task = Some 4\<rparr>"

definition example_firmware :: "(sensor_data list, u32, nat) firmware" where
  "example_firmware = firmware_boot 0 [] 0 example_registry"

lemma example_run: "fw_run list_rtos (take SENSOR_QUEUE_LEN) example_firmware"
  unfolding example_firmware_def by (rule fw_run.boot) simp

text \<open>However received bytes and task passes interleave from power-up, every shared object stays
  well-formed: the recorder's indices and the receiver's payload index are in bounds, the sample
  queue never holds more than one sample, and the last transition of the machine is a row of its
  table.\<close>

lemma firmware_stays_well_formed:
  fixes r :: "('q, 'e) rtos" and fw :: "('q, 'e, 'h) firmware"
  assumes "fw_run r queue fw" "queue_laws r queue"
  shows "bb_inv (g_blackbox (fw_globals fw)) \<and> rx_inv (s_rx_ctx (fw_sensor fw)) \<and>
    length (queue (g_sensor_queue (fw_globals fw))) \<le> 1 \<and> fsm_inv (s_fsm (fw_fsm fw))"
  using fw_run_inv [OF assms] by (simp add: fw_inv_def globals_ok_def)

lemma firmware_stays_well_formed_example:
  "bb_inv (g_blackbox (fw_globals example_firmware)) \<and>
   length (take SENSOR_QUEUE_LEN (g_sensor_queue (fw_globals example_firmware))) \<le> 1"
  using firmware_stays_well_formed [OF example_run list_rtos_queue] by simp

text \<open>The firmware never arms: in every reachable state the flight state is INIT, PREFLIGHT or
  FAULT, because no task issues a command.\<close>

lemma firmware_never_arms:
  fixes r :: "('q, 'e) rtos" and fw :: "('q, 'e, 'h) firmware"
  assumes "fw_run r queue fw" "queue_laws r queue"
  shows "fsm_task_get_state (fw_fsm fw) \<in>
    {FLIGHT_STATE_INIT, FLIGHT_STATE_PREFLIGHT, FLIGHT_STATE_FAULT}"
  using fw_run_inv [OF assms] by (simp add: fw_inv_def grounded_def fsm_task_get_state_def)

lemma firmware_never_arms_example:
  "fsm_task_get_state (fw_fsm example_firmware) \<in>
    {FLIGHT_STATE_INIT, FLIGHT_STATE_PREFLIGHT, FLIGHT_STATE_FAULT}"
  by (rule firmware_never_arms [OF example_run list_rtos_queue])

text \<open>The machine never learns of a comms timeout or a low stack: in every reachable state the
  fault word it was last ticked with has neither bit.\<close>

lemma firmware_machine_blind_to_comms:
  fixes r :: "('q, 'e) rtos" and fw :: "('q, 'e, 'h) firmware"
  assumes "fw_run r queue fw" "queue_laws r queue"
  shows "ctx_fault_flags (s_fsm (fw_fsm fw)) AND
    (FAULT_FLAG_COMMS_TIMEOUT OR FAULT_FLAG_STACK_OVERFLOW) = 0"
proof -
  let ?f = "ctx_fault_flags (s_fsm (fw_fsm fw))"
  have "?f AND 7 = ?f" using fw_run_inv [OF assms] by (simp add: fw_inv_def grounded_def)
  then have "?f AND 0x28 = ?f AND (7 AND 0x28)" by (metis and.assoc)
  then show ?thesis by (simp add: flag_defs)
qed

text \<open>The ground station can follow the firmware: the bytes sent on the UART since power-up are
  a sequence of wire frames, and a receiver that starts between frames accepts each of them at
  its last byte and reports nothing else.\<close>

lemma firmware_output_is_received:
  fixes r :: "('q, 'e) rtos" and fw :: "('q, 'e, 'h) firmware"
  assumes "fw_run r queue fw" "queue_laws r queue" "rx_inv ctx" "rx_pending ctx = []"
  shows "snd (rx_run ctx (concat (huart2_tx (fw_globals fw)))) =
    concat (map (\<lambda>b. replicate (length b - 1) False @ [True]) (huart2_tx (fw_globals fw)))"
  using fw_run_inv [OF assms(1,2)]
  by (intro rx_run_frames assms(3,4)) (simp add: fw_inv_def globals_ok_def)

lemma firmware_output_is_received_example:
  "\<exists>t g. task_health_pass list_rtos (\<lambda>h. 100) 9000 1000 1001 (fw_sensor example_firmware)
      (fw_fsm example_firmware) (fw_health example_firmware, fw_globals example_firmware) = (t, g) \<and>
     snd (rx_run proto_rx_zero (concat (huart2_tx g))) =
       concat (map (\<lambda>b. replicate (length b - 1) False @ [True]) (huart2_tx g))"
proof -
  obtain t g where p: "task_health_pass list_rtos (\<lambda>h. 100) 9000 1000 1001
      (fw_sensor example_firmware) (fw_fsm example_firmware)
      (fw_health example_firmware, fw_globals example_firmware) = (t, g)"
    by (metis surj_pair)
  have "fw_run list_rtos (take SENSOR_QUEUE_LEN)
      (example_firmware\<lparr>fw_health := t, fw_globals := g\<rparr>)"
    by (rule fw_run.step [OF example_run fw_step.pass [OF fw_pass.health [OF p]]])
  from firmware_output_is_received [OF this list_rtos_queue proto_rx_zero_idle] p
  show ?thesis by simp
qed

end
