(* ===== verification/FirmwareStart.thy ===== *)
theory FirmwareStart
  imports FirmwareSystem
begin

text \<open>
  The hardware side of the start-up, \<open>Firmware/Core/Src/main.c\<close>: the peripheral settings, the task
  attributes, and \<open>main\<close> around \<open>firmware_main\<close>.  The HAL initialisers and \<open>osThreadNew\<close> are
  parameters; a named constant of the HAL or of CMSIS is kept by its name.  \<open>Error_Handler\<close> disables
  the interrupts and spins: a start that calls it has no result.
\<close>

section \<open>Peripherals\<close>

datatype hal_status = HAL_OK | HAL_ERROR | HAL_BUSY | HAL_TIMEOUT

record uart_settings =
  uart_Instance :: string
  uart_BaudRate :: u32
  uart_WordLength :: string
  uart_StopBits :: string
  uart_Parity :: string
  uart_Mode :: string
  uart_HwFlowCtl :: string
  uart_OverSampling :: string

record iwdg_settings =
  iwdg_Instance :: string
  iwdg_Prescaler :: string
  iwdg_Reload :: u32
  iwdg_Window :: string

text \<open>\<open>Error_Handler\<close> and the two hooks of the operating system that call it never return: there is no
  result.  An initialiser returns the settings unless it ends there.\<close>

definition Error_Handler :: "'a option" where
  "Error_Handler = None"

definition vApplicationStackOverflowHook :: "'h \<Rightarrow> string \<Rightarrow> 'a option" where
  "vApplicationStackOverflowHook xTask pcTaskName = Error_Handler"

definition vApplicationMallocFailedHook :: "'a option" where
  "vApplicationMallocFailedHook = Error_Handler"

definition MX_USART2_UART_Init :: "(uart_settings \<Rightarrow> hal_status) \<Rightarrow> uart_settings option" where
  "MX_USART2_UART_Init hal_init =
     (let huart2 = \<lparr>uart_Instance = ''USART2'', uart_BaudRate = 115200,
            uart_WordLength = ''UART_WORDLENGTH_8B'', uart_StopBits = ''UART_STOPBITS_1'',
            uart_Parity = ''UART_PARITY_NONE'', uart_Mode = ''UART_MODE_TX_RX'',
            uart_HwFlowCtl = ''UART_HWCONTROL_NONE'', uart_OverSampling = ''UART_OVERSAMPLING_16''\<rparr>
      in if hal_init huart2 \<noteq> HAL_OK then Error_Handler else Some huart2)"

definition MX_IWDG_Init :: "(iwdg_settings \<Rightarrow> hal_status) \<Rightarrow> iwdg_settings option" where
  "MX_IWDG_Init hal_init =
     (let hiwdg = \<lparr>iwdg_Instance = ''IWDG'', iwdg_Prescaler = ''IWDG_PRESCALER_256'',
            iwdg_Reload = 125, iwdg_Window = ''IWDG_WINDOW_DISABLE''\<rparr>
      in if hal_init hiwdg \<noteq> HAL_OK then Error_Handler else Some hiwdg)"

definition MX_CRC_Init :: "(string \<Rightarrow> hal_status) \<Rightarrow> string option" where
  "MX_CRC_Init hal_init = (let hcrc = ''CRC'' in if hal_init hcrc \<noteq> HAL_OK then Error_Handler else Some hcrc)"

section \<open>Tasks\<close>

datatype os_priority = osPriorityNormal | osPriorityAboveNormal

record thread_attr =
  attr_name :: string
  attr_stack_size :: u32
  attr_priority :: os_priority

definition sensor_attr :: thread_attr where
  "sensor_attr = \<lparr>attr_name = ''SensorTask'', attr_stack_size = 512, attr_priority = osPriorityAboveNormal\<rparr>"
definition fsm_attr :: thread_attr where
  "fsm_attr = \<lparr>attr_name = ''FSMTask'', attr_stack_size = 512, attr_priority = osPriorityAboveNormal\<rparr>"
definition telemetry_attr :: thread_attr where
  "telemetry_attr = \<lparr>attr_name = ''TelemetryTask'', attr_stack_size = 512, attr_priority = osPriorityNormal\<rparr>"
definition health_attr :: thread_attr where
  "health_attr = \<lparr>attr_name = ''HealthTask'', attr_stack_size = 256, attr_priority = osPriorityNormal\<rparr>"

text \<open>The HAL and the part of the operating system \<open>main\<close> calls; \<open>osThreadNew\<close> returns no handle when
  it fails.\<close>

record 'h platform =
  HAL_UART_Init :: "uart_settings \<Rightarrow> hal_status"
  HAL_IWDG_Init :: "iwdg_settings \<Rightarrow> hal_status"
  HAL_CRC_Init :: "string \<Rightarrow> hal_status"
  osThreadNew :: "thread_attr \<Rightarrow> 'h option"

definition task_handles :: "'h platform \<Rightarrow> 'h task_registry" where
  "task_handles p =
     \<lparr>reg_sensor_task = osThreadNew p sensor_attr, reg_fsm_task = osThreadNew p fsm_attr,
      reg_telemetry_task = osThreadNew p telemetry_attr, reg_health_task = osThreadNew p health_attr\<rparr>"

text \<open>\<open>main\<close> up to \<open>osKernelStart\<close>, with the queue and the event flags the system creates.\<close>

definition mcu_main :: "'h platform \<Rightarrow> 'q \<Rightarrow> 'e \<Rightarrow> ('q, 'e, 'h) firmware option" where
  "mcu_main p q e =
     (case MX_USART2_UART_Init (HAL_UART_Init p) of None \<Rightarrow> None
      | Some huart2 \<Rightarrow>
        (case MX_IWDG_Init (HAL_IWDG_Init p) of None \<Rightarrow> None
         | Some hiwdg \<Rightarrow>
           (case MX_CRC_Init (HAL_CRC_Init p) of None \<Rightarrow> None
            | Some hcrc \<Rightarrow> Some (firmware_main q e (task_handles p)))))"

section \<open>Lemmas\<close>

lemma mcu_main_some:
  "mcu_main p q e = Some fw \<Longrightarrow> fw = firmware_main q e (task_handles p)"
  by (auto simp: mcu_main_def split: option.splits)

lemma mcu_main_starts_iff:
  "(\<exists>fw. mcu_main p q e = Some fw) \<longleftrightarrow>
     (\<exists>h. MX_USART2_UART_Init (HAL_UART_Init p) = Some h) \<and> (\<exists>w. MX_IWDG_Init (HAL_IWDG_Init p) = Some w) \<and>
     (\<exists>c. MX_CRC_Init (HAL_CRC_Init p) = Some c)"
  by (auto simp: mcu_main_def split: option.splits)

section \<open>Properties\<close>

text \<open>A task that could not be created is not an error at start-up but a permanent stack fault:
  \<open>main\<close> does not check the handles, and the health monitor takes a missing handle for a stack
  with no reserve, so that every health pass raises the stack fault, whatever the stacks of the
  other tasks are.\<close>

lemma missing_task_is_stack_fault:
  fixes r :: "('q, 'e) rtos"
  assumes "mcu_main p q e = Some fw" "a \<in> {sensor_attr, fsm_attr, telemetry_attr}"
    and "osThreadNew p a = None" "flag_laws r"
    and "s_registry t = s_registry (fw_health fw)"
    and "task_health_pass r hwm heap now tick sensor f (t, g) = (t', g')"
  shows "osEventFlagsGet r (g_fault_flags g') AND FAULT_FLAG_STACK_OVERFLOW \<noteq> 0"
proof -
  have "s_registry t = task_handles p"
    using assms(5) mcu_main_some [OF assms(1)] by (simp add: firmware_main_def health_init_def)
  then have low: "stack_low hwm (s_registry t)"
    using assms(2,3) by (auto simp: stack_low_def task_handles_def stack_mark_def)
  have g': "osEventFlagsGet r (g_fault_flags g') = (osEventFlagsGet r (g_fault_flags g) AND NOT 0x28) OR
      0x20 OR (if comms_lost now (s_last_packet_ms sensor) then 8 else 0)"
    by (rule task_health_pass_cases [OF assms(6)]) (simp add: health_flags_get [OF assms(4)] low)
  have "bit ((x OR 0x20 OR y) AND 0x20) 5" for x y :: u32
    by (simp add: bit_simps)
  then have "(x OR 0x20 OR y) AND 0x20 \<noteq> 0" for x y :: u32 by (metis bit_0_eq bot_apply bot_bool_def)
  then show ?thesis unfolding g' by (simp add: flag_defs)
qed

definition example_platform :: "nat platform" where
  "example_platform =
     \<lparr>HAL_UART_Init = (\<lambda>s. HAL_OK), HAL_IWDG_Init = (\<lambda>s. HAL_OK), HAL_CRC_Init = (\<lambda>s. HAL_OK),
      osThreadNew = (\<lambda>a. if a = telemetry_attr then None else Some 1)\<rparr>"

lemma missing_task_is_stack_fault_example:
  "\<exists>fw t' g'. mcu_main example_platform ([] :: sensor_data list) (0 :: u32) = Some fw \<and>
     task_health_pass list_rtos (\<lambda>h. 100) 9000 5000 5001 (example_sensor_task proto_rx_zero)
       (example_fsm_task FLIGHT_STATE_PREFLIGHT) (fw_health fw, example_globals [] 0) = (t', g') \<and>
     osEventFlagsGet list_rtos (g_fault_flags g') AND FAULT_FLAG_STACK_OVERFLOW \<noteq> 0"
proof -
  obtain fw where m: "mcu_main example_platform ([] :: sensor_data list) (0 :: u32) = Some fw"
    by (simp add: mcu_main_def Error_Handler_def MX_USART2_UART_Init_def MX_IWDG_Init_def MX_CRC_Init_def
        example_platform_def Let_def)
  have n: "osThreadNew example_platform telemetry_attr = None" by (simp add: example_platform_def)
  obtain t' g' where h: "task_health_pass list_rtos (\<lambda>h. 100) 9000 5000 5001
      (example_sensor_task proto_rx_zero) (example_fsm_task FLIGHT_STATE_PREFLIGHT)
      (fw_health fw, example_globals [] 0) = (t', g')"
    by (metis surj_pair)
  from missing_task_is_stack_fault [OF m _ n list_rtos_flags refl h] m h show ?thesis by auto
qed

end
