(* ===== verification/SimModels.thy ===== *)
theory SimModels
  imports SensorData "HOL-Library.Signed_Division"
begin

text \<open>
  The simulator's sensor models, \<open>Simulator/sensor_imu.c\<close>, \<open>sensor_gps.c\<close>, \<open>sensor_battery.c\<close>
  and \<open>sensor_baro.c\<close>: initialisation, setters and the tick that produces the next reading.
  The arithmetic is the code's, operation by operation in single (for the position, double)
  precision.  What the C library leaves to the implementation is a parameter \<open>libc\<close>: the
  generator \<open>rand\<close> with its state, and the values of \<open>logf\<close>, \<open>cosf\<close>, \<open>powf\<close> and \<open>cos\<close>.  The
  lemmas hold for every such library.
\<close>

section \<open>The C library\<close>

record 'r libc =
  c_rand :: "'r \<Rightarrow> int \<times> 'r"
  RAND_MAX :: int
  c_logf :: "f32 \<Rightarrow> f32"
  c_cosf :: "f32 \<Rightarrow> f32"
  c_powf :: "f32 \<Rightarrow> f32 \<Rightarrow> f32"
  c_cos :: "f64 \<Rightarrow> f64"

text \<open>\<open>((float)rand() + 1.0f) / ((float)RAND_MAX + 1.0f)\<close>, and the Box-Muller expression
  \<open>sqrtf(-2.0f * logf(u1)) * cosf(2.0f * 3.14159265f * u2)\<close> of the three generators.\<close>

definition rand_unit :: "('r, 'z) libc_scheme \<Rightarrow> 'r \<Rightarrow> f32 \<times> 'r" where
  "rand_unit L r =
     (let (n, r) = c_rand L r
      in (f32_div (f32_add (f32_of_int n) (f32_lit 1 1))
                  (f32_add (f32_of_int (RAND_MAX L)) (f32_lit 1 1)), r))"

definition box_muller :: "('r, 'z) libc_scheme \<Rightarrow> f32 \<Rightarrow> f32 \<Rightarrow> f32" where
  "box_muller L u1 u2 =
     f32_mul (f32_sqrt (f32_mul (f32_lit (-2) 1) (c_logf L u1)))
             (c_cosf L (f32_mul (f32_mul (f32_lit 2 1) (f32_lit 314159265 100000000)) u2))"

section \<open>Inertial unit\<close>

record imu_model =
  true_accel_x :: f32
  true_accel_y :: f32
  true_accel_z :: f32
  true_gyro_x :: f32
  true_gyro_y :: f32
  true_gyro_z :: f32
  accel_noise_stddev :: f32
  gyro_noise_stddev :: f32
  gyro_drift_x :: f32
  gyro_drift_y :: f32
  gyro_drift_z :: f32
  drift_rate :: f32
  frozen :: bool
  frozen_ax :: f32
  frozen_ay :: f32
  frozen_az :: f32
  frozen_gx :: f32
  frozen_gy :: f32
  frozen_gz :: f32
  gravity_z :: f32

definition imu_model_zero :: imu_model where
  "imu_model_zero =
     \<lparr>true_accel_x = 0, true_accel_y = 0, true_accel_z = 0,
      true_gyro_x = 0, true_gyro_y = 0, true_gyro_z = 0,
      accel_noise_stddev = 0, gyro_noise_stddev = 0,
      gyro_drift_x = 0, gyro_drift_y = 0, gyro_drift_z = 0, drift_rate = 0,
      frozen = False, frozen_ax = 0, frozen_ay = 0, frozen_az = 0,
      frozen_gx = 0, frozen_gy = 0, frozen_gz = 0, gravity_z = 0\<rparr>"

definition randn :: "('r, 'z) libc_scheme \<Rightarrow> f32 \<Rightarrow> 'r \<Rightarrow> f32 \<times> 'r" where
  "randn L stddev r =
     (if f32_eq stddev 0 then (0, r)
      else let (u1, r) = rand_unit L r; (u2, r) = rand_unit L r; z = box_muller L u1 u2
           in (f32_mul z stddev, r))"

definition imu_init :: imu_model where
  "imu_init =
     imu_model_zero\<lparr>accel_noise_stddev := f32_lit 5 100, gyro_noise_stddev := f32_lit 2 100,
       drift_rate := f32_lit 1 1000, gravity_z := f32_lit 981 100,
       true_accel_z := f32_lit 981 100\<rparr>"

definition imu_set_motion ::
    "imu_model \<Rightarrow> f32 \<Rightarrow> f32 \<Rightarrow> f32 \<Rightarrow> f32 \<Rightarrow> f32 \<Rightarrow> f32 \<Rightarrow> imu_model" where
  "imu_set_motion m ax ay az gx gy gz =
     m\<lparr>true_accel_x := ax, true_accel_y := ay, true_accel_z := az,
       true_gyro_x := gx, true_gyro_y := gy, true_gyro_z := gz\<rparr>"

text \<open>The six outputs are accelerations and then rates.\<close>

definition imu_tick ::
    "('r, 'z) libc_scheme \<Rightarrow> imu_model \<Rightarrow> f32 \<Rightarrow> 'r
     \<Rightarrow> imu_model \<times> (f32 \<times> f32 \<times> f32 \<times> f32 \<times> f32 \<times> f32) \<times> 'r" where
  "imu_tick L m dt_s r =
     (if frozen m
      then (m, (frozen_ax m, frozen_ay m, frozen_az m, frozen_gx m, frozen_gy m, frozen_gz m), r)
      else let
        (d, r) = randn L (f32_mul (drift_rate m) dt_s) r;
        m = m\<lparr>gyro_drift_x := f32_add (gyro_drift_x m) d\<rparr>;
        (d, r) = randn L (f32_mul (drift_rate m) dt_s) r;
        m = m\<lparr>gyro_drift_y := f32_add (gyro_drift_y m) d\<rparr>;
        (d, r) = randn L (f32_mul (drift_rate m) dt_s) r;
        m = m\<lparr>gyro_drift_z := f32_add (gyro_drift_z m) d\<rparr>;
        (e, r) = randn L (accel_noise_stddev m) r;
        ax = f32_add (true_accel_x m) e;
        (e, r) = randn L (accel_noise_stddev m) r;
        ay = f32_add (true_accel_y m) e;
        (e, r) = randn L (accel_noise_stddev m) r;
        az = f32_add (true_accel_z m) e;
        (e, r) = randn L (gyro_noise_stddev m) r;
        gx = f32_add (f32_add (true_gyro_x m) (gyro_drift_x m)) e;
        (e, r) = randn L (gyro_noise_stddev m) r;
        gy = f32_add (f32_add (true_gyro_y m) (gyro_drift_y m)) e;
        (e, r) = randn L (gyro_noise_stddev m) r;
        gz = f32_add (f32_add (true_gyro_z m) (gyro_drift_z m)) e
      in (m, (ax, ay, az, gx, gy, gz), r))"

definition imu_freeze :: "imu_model \<Rightarrow> bool \<Rightarrow> imu_model" where
  "imu_freeze m freeze =
     (let m = (if freeze \<and> \<not> frozen m
               then m\<lparr>frozen_ax := true_accel_x m, frozen_ay := true_accel_y m,
                      frozen_az := true_accel_z m, frozen_gx := true_gyro_x m,
                      frozen_gy := true_gyro_y m, frozen_gz := true_gyro_z m\<rparr>
               else m)
      in m\<lparr>frozen := freeze\<rparr>)"

section \<open>GPS\<close>

record gps_model =
  true_lat :: f64
  true_lon :: f64
  true_alt_m :: f32
  true_speed_mps :: f32
  fix_quality :: byte
  satellites :: byte
  position_noise_m :: f32
  speed_noise_mps :: f32
  signal_lost :: bool

definition gps_model_zero :: gps_model where
  "gps_model_zero =
     \<lparr>true_lat = 0, true_lon = 0, true_alt_m = 0, true_speed_mps = 0, fix_quality = 0,
      satellites = 0, position_noise_m = 0, speed_noise_mps = 0, signal_lost = False\<rparr>"

text \<open>\<open>randf_range\<close> is not called by the code.\<close>

definition randf_range :: "('r, 'z) libc_scheme \<Rightarrow> f32 \<Rightarrow> f32 \<Rightarrow> 'r \<Rightarrow> f32 \<times> 'r" where
  "randf_range L lo hi r =
     (let (n, r) = c_rand L r
      in (f32_add lo (f32_mul (f32_sub hi lo)
            (f32_div (f32_of_int n) (f32_of_int (RAND_MAX L)))), r))"

definition randn_gps :: "('r, 'z) libc_scheme \<Rightarrow> f32 \<Rightarrow> 'r \<Rightarrow> f32 \<times> 'r" where
  "randn_gps L stddev r =
     (let (u1, r) = rand_unit L r; (u2, r) = rand_unit L r
      in (f32_mul (box_muller L u1 u2) stddev, r))"

definition gps_init :: "f64 \<Rightarrow> f64 \<Rightarrow> gps_model" where
  "gps_init lat0 lon0 =
     gps_model_zero\<lparr>true_lat := lat0, true_lon := lon0, true_alt_m := 0, true_speed_mps := 0,
       fix_quality := 1, satellites := 8, position_noise_m := f32_lit 5 10,
       speed_noise_mps := f32_lit 5 100\<rparr>"

definition gps_set_position :: "gps_model \<Rightarrow> f64 \<Rightarrow> f64 \<Rightarrow> f32 \<Rightarrow> f32 \<Rightarrow> gps_model" where
  "gps_set_position m lat lon alt_m speed_mps =
     m\<lparr>true_lat := lat, true_lon := lon, true_alt_m := alt_m, true_speed_mps := speed_mps\<rparr>"

text \<open>"Satellites vary slightly": the number reported for a jitter.\<close>

definition gps_visible_sats :: "gps_model \<Rightarrow> int \<Rightarrow> byte" where
  "gps_visible_sats m sat_jitter =
     (let sats = uint (satellites m) + sat_jitter;
          sats = (if sats < 4 then 4 else sats);
          sats = (if sats > 12 then 12 else sats)
      in word_of_int sats)"

text \<open>The output is latitude, longitude, altitude, speed, fix and number of satellites; the
  model itself does not change.  \<open>rand() % 3\<close> is the truncating remainder of C.\<close>

definition gps_tick ::
    "('r, 'z) libc_scheme \<Rightarrow> gps_model \<Rightarrow> 'r
     \<Rightarrow> (f64 \<times> f64 \<times> f32 \<times> f32 \<times> byte \<times> byte) \<times> 'r" where
  "gps_tick L m r =
     (if signal_lost m then ((0, 0, 0, 0, 0, 0), r)
      else let
        meters_per_deg_lat = f64_lit 111000 1;
        meters_per_deg_lon = f64_mul (f64_lit 111000 1) (c_cos L
          (f64_div (f64_mul (true_lat m) (f64_lit 314159265 100000000)) (f64_lit 180 1)));
        (e, r) = randn_gps L (position_noise_m m) r;
        lat = f64_add (true_lat m) (f64_div (f64_of_f32 e) meters_per_deg_lat);
        (e, r) = randn_gps L (position_noise_m m) r;
        lon = f64_add (true_lon m) (f64_div (f64_of_f32 e) meters_per_deg_lon);
        (e, r) = randn_gps L (f32_mul (position_noise_m m) (f32_lit 15 10)) r;
        alt = f32_add (true_alt_m m) e;
        (e, r) = randn_gps L (speed_noise_mps m) r;
        speed = f32_add (true_speed_mps m) e;
        speed = (if f32_lt speed 0 then 0 else speed);
        (n, r) = c_rand L r;
        sats = gps_visible_sats m (n smod 3 - 1)
      in ((lat, lon, alt, speed, fix_quality m, sats), r))"

definition gps_set_signal_lost :: "gps_model \<Rightarrow> bool \<Rightarrow> gps_model" where
  "gps_set_signal_lost m lost =
     (let m = m\<lparr>signal_lost := lost\<rparr>
      in if lost then m\<lparr>fix_quality := 0, satellites := 0\<rparr>
         else m\<lparr>fix_quality := 1, satellites := 8\<rparr>)"

section \<open>Battery\<close>

record battery_model =
  full_voltage_v :: f32
  empty_voltage_v :: f32
  current_voltage_v :: f32
  current_draw_a :: f32
  capacity_mah :: f32
  used_mah :: f32
  internal_resistance_ohm :: f32
  sag_fault :: bool
  sag_target_v :: f32

definition battery_model_zero :: battery_model where
  "battery_model_zero =
     \<lparr>full_voltage_v = 0, empty_voltage_v = 0, current_voltage_v = 0, current_draw_a = 0,
      capacity_mah = 0, used_mah = 0, internal_resistance_ohm = 0, sag_fault = False,
      sag_target_v = 0\<rparr>"

definition battery_init :: "f32 \<Rightarrow> f32 \<Rightarrow> battery_model" where
  "battery_init full_v capacity =
     battery_model_zero\<lparr>full_voltage_v := full_v,
       empty_voltage_v := f32_mul full_v (f32_div (f32_lit 99 10) (f32_lit 126 10)),
       current_voltage_v := full_v, capacity_mah := capacity,
       internal_resistance_ohm := f32_lit 5 100, current_draw_a := f32_lit 5 1\<rparr>"

definition battery_set_load :: "battery_model \<Rightarrow> f32 \<Rightarrow> battery_model" where
  "battery_set_load m current_a = m\<lparr>current_draw_a := current_a\<rparr>"

text \<open>The charge used after a tick, the state of charge, and the voltage before and after the
  sag fault.\<close>

definition battery_use :: "battery_model \<Rightarrow> f32 \<Rightarrow> f32" where
  "battery_use m dt_s =
     (let mah_this_tick = f32_mul (current_draw_a m) (f32_div dt_s (f32_lit 36 10));
          used = f32_add (used_mah m) mah_this_tick
      in if f32_lt (capacity_mah m) used then capacity_mah m else used)"

definition battery_soc :: "battery_model \<Rightarrow> f32" where
  "battery_soc m = f32_sub (f32_lit 1 1) (f32_div (used_mah m) (capacity_mah m))"

definition battery_loaded_voltage :: "battery_model \<Rightarrow> f32 \<Rightarrow> f32" where
  "battery_loaded_voltage m soc =
     (let ocv = f32_add (empty_voltage_v m)
            (f32_mul (f32_sub (full_voltage_v m) (empty_voltage_v m))
              (f32_add (f32_add (f32_lit 1 10) (f32_mul (f32_lit 8 10) soc))
                (f32_mul (f32_mul (f32_lit 1 10) soc) soc)))
      in f32_sub ocv (f32_mul (current_draw_a m) (internal_resistance_ohm m)))"

definition battery_sag :: "battery_model \<Rightarrow> f32 \<Rightarrow> f32" where
  "battery_sag m v =
     (if sag_fault m
      then let v = (if f32_lt (sag_target_v m) v
                    then f32_sub v (f32_mul (f32_sub v (sag_target_v m)) (f32_lit 5 100)) else v)
           in if f32_lt v (sag_target_v m) then sag_target_v m else v
      else v)"

text \<open>The output is voltage, current and percentage.  The cast to \<open>uint8_t\<close> is defined by C for a
  number that fits, as it does while the capacity is positive.\<close>

definition battery_tick ::
    "battery_model \<Rightarrow> f32 \<Rightarrow> battery_model \<times> (f32 \<times> f32 \<times> byte)" where
  "battery_tick m dt_s =
     (let m = m\<lparr>used_mah := battery_use m dt_s\<rparr>;
          soc = battery_soc m;
          v_under_load = battery_sag m (battery_loaded_voltage m soc);
          m = m\<lparr>current_voltage_v := v_under_load\<rparr>;
          pct = word_of_int (f32_trunc (f32_add (f32_mul soc (f32_lit 100 1)) (f32_lit 5 10)));
          pct = (if pct > 100 then 100 else pct)
      in (m, (v_under_load, current_draw_a m, pct)))"

definition battery_set_sag :: "battery_model \<Rightarrow> bool \<Rightarrow> f32 \<Rightarrow> battery_model" where
  "battery_set_sag m active target_v = m\<lparr>sag_fault := active, sag_target_v := target_v\<rparr>"

section \<open>Barometer\<close>

record baro_model =
  true_altitude_m :: f32
  base_pressure_hpa :: f32
  base_temp_c :: f32
  noise_hpa :: f32
  noise_temp_c :: f32

definition randn_baro :: "('r, 'z) libc_scheme \<Rightarrow> f32 \<Rightarrow> 'r \<Rightarrow> f32 \<times> 'r" where
  "randn_baro L stddev r =
     (let (u1, r) = rand_unit L r; (u2, r) = rand_unit L r
      in (f32_mul (box_muller L u1 u2) stddev, r))"

definition baro_init :: baro_model where
  "baro_init =
     \<lparr>true_altitude_m = 0, base_pressure_hpa = f32_lit 101325 100, base_temp_c = f32_lit 15 1,
      noise_hpa = f32_lit 1 10, noise_temp_c = f32_lit 5 100\<rparr>"

definition baro_set_altitude :: "baro_model \<Rightarrow> f32 \<Rightarrow> baro_model" where
  "baro_set_altitude m alt_m = m\<lparr>true_altitude_m := alt_m\<rparr>"

text \<open>The output is pressure and temperature.\<close>

definition baro_tick :: "('r, 'z) libc_scheme \<Rightarrow> baro_model \<Rightarrow> 'r \<Rightarrow> (f32 \<times> f32) \<times> 'r" where
  "baro_tick L m r =
     (let h = true_altitude_m m;
          T0 = f32_add (base_temp_c m) (f32_lit 27315 100);
          lapse = f32_lit 65 10000;
          Th = f32_sub T0 (f32_mul lapse h);
          p = f32_mul (base_pressure_hpa m) (c_powf L (f32_div Th T0) (f32_lit 52561 10000));
          t = f32_sub Th (f32_lit 27315 100);
          (e, r) = randn_baro L (noise_hpa m) r;
          pressure = f32_add p e;
          (e, r) = randn_baro L (noise_temp_c m) r;
          temp = f32_add t e
      in ((pressure, temp), r))"

section \<open>Lemmas\<close>

lemma f32_lt_irrefl [simp]: "\<not> f32_lt x x"
  by (simp add: f32_lt_def fp_lt_def)

lemma imu_freeze_latches:
  "\<not> frozen m \<Longrightarrow> imu_freeze m True =
     m\<lparr>frozen := True, frozen_ax := true_accel_x m, frozen_ay := true_accel_y m,
       frozen_az := true_accel_z m, frozen_gx := true_gyro_x m, frozen_gy := true_gyro_y m,
       frozen_gz := true_gyro_z m\<rparr>"
  by (simp add: imu_freeze_def)

lemma imu_freeze_again: "frozen m \<Longrightarrow> imu_freeze m True = m"
  by (simp add: imu_freeze_def)

lemma imu_tick_frozen:
  "frozen m \<Longrightarrow> imu_tick L m dt r =
     (m, (frozen_ax m, frozen_ay m, frozen_az m, frozen_gx m, frozen_gy m, frozen_gz m), r)"
  by (simp add: imu_tick_def)

lemma imu_tick_keeps_frozen: "frozen (fst (imu_tick L m dt r)) \<longleftrightarrow> frozen m"
  by (simp add: imu_tick_def split_beta Let_def)

lemma gps_visible_sats_bounds: "4 \<le> gps_visible_sats m j" "gps_visible_sats m j \<le> 12"
proof -
  define n where "n = uint (satellites m) + j"
  define k where "k = (if n < 4 then 4 else if n > 12 then 12 else n)"
  have k: "4 \<le> k" "k \<le> 12" by (auto simp: k_def)
  then have u: "uint (word_of_int k :: byte) = k" by (simp add: uint_word_of_int)
  have "gps_visible_sats m j = word_of_int k"
    unfolding gps_visible_sats_def Let_def k_def n_def by (simp only: if_distrib not_less cong: if_cong) simp
  with k u show "4 \<le> gps_visible_sats m j" "gps_visible_sats m j \<le> 12"
    by (simp_all add: word_le_def)
qed

lemma gps_tick_lost: "signal_lost m \<Longrightarrow> gps_tick L m r = ((0, 0, 0, 0, 0, 0), r)"
  by (simp add: gps_tick_def)

lemma gps_tick_fix:
  assumes "\<not> signal_lost m" "gps_tick L m r = ((lat, lon, alt, speed, fix_q, sats), r')"
  shows "fix_q = fix_quality m" "4 \<le> sats" "sats \<le> 12" "\<not> f32_lt speed 0"
  using assms gps_visible_sats_bounds
  by (auto simp: gps_tick_def split_beta Let_def split: if_splits)

lemma battery_use_bounded: "\<not> f32_lt (capacity_mah m) (battery_use m dt)"
  by (simp add: battery_use_def Let_def)

lemma battery_sag_bounded: "sag_fault m \<Longrightarrow> \<not> f32_lt (battery_sag m v) (sag_target_v m)"
  by (simp add: battery_sag_def Let_def)

lemma battery_tick_keeps:
  "capacity_mah (fst (battery_tick m dt)) = capacity_mah m"
  "sag_fault (fst (battery_tick m dt)) = sag_fault m"
  "sag_target_v (fst (battery_tick m dt)) = sag_target_v m"
  "used_mah (fst (battery_tick m dt)) = battery_use m dt"
  by (simp_all add: battery_tick_def Let_def)

text \<open>The interface of the injector to a model: a switch for a fault, which shows in the model and may
  be set again at every tick.\<close>

locale fault_switch =
  fixes switch :: "'m \<Rightarrow> bool \<Rightarrow> 'm"
    and faulty :: "'m \<Rightarrow> bool"
  assumes faulty_switch: "faulty (switch m b) = b"
    and switch_again: "switch (switch m b) b = switch m b"
begin

lemma faulty_switches: "bs \<noteq> [] \<Longrightarrow> faulty (foldl switch m bs) = last bs"
  by (cases bs rule: rev_cases) (simp_all add: faulty_switch)

lemma switch_repeated: "foldl switch (switch m b) (replicate n b) = switch m b"
  by (induction n) (simp_all add: switch_again)

end

interpretation imu_switch: fault_switch imu_freeze frozen
  by unfold_locales (simp_all add: imu_freeze_def)

interpretation gps_switch: fault_switch gps_set_signal_lost signal_lost
  by unfold_locales (simp_all add: gps_set_signal_lost_def Let_def)

interpretation sag_switch: fault_switch "\<lambda>m b. battery_set_sag m b v" sag_fault for v
  by unfold_locales (simp_all add: battery_set_sag_def)

section \<open>Behaviour of the ticks\<close>

text \<open>A library to evaluate examples with.\<close>

definition example_libc :: "int libc" where
  "example_libc =
     \<lparr>c_rand = (\<lambda>n. (n mod 32768, n + 1)), RAND_MAX = 32767, c_logf = (\<lambda>x. f32_lit (-1) 2),
      c_cosf = (\<lambda>x. f32_lit 1 1), c_powf = (\<lambda>x y. x), c_cos = (\<lambda>x. f64_lit 1 1)\<rparr>"

text \<open>The freeze fault latches the true motion, not the last output: from the freeze on, every
  tick reports the motion the model had at that moment, without noise, whatever the motion
  becomes and however often the freeze is repeated, and neither the model nor the random
  generator moves.\<close>

lemma frozen_imu_repeats_true_motion:
  assumes "\<not> frozen m" and "m1 = imu_set_motion (imu_freeze m True) ax ay az gx gy gz"
  shows "imu_freeze m1 True = m1 \<and> imu_tick L m1 dt r =
    (m1, (true_accel_x m, true_accel_y m, true_accel_z m,
          true_gyro_x m, true_gyro_y m, true_gyro_z m), r)"
  using assms by (simp add: imu_freeze_def imu_tick_def imu_set_motion_def)

text \<open>What a GPS tick can report, for every random generator: after the signal-lost setter the
  fix is 0 and there are no satellites exactly when the signal is lost; with a signal there are
  4 to 12 satellites, and the reported speed is never negative.\<close>

lemma gps_tick_reports_signal:
  assumes "gps_tick L (gps_set_signal_lost m lost) r = ((lat, lon, alt, speed, fix_q, sats), r')"
  shows "(fix_q = 0 \<longleftrightarrow> lost) \<and> (sats = 0 \<longleftrightarrow> lost) \<and> (\<not> lost \<longrightarrow> 4 \<le> sats \<and> sats \<le> 12) \<and>
    \<not> f32_lt speed 0"
proof (cases lost)
  case True
  with assms show ?thesis by (simp add: gps_tick_def gps_set_signal_lost_def)
next
  case False
  then have "\<not> signal_lost (gps_set_signal_lost m lost)" "fix_quality (gps_set_signal_lost m lost) = 1"
    by (simp_all add: gps_set_signal_lost_def)
  with gps_tick_fix [OF this(1) assms] False show ?thesis by auto
qed

text \<open>Bounds of a battery tick, for every model, NaNs included: the charge used never exceeds the
  capacity, the percentage never exceeds 100, a sagging battery never goes below the target, and
  the tick keeps the fault and the capacity.\<close>

lemma battery_tick_bounds:
  "\<not> f32_lt (capacity_mah m) (used_mah (fst (battery_tick m dt))) \<and>
   snd (snd (snd (battery_tick m dt))) \<le> 100 \<and>
   (sag_fault m \<longrightarrow> \<not> f32_lt (fst (snd (battery_tick m dt))) (sag_target_v m)) \<and>
   sag_fault (fst (battery_tick m dt)) = sag_fault m \<and>
   capacity_mah (fst (battery_tick m dt)) = capacity_mah m"
proof -
  let ?m = "m\<lparr>used_mah := battery_use m dt\<rparr>"
  have "\<not> f32_lt (battery_sag ?m v) (sag_target_v m)" if "sag_fault m" for v
    using battery_sag_bounded [of ?m v] that by simp
  then show ?thesis
    by (simp add: battery_tick_keeps battery_use_bounded) (simp add: battery_tick_def Let_def not_less)
qed

text \<open>On an empty battery the sag fault works the wrong way round: a target above the voltage under
  load raises the voltage.\<close>

lemma sag_raises_empty_battery:
  "let m = (battery_init (f32_lit 126 10) (f32_lit 2200 1))\<lparr>used_mah := f32_lit 2200 1\<rparr>;
       v = fst (snd (battery_tick m 0));
       v' = fst (snd (battery_tick (battery_set_sag m True (f32_lit 10 1)) 0))
   in f32_lt v v' \<and> f32_eq v' (f32_lit 10 1)"
  by code_simp

end
