(* ===== verification/FaultInjector.thy ===== *)
theory FaultInjector
  imports SimModels
begin

text \<open>
  The simulator's fault injector, \<open>Simulator/fault_injector.c\<close>, which drives the
  sensor models through their setters.  Eight slots
  hold faults with a start, a duration and a parameter; a tick expires the timed ones and
  recomputes what the models and the transmit step should suffer.  The lemmas show that a tick
  makes the models and the flags agree with the live slots, exactly.
\<close>

section \<open>Slots\<close>

datatype fault_type =
    FAULT_TYPE_NONE
  | FAULT_TYPE_GPS_LOSS
  | FAULT_TYPE_SENSOR_FREEZE
  | FAULT_TYPE_BATTERY_SAG
  | FAULT_TYPE_COMMS_DROP
  | FAULT_TYPE_PACKET_CORRUPT

record fault_entry =
  fe_type :: fault_type
  fe_active :: bool
  fe_start_ms :: u32
  fe_duration_ms :: u32
  fe_param :: f32

definition FAULT_SLOTS :: nat where "FAULT_SLOTS = 8"

definition fault_entry_zero :: fault_entry where
  "fault_entry_zero =
     \<lparr>fe_type = FAULT_TYPE_NONE, fe_active = False, fe_start_ms = 0, fe_duration_ms = 0,
      fe_param = 0\<rparr>"

text \<open>\<open>None\<close> is a null model pointer; otherwise the model pointed to.\<close>

record fault_injector =
  slots :: "fault_entry list"
  fi_imu :: "imu_model option"
  fi_gps :: "gps_model option"
  fi_battery :: "battery_model option"
  comms_drop_active :: bool
  packet_corrupt_active :: bool

section \<open>Operations\<close>

definition fault_init ::
    "imu_model option \<Rightarrow> gps_model option \<Rightarrow> battery_model option \<Rightarrow> fault_injector" where
  "fault_init imu gps battery =
     \<lparr>slots = replicate FAULT_SLOTS fault_entry_zero, fi_imu = imu, fi_gps = gps,
      fi_battery = battery, comms_drop_active = False, packet_corrupt_active = False\<rparr>"

definition fault_inject ::
    "fault_injector \<Rightarrow> fault_type \<Rightarrow> f32 \<Rightarrow> u32 \<Rightarrow> u32 \<Rightarrow> int \<times> fault_injector" where
  "fault_inject f type param duration_ms now_ms =
     (case List.find (\<lambda>i. \<not> fe_active (slots f ! i)) [0..<FAULT_SLOTS] of
        Some i \<Rightarrow>
          (int i, f\<lparr>slots := (slots f)[i :=
             \<lparr>fe_type = type, fe_active = True, fe_start_ms = now_ms,
              fe_duration_ms = duration_ms, fe_param = param\<rparr>]\<rparr>)
      | None \<Rightarrow> (-1, f))"

definition fault_clear :: "fault_injector \<Rightarrow> int \<Rightarrow> fault_injector" where
  "fault_clear f slot =
     (if slot < 0 \<or> slot \<ge> int FAULT_SLOTS then f
      else f\<lparr>slots := (slots f)[nat slot := (slots f ! nat slot)
               \<lparr>fe_active := False, fe_type := FAULT_TYPE_NONE\<rparr>]\<rparr>)"

definition fault_clear_all :: "fault_injector \<Rightarrow> fault_injector" where
  "fault_clear_all f =
     f\<lparr>slots := map (\<lambda>e. e\<lparr>fe_active := False\<rparr>) (slots f),
       fi_imu := map_option (\<lambda>m. imu_freeze m False) (fi_imu f),
       fi_gps := map_option (\<lambda>m. gps_set_signal_lost m False) (fi_gps f),
       fi_battery := map_option (\<lambda>m. battery_set_sag m False 0) (fi_battery f),
       comms_drop_active := False, packet_corrupt_active := False\<rparr>"

text \<open>The local variables the loop of \<open>fault_tick\<close> accumulates.\<close>

record tick_acc =
  ta_gps_lost :: bool
  ta_imu_frozen :: bool
  ta_batt_sag :: bool
  ta_comms_drop :: bool
  ta_pkt_corrupt :: bool
  ta_sag_v :: f32

definition tick_acc_start :: tick_acc where
  "tick_acc_start =
     \<lparr>ta_gps_lost = False, ta_imu_frozen = False, ta_batt_sag = False, ta_comms_drop = False,
      ta_pkt_corrupt = False, ta_sag_v = f32_lit 10 1\<rparr>"

definition tick_slot :: "u32 \<Rightarrow> fault_entry \<Rightarrow> tick_acc \<Rightarrow> fault_entry \<times> tick_acc" where
  "tick_slot now_ms e a =
     (if \<not> fe_active e then (e, a)
      else if fe_duration_ms e > 0 \<and> now_ms - fe_start_ms e \<ge> fe_duration_ms e
      then (e\<lparr>fe_active := False\<rparr>, a)
      else (e, case fe_type e of
           FAULT_TYPE_GPS_LOSS \<Rightarrow> a\<lparr>ta_gps_lost := True\<rparr>
         | FAULT_TYPE_SENSOR_FREEZE \<Rightarrow> a\<lparr>ta_imu_frozen := True\<rparr>
         | FAULT_TYPE_BATTERY_SAG \<Rightarrow> a\<lparr>ta_batt_sag := True, ta_sag_v := fe_param e\<rparr>
         | FAULT_TYPE_COMMS_DROP \<Rightarrow> a\<lparr>ta_comms_drop := True\<rparr>
         | FAULT_TYPE_PACKET_CORRUPT \<Rightarrow> a\<lparr>ta_pkt_corrupt := True\<rparr>
         | FAULT_TYPE_NONE \<Rightarrow> a))"

fun tick_slots :: "u32 \<Rightarrow> fault_entry list \<Rightarrow> tick_acc \<Rightarrow> fault_entry list \<times> tick_acc" where
  "tick_slots now_ms [] a = ([], a)"
| "tick_slots now_ms (e # es) a =
     (let (e', a1) = tick_slot now_ms e a; (es', a2) = tick_slots now_ms es a1 in (e' # es', a2))"

definition fault_tick :: "fault_injector \<Rightarrow> u32 \<Rightarrow> fault_injector" where
  "fault_tick f now_ms =
     (let (es, a) = tick_slots now_ms (slots f) tick_acc_start
      in f\<lparr>slots := es,
           fi_gps := map_option (\<lambda>m. gps_set_signal_lost m (ta_gps_lost a)) (fi_gps f),
           fi_imu := map_option (\<lambda>m. imu_freeze m (ta_imu_frozen a)) (fi_imu f),
           fi_battery := map_option (\<lambda>m. battery_set_sag m (ta_batt_sag a) (ta_sag_v a)) (fi_battery f),
           comms_drop_active := ta_comms_drop a, packet_corrupt_active := ta_pkt_corrupt a\<rparr>)"

definition FAULT_GPS_LOSS :: byte where "FAULT_GPS_LOSS = push_bit 0 1"
definition FAULT_SENSOR_FREEZE :: byte where "FAULT_SENSOR_FREEZE = push_bit 1 1"
definition FAULT_BATT_LOW :: byte where "FAULT_BATT_LOW = push_bit 2 1"
definition FAULT_COMMS_TIMEOUT :: byte where "FAULT_COMMS_TIMEOUT = push_bit 3 1"

definition fault_get_flags :: "fault_injector \<Rightarrow> byte" where
  "fault_get_flags f =
     foldl (\<lambda>flags e. if \<not> fe_active e then flags
        else case fe_type e of
            FAULT_TYPE_GPS_LOSS \<Rightarrow> flags OR FAULT_GPS_LOSS
          | FAULT_TYPE_SENSOR_FREEZE \<Rightarrow> flags OR FAULT_SENSOR_FREEZE
          | FAULT_TYPE_BATTERY_SAG \<Rightarrow> flags OR FAULT_BATT_LOW
          | FAULT_TYPE_COMMS_DROP \<Rightarrow> flags OR FAULT_COMMS_TIMEOUT
          | _ \<Rightarrow> flags) 0 (slots f)"

section \<open>A tick\<close>

definition expired :: "u32 \<Rightarrow> fault_entry \<Rightarrow> bool" where
  "expired now e \<longleftrightarrow> fe_duration_ms e > 0 \<and> now - fe_start_ms e \<ge> fe_duration_ms e"

definition live :: "u32 \<Rightarrow> fault_entry list \<Rightarrow> fault_type \<Rightarrow> bool" where
  "live now es k \<longleftrightarrow> (\<exists>e \<in> set es. fe_active e \<and> fe_type e = k \<and> \<not> expired now e)"

lemma tick_slots_entries:
  "fst (tick_slots now es a) =
     map (\<lambda>e. if fe_active e \<and> expired now e then e\<lparr>fe_active := False\<rparr> else e) es"
  by (induction es arbitrary: a) (auto simp: tick_slot_def expired_def split_beta Let_def)

lemma tick_slots_flags:
  "ta_gps_lost (snd (tick_slots now es a)) \<longleftrightarrow> ta_gps_lost a \<or> live now es FAULT_TYPE_GPS_LOSS"
  "ta_imu_frozen (snd (tick_slots now es a)) \<longleftrightarrow> ta_imu_frozen a \<or> live now es FAULT_TYPE_SENSOR_FREEZE"
  "ta_batt_sag (snd (tick_slots now es a)) \<longleftrightarrow> ta_batt_sag a \<or> live now es FAULT_TYPE_BATTERY_SAG"
  "ta_comms_drop (snd (tick_slots now es a)) \<longleftrightarrow> ta_comms_drop a \<or> live now es FAULT_TYPE_COMMS_DROP"
  "ta_pkt_corrupt (snd (tick_slots now es a)) \<longleftrightarrow> ta_pkt_corrupt a \<or> live now es FAULT_TYPE_PACKET_CORRUPT"
  by (induction es arbitrary: a)
    (auto simp: tick_slot_def expired_def live_def split_beta Let_def split: fault_type.splits)

lemma fault_tick_slots:
  "slots (fault_tick f now) =
     map (\<lambda>e. if fe_active e \<and> expired now e then e\<lparr>fe_active := False\<rparr> else e) (slots f)"
  using tick_slots_entries [of now "slots f" tick_acc_start]
  by (simp add: fault_tick_def split_beta Let_def)

lemma live_after_tick:
  "live now (slots (fault_tick f now)) k \<longleftrightarrow> live now (slots f) k"
  by (auto simp: live_def fault_tick_slots expired_def)

text \<open>The contribution of one slot to the flags.\<close>

definition slot_flag :: "fault_entry \<Rightarrow> byte" where
  "slot_flag e =
     (if \<not> fe_active e then 0
      else case fe_type e of FAULT_TYPE_GPS_LOSS \<Rightarrow> 1 | FAULT_TYPE_SENSOR_FREEZE \<Rightarrow> 2
        | FAULT_TYPE_BATTERY_SAG \<Rightarrow> 4 | FAULT_TYPE_COMMS_DROP \<Rightarrow> 8 | _ \<Rightarrow> 0)"

lemma fault_get_flags_slots: "fault_get_flags f = foldl (\<lambda>c e. c OR slot_flag e) 0 (slots f)"
  unfolding fault_get_flags_def
  by (rule foldl_cong) (auto simp: slot_flag_def FAULT_GPS_LOSS_def FAULT_SENSOR_FREEZE_def
      FAULT_BATT_LOW_def FAULT_COMMS_TIMEOUT_def split: fault_type.splits)

lemma bit_foldl_or:
  "bit (foldl (\<lambda>c e. c OR g e) c es) n \<longleftrightarrow> bit c n \<or> (\<exists>e \<in> set es. bit (g e) n)"
  for c :: "'a::len word"
  by (induction es arbitrary: c) (auto simp: bit_or_iff)

lemma fault_get_flags_bit:
  "bit (fault_get_flags f) n \<longleftrightarrow> (\<exists>e \<in> set (slots f). bit (slot_flag e) n)"
  by (simp add: fault_get_flags_slots bit_foldl_or)

lemma bit_slot_flag:
  "bit (slot_flag e) n \<longleftrightarrow> fe_active e \<and>
     (n = 0 \<and> fe_type e = FAULT_TYPE_GPS_LOSS \<or> n = 1 \<and> fe_type e = FAULT_TYPE_SENSOR_FREEZE \<or>
      n = 2 \<and> fe_type e = FAULT_TYPE_BATTERY_SAG \<or> n = 3 \<and> fe_type e = FAULT_TYPE_COMMS_DROP)"
proof -
  have "bit (2 ^ k :: byte) n \<longleftrightarrow> n = k" if "k < 8" for k
    using that by (auto simp: bit_exp_iff)
  from this [of 1] this [of 2] this [of 3]
  have "bit (2 :: byte) n \<longleftrightarrow> n = 1" "bit (4 :: byte) n \<longleftrightarrow> n = 2" "bit (8 :: byte) n \<longleftrightarrow> n = 3"
    by simp_all
  then show ?thesis by (cases "fe_type e") (auto simp: slot_flag_def bit_1_iff)
qed

lemma live_iff_active_after_tick:
  "live now (slots f) k \<longleftrightarrow> (\<exists>e \<in> set (slots (fault_tick f now)). fe_active e \<and> fe_type e = k)"
  by (auto simp: live_def fault_tick_slots)

section \<open>Many ticks\<close>

lemma length_slots_tick [len_simps]: "length (slots (fault_tick f now)) = length (slots f)"
  by (simp add: fault_tick_slots)

lemma fault_tick_slot:
  "i < length (slots f) \<Longrightarrow> slots (fault_tick f now) ! i =
     (if fe_active (slots f ! i) \<and> expired now (slots f ! i)
      then (slots f ! i)\<lparr>fe_active := False\<rparr> else slots f ! i)"
  by (simp add: fault_tick_slots)

lemma expired_active [simp]: "expired now (e\<lparr>fe_active := b\<rparr>) = expired now e"
  by (simp add: expired_def)

text \<open>A slot is active after some ticks when it was active and none of them came too late.\<close>

lemma slot_active_after_ticks:
  "i < length (slots f) \<Longrightarrow> fe_active (slots (foldl fault_tick f ts) ! i) \<longleftrightarrow>
     fe_active (slots f ! i) \<and> (\<forall>t \<in> set ts. \<not> expired t (slots f ! i))"
  by (induction ts arbitrary: f) (auto simp: fault_tick_slot len_simps)

lemma fault_inject_slot:
  assumes "fault_inject f k param dur now = (i, f')" "i \<ge> 0"
  shows "nat i < FAULT_SLOTS"
    "f' = f\<lparr>slots := (slots f)[nat i := \<lparr>fe_type = k, fe_active = True, fe_start_ms = now,
       fe_duration_ms = dur, fe_param = param\<rparr>]\<rparr>"
    "\<not> fe_active (slots f ! nat i)"
  using assms by (auto simp: fault_inject_def find_Some_iff split: option.splits)

text \<open>A fault of a type lasts through some ticks when one slot of that type stays active.\<close>

definition lasts :: "u32 list \<Rightarrow> fault_entry list \<Rightarrow> fault_type \<Rightarrow> bool" where
  "lasts ts es k \<longleftrightarrow> (\<exists>e \<in> set es. fe_active e \<and> fe_type e = k \<and> (\<forall>t \<in> set ts. \<not> expired t e))"

lemma lasts_live: "lasts [t] es k \<longleftrightarrow> live t es k"
  by (simp add: lasts_def live_def)

lemma lasts_tick: "lasts ts (slots (fault_tick f t)) k \<longleftrightarrow> lasts (t # ts) (slots f) k"
  by (auto simp: lasts_def fault_tick_slots)

lemma lasts_after_inject:
  assumes "length (slots f) = FAULT_SLOTS" "fault_inject f k param dur start = (i, f')" "i \<ge> 0"
  shows "lasts ts (slots f') k \<longleftrightarrow>
    dur = 0 \<or> (\<forall>t \<in> set ts. t - start < dur) \<or> lasts ts (slots f) k"
proof -
  let ?e = "\<lparr>fe_type = k, fe_active = True, fe_start_ms = start, fe_duration_ms = dur, fe_param = param\<rparr>"
  note f' = fault_inject_slot [OF assms(2,3)]
  have i: "nat i < length (slots f)" using f'(1) assms(1) by simp
  have "lasts ts (slots f') k \<longleftrightarrow> (\<forall>t \<in> set ts. \<not> expired t ?e) \<or> lasts ts (slots f) k"
    unfolding lasts_def f'(2) using f'(3)
    by (simp add: ex_list_update [OF i, of "\<lambda>e. fe_active e \<and> fe_type e = k \<and> (\<forall>t \<in> set ts. \<not> expired t e)"])
  moreover have "(\<forall>t \<in> set ts. \<not> expired t ?e) \<longleftrightarrow> dur = 0 \<or> (\<forall>t \<in> set ts. t - start < dur)"
    by (auto simp: expired_def word_gt_0 not_le)
  ultimately show ?thesis by blast
qed

lemma fault_inject_free:
  assumes "length (slots f) = FAULT_SLOTS" "\<exists>e \<in> set (slots f). \<not> fe_active e"
  shows "0 \<le> fst (fault_inject f k param dur now)"
proof -
  obtain j where "j < length (slots f)" "\<not> fe_active (slots f ! j)"
    using assms(2) by (auto simp: in_set_conv_nth)
  then have "List.find (\<lambda>i. \<not> fe_active (slots f ! i)) [0..<FAULT_SLOTS] \<noteq> None"
    using assms(1) by (auto simp: find_None_iff)
  then show ?thesis by (auto simp: fault_inject_def)
qed

section \<open>Properties\<close>

definition example_injector :: fault_injector where
  "example_injector = fault_init None None None"

text \<open>C40: A tick makes the simulated world agree with the live faults: the packet-drop and
  packet-corruption flags hold exactly when an active, unexpired slot has that type, and so do the
  frozen IMU, the lost GPS signal (with no fix) and the sagging battery.\<close>

theorem fault_tick_applies_live_faults:
  assumes "fi_imu f = Some imu" "fi_gps f = Some gps" "fi_battery f = Some batt"
  shows "\<exists>imu' gps' batt'.
    fi_imu (fault_tick f now) = Some imu' \<and> (frozen imu' \<longleftrightarrow> live now (slots f) FAULT_TYPE_SENSOR_FREEZE) \<and>
    fi_gps (fault_tick f now) = Some gps' \<and> (signal_lost gps' \<longleftrightarrow> live now (slots f) FAULT_TYPE_GPS_LOSS) \<and>
    (fix_quality gps' = 0 \<longleftrightarrow> live now (slots f) FAULT_TYPE_GPS_LOSS) \<and>
    fi_battery (fault_tick f now) = Some batt' \<and> (sag_fault batt' \<longleftrightarrow> live now (slots f) FAULT_TYPE_BATTERY_SAG) \<and>
    (comms_drop_active (fault_tick f now) \<longleftrightarrow> live now (slots f) FAULT_TYPE_COMMS_DROP) \<and>
    (packet_corrupt_active (fault_tick f now) \<longleftrightarrow> live now (slots f) FAULT_TYPE_PACKET_CORRUPT)"
  using assms
  by (simp add: fault_tick_def split_beta Let_def tick_slots_flags tick_acc_start_def imu_freeze_def
      gps_set_signal_lost_def battery_set_sag_def)

theorem fault_tick_applies_live_faults_witness:
  "\<forall>imu gps batt. \<exists>gps'. fi_gps (fault_tick (example_injector\<lparr>slots := [\<lparr>fe_type = FAULT_TYPE_GPS_LOSS,
       fe_active = True, fe_start_ms = 5, fe_duration_ms = 100, fe_param = 0\<rparr>],
       fi_imu := Some imu, fi_gps := Some gps, fi_battery := Some batt\<rparr>) 50) = Some gps' \<and>
     signal_lost gps'"
proof (intro allI)
  fix imu gps batt
  show "\<exists>gps'. fi_gps (fault_tick (example_injector\<lparr>slots := [\<lparr>fe_type = FAULT_TYPE_GPS_LOSS,
       fe_active = True, fe_start_ms = 5, fe_duration_ms = 100, fe_param = 0\<rparr>],
       fi_imu := Some imu, fi_gps := Some gps, fi_battery := Some batt\<rparr>) 50) = Some gps' \<and>
     signal_lost gps'"
    using fault_tick_applies_live_faults [of "example_injector\<lparr>slots := [\<lparr>fe_type = FAULT_TYPE_GPS_LOSS,
       fe_active = True, fe_start_ms = 5, fe_duration_ms = 100, fe_param = 0\<rparr>],
       fi_imu := Some imu, fi_gps := Some gps, fi_battery := Some batt\<rparr>" imu gps batt 50]
    by (auto simp: live_def expired_def)
qed

text \<open>The reported fault byte is what is live: after a tick, bit 0, 1, 2 or 3 of
  \<open>fault_get_flags\<close> is set exactly when a GPS, freeze, battery or comms fault is live, and no
  other bit is ever set.\<close>

lemma fault_flags_report_live_faults:
  "bit (fault_get_flags (fault_tick f now)) n \<longleftrightarrow>
     n = 0 \<and> live now (slots f) FAULT_TYPE_GPS_LOSS \<or>
     n = 1 \<and> live now (slots f) FAULT_TYPE_SENSOR_FREEZE \<or>
     n = 2 \<and> live now (slots f) FAULT_TYPE_BATTERY_SAG \<or>
     n = 3 \<and> live now (slots f) FAULT_TYPE_COMMS_DROP"
  unfolding fault_get_flags_bit live_iff_active_after_tick bit_slot_flag by blast

text \<open>Injection takes the first free slot: it succeeds exactly when one of the eight slots is
  free, then only that slot changes, to an active fault with the given type, start, duration and
  parameter; with no free slot it returns -1 and changes nothing.\<close>

lemma fault_inject_first_free_slot:
  assumes "length (slots f) = 8" "fault_inject f k param dur now = (i, f')"
  shows "if \<exists>e \<in> set (slots f). \<not> fe_active e
    then \<exists>j < 8. i = int j \<and> \<not> fe_active (slots f ! j) \<and> (\<forall>m < j. fe_active (slots f ! m)) \<and>
      f' = f\<lparr>slots := (slots f)[j := \<lparr>fe_type = k, fe_active = True, fe_start_ms = now,
        fe_duration_ms = dur, fe_param = param\<rparr>]\<rparr>
    else i = -1 \<and> f' = f"
proof (cases "List.find (\<lambda>i. \<not> fe_active (slots f ! i)) [0..<8]")
  case None
  then have "\<forall>j < 8. fe_active (slots f ! j)" by (auto simp: find_None_iff)
  then have "\<not> (\<exists>e \<in> set (slots f). \<not> fe_active e)" using assms(1) by (auto simp: in_set_conv_nth)
  with assms(2) None show ?thesis by (simp add: fault_inject_def FAULT_SLOTS_def)
next
  case (Some j)
  then have j: "j < 8" "\<not> fe_active (slots f ! j)" "\<forall>m < j. fe_active (slots f ! m)"
    by (auto simp: find_Some_iff)
  have "slots f ! j \<in> set (slots f)" using j(1) assms(1) by simp
  with j(2) have "\<exists>e \<in> set (slots f). \<not> fe_active e" by blast
  with j assms(2) Some show ?thesis by (auto simp: fault_inject_def FAULT_SLOTS_def)
qed

text \<open>C20: Every timed fault lasts exactly its time and then ends: after an injection with duration
  \<open>dur > 0\<close> and any sequence of ticks, its slot is still active exactly when every tick came less
  than \<open>dur\<close> milliseconds after the injection (modulo the 32-bit clock); with duration 0 it is
  active after every sequence of ticks.\<close>

theorem timed_fault_ends:
  assumes "length (slots f) = FAULT_SLOTS" "fault_inject f k param dur start = (i, f')" "i \<ge> 0"
  shows "fe_active (slots (foldl fault_tick f' ts) ! nat i) \<longleftrightarrow>
    dur = 0 \<or> (\<forall>t \<in> set ts. t - start < dur)"
proof -
  note f' = fault_inject_slot [OF assms(2,3)]
  have i: "nat i < length (slots f')" "slots f' ! nat i =
      \<lparr>fe_type = k, fe_active = True, fe_start_ms = start, fe_duration_ms = dur, fe_param = param\<rparr>"
    using f' assms(1) by simp_all
  show ?thesis
    unfolding slot_active_after_ticks [OF i(1)] i(2) by (auto simp: expired_def word_gt_0 not_le)
qed

theorem timed_fault_ends_witness:
  "\<exists>f'. fault_inject example_injector FAULT_TYPE_GPS_LOSS 0 100 4294967290 = (0, f') \<and>
     fe_active (slots (foldl fault_tick f' [4294967290, 4, 93]) ! 0) \<and>
     \<not> fe_active (slots (foldl fault_tick f' [4294967290, 94, 95]) ! 0)"
proof -
  obtain i f' where e: "fault_inject example_injector FAULT_TYPE_GPS_LOSS 0 100 4294967290 = (i, f')"
    by (metis surj_pair)
  have s: "slots example_injector = replicate FAULT_SLOTS fault_entry_zero"
    by (simp add: example_injector_def fault_init_def)
  have "[0..<FAULT_SLOTS] = 0 # [1..<FAULT_SLOTS]" by (simp add: FAULT_SLOTS_def upt_conv_Cons)
  moreover have "\<not> fe_active (slots example_injector ! 0)"
    by (simp add: s FAULT_SLOTS_def fault_entry_zero_def)
  ultimately have i: "i = 0" using e by (simp add: fault_inject_def)
  have l: "length (slots example_injector) = FAULT_SLOTS" by (simp add: s)
  from timed_fault_ends [OF l e, of "[4294967290, 4, 93]"] timed_fault_ends [OF l e, of "[4294967290, 94, 95]"] e i
  show ?thesis by simp
qed

end
