(* ===== verification/CText.thy ===== *)
theory CText
  imports Floats
begin

text \<open>
  Text as the simulator's C code scans and prints it: \<open>sscanf\<close> with \<open>%31s\<close>, \<open>%u\<close> and \<open>%f\<close>,
  \<open>strchr\<close>, and the conversions \<open>%u\<close>, \<open>%d\<close> and \<open>%02X\<close> of \<open>dprintf\<close>, in the C locale.  A pointer
  into memory is the list of bytes from there on; the string at it ends before the first NUL.

  A number that \<open>%u\<close> cannot represent is undefined in C; it is converted here as the GNU
  library does on a 64-bit host.  The spellings of \<open>%f\<close> other than decimal numbers (infinities,
  NaNs, hexadecimal) are a parameter.
\<close>

named_theorems scan_simps \<open>scanning of concrete text\<close>

section \<open>Strings in memory\<close>

definition c_string :: "byte list \<Rightarrow> byte list" where
  "c_string mem = takeWhile (\<lambda>c. c \<noteq> 0) mem"

text \<open>The position of a character in the string at position \<open>p\<close> of a buffer, if any.\<close>

definition c_strchr :: "buf \<Rightarrow> nat \<Rightarrow> byte \<Rightarrow> nat option" where
  "c_strchr b p c =
     (let s = c_string (drop p b)
      in if c \<in> set s then Some (p + length (takeWhile (\<lambda>x. x \<noteq> c) s)) else None)"

lemma c_string_append_nul [scan_simps]: "0 \<notin> set s \<Longrightarrow> c_string (s @ 0 # t) = s"
  by (auto simp: c_string_def takeWhile_append)

lemma c_string_clean [scan_simps]: "0 \<notin> set s \<Longrightarrow> c_string s = s"
  by (auto simp: c_string_def takeWhile_eq_all_conv)

lemma length_takeWhile_less_set: "c \<in> set s \<Longrightarrow> length (takeWhile (\<lambda>x. x \<noteq> c) s) < length s"
  by (induction s) auto

lemma c_strchr_bounds: "c_strchr b p c = Some q \<Longrightarrow> p \<le> q \<and> q < length b"
proof -
  assume q: "c_strchr b p c = Some q"
  then have c: "c \<in> set (c_string (drop p b))"
    and q: "q = p + length (takeWhile (\<lambda>x. x \<noteq> c) (c_string (drop p b)))"
    by (auto simp: c_strchr_def Let_def split: if_splits)
  have "length (c_string (drop p b)) \<le> length b - p"
    unfolding c_string_def by (metis length_drop length_takeWhile_le)
  with length_takeWhile_less_set [OF c] q show ?thesis by simp
qed

section \<open>Scanning\<close>

definition c_isspace :: "byte \<Rightarrow> bool" where
  "c_isspace c \<longleftrightarrow> c = 32 \<or> 9 \<le> c \<and> c \<le> 13"

definition c_isdigit :: "byte \<Rightarrow> bool" where
  "c_isdigit c \<longleftrightarrow> 48 \<le> c \<and> c \<le> 57"

definition skip_space :: "byte list \<Rightarrow> byte list" where
  "skip_space s = dropWhile c_isspace s"

text \<open>\<open>sscanf(mem, "%31s", word)\<close> with a zeroed \<open>word\<close>, for 31 = \<open>n\<close>.\<close>

definition scan_word :: "nat \<Rightarrow> byte list \<Rightarrow> byte list" where
  "scan_word n mem = take n (takeWhile (\<lambda>c. \<not> c_isspace c) (skip_space (c_string mem)))"

definition dec_value :: "byte list \<Rightarrow> nat" where
  "dec_value ds = foldl (\<lambda>n d. 10 * n + (unat d - 48)) 0 ds"

text \<open>An optional sign: whether it is a minus, and what follows.\<close>

definition scan_sign :: "byte list \<Rightarrow> bool \<times> byte list" where
  "scan_sign s =
     (case s of [] \<Rightarrow> (False, [])
      | c # t \<Rightarrow> if c = 45 then (True, t) else if c = 43 then (False, t) else (False, s))"

text \<open>\<open>strtoul\<close> with a 64-bit \<open>unsigned long\<close>, cut to \<open>unsigned int\<close>.\<close>

definition c_strtoul :: "bool \<Rightarrow> nat \<Rightarrow> u32" where
  "c_strtoul neg v =
     (if v < 2 ^ 64 then (if neg then - of_nat v else of_nat v) else 0xFFFFFFFF)"

text \<open>\<open>%u\<close> on a string: the number and the rest, or a failure.\<close>

definition scan_u :: "byte list \<Rightarrow> (u32 \<times> byte list) option" where
  "scan_u s =
     (let (neg, t) = scan_sign (skip_space s); ds = takeWhile c_isdigit t
      in if ds = [] then None else Some (c_strtoul neg (dec_value ds), dropWhile c_isdigit t))"

text \<open>\<open>atoi\<close>, for a number that fits an \<open>int\<close>.\<close>

definition c_atoi :: "byte list \<Rightarrow> int" where
  "c_atoi mem =
     (let (neg, t) = scan_sign (skip_space (c_string mem)); v = int (dec_value (takeWhile c_isdigit t))
      in if neg then - v else v)"

text \<open>The decimal part of \<open>%f\<close>: digits with an optional point and an optional exponent,
  rounded to nearest.\<close>

definition dec_float :: "bool \<Rightarrow> nat \<Rightarrow> int \<Rightarrow> f32" where
  "dec_float neg m k =
     word_of_int (fp_make F32 neg (if 0 \<le> k
       then fp_round F32 (int m * 10 ^ nat k * fp_one F32) 1
       else fp_round F32 (int m * fp_one F32) (10 ^ nat (- k))))"

definition scan_decimal :: "bool \<Rightarrow> byte list \<Rightarrow> (f32 \<times> byte list) option" where
  "scan_decimal neg s =
     (let ip = takeWhile c_isdigit s; r = dropWhile c_isdigit s;
          (fr, r) = (case r of [] \<Rightarrow> ([], r)
            | c # t \<Rightarrow> if c = 46 then (takeWhile c_isdigit t, dropWhile c_isdigit t) else ([], r));
          m = dec_value (ip @ fr)
      in if ip @ fr = [] then None
         else case r of [] \<Rightarrow> Some (dec_float neg m (- int (length fr)), r)
           | c # t \<Rightarrow>
             if c = 101 \<or> c = 69
             then let (eneg, t) = scan_sign t; es = takeWhile c_isdigit t;
                      e = (if eneg then - int (dec_value es) else int (dec_value es))
                  in if es = [] then None
                     else Some (dec_float neg m (e - int (length fr)), dropWhile c_isdigit t)
             else Some (dec_float neg m (- int (length fr)), r))"

text \<open>Does a number start like an infinity, a NaN or a hexadecimal number?\<close>

definition special_float :: "byte list \<Rightarrow> bool" where
  "special_float s =
     (case s of [] \<Rightarrow> False
      | c # t \<Rightarrow> c \<in> {73, 105, 78, 110} \<or> c = 48 \<and> t \<noteq> [] \<and> hd t \<in> {88, 120})"

type_synonym float_scanner = "byte list \<Rightarrow> (f32 \<times> byte list) option"

definition scan_f :: "float_scanner \<Rightarrow> byte list \<Rightarrow> (f32 \<times> byte list) option" where
  "scan_f special s =
     (let s = skip_space s; (neg, t) = scan_sign s
      in if special_float t then special s else scan_decimal neg t)"

section \<open>Printing\<close>

fun dec_digits :: "nat \<Rightarrow> byte list" where
  "dec_digits n = (if n < 10 then [of_nat (48 + n)] else dec_digits (n div 10) @ [of_nat (48 + n mod 10)])"

declare dec_digits.simps [simp del]

definition print_u :: "u32 \<Rightarrow> byte list" where
  "print_u w = dec_digits (unat w)"

definition print_d :: "int \<Rightarrow> byte list" where
  "print_d i = (if i < 0 then 45 # dec_digits (nat (- i)) else dec_digits (nat i))"

definition hex_digit :: "nat \<Rightarrow> byte" where
  "hex_digit d = of_nat (if d < 10 then 48 + d else 55 + d)"

definition print_02X :: "byte \<Rightarrow> byte list" where
  "print_02X b = [hex_digit (unat b div 16), hex_digit (unat b mod 16)]"

section \<open>Lemmas\<close>

lemma c_isdigit_not_space: "c_isdigit c \<Longrightarrow> \<not> c_isspace c"
  by (auto simp: c_isdigit_def c_isspace_def word_le_nat_alt)

lemma c_isdigit_nonzero: "c_isdigit c \<Longrightarrow> c \<noteq> 0"
  by (auto simp: c_isdigit_def)

lemma c_isdigit_of_nat: "d < 10 \<Longrightarrow> c_isdigit (of_nat (48 + d))"
  and unat_digit: "d < 10 \<Longrightarrow> unat (of_nat (48 + d) :: byte) = 48 + d"
proof -
  show u: "unat (of_nat (48 + d) :: byte) = 48 + d" if "d < 10" for d
    using that by (simp only: unat_of_nat) simp
  show "c_isdigit (of_nat (48 + d))" if "d < 10" for d
    unfolding c_isdigit_def word_le_nat_alt u [OF that] using that by simp
qed

lemma dec_digits_digits: "c \<in> set (dec_digits n) \<Longrightarrow> c_isdigit c"
proof (induction n rule: dec_digits.induct)
  case (1 n)
  then show ?case
    by (subst (asm) (2) dec_digits.simps) (auto simp del: of_nat_add split: if_splits intro: c_isdigit_of_nat)
qed

lemma dec_digits_nonempty [simp]: "dec_digits n \<noteq> []"
  by (subst dec_digits.simps) simp

lemma dec_value_snoc: "dec_value (ds @ [d]) = 10 * dec_value ds + (unat d - 48)"
  by (simp add: dec_value_def)

lemma dec_value_digits: "dec_value (dec_digits n) = n"
proof (induction n rule: dec_digits.induct)
  case (1 n)
  show ?case
  proof (cases "n < 10")
    case True
    then have "dec_digits n = [] @ [of_nat (48 + n)]" by (subst dec_digits.simps) simp
    then show ?thesis using True by (simp only: dec_value_snoc unat_digit) (simp add: dec_value_def)
  next
    case False
    then have "dec_digits n = dec_digits (n div 10) @ [of_nat (48 + n mod 10)]"
      by (subst dec_digits.simps) simp
    then show ?thesis using 1 [OF False] by (simp only: dec_value_snoc unat_digit mod_less_divisor) simp
  qed
qed

lemma takeWhile_digits [scan_simps]:
  "r = [] \<or> \<not> c_isdigit (hd r) \<Longrightarrow> takeWhile c_isdigit (dec_digits n @ r) = dec_digits n"
  "r = [] \<or> \<not> c_isdigit (hd r) \<Longrightarrow> dropWhile c_isdigit (dec_digits n @ r) = r"
  using dec_digits_digits [of _ n]
  by (cases r; simp add: takeWhile_append dropWhile_append takeWhile_eq_all_conv dropWhile_eq_Nil_conv)+

lemma dec_digits_hd: "c_isdigit (hd (dec_digits n))"
  by (rule dec_digits_digits [of _ n]) simp

lemma skip_space_digits [scan_simps]: "skip_space (dec_digits n @ r) = dec_digits n @ r"
proof -
  obtain c cs where d: "dec_digits n = c # cs" using dec_digits_nonempty by (metis list.exhaust)
  with c_isdigit_not_space [OF dec_digits_hd, of n] show ?thesis by (simp add: skip_space_def)
qed

lemma scan_sign_digits [scan_simps]: "scan_sign (dec_digits n @ r) = (False, dec_digits n @ r)"
proof -
  obtain c cs where d: "dec_digits n = c # cs" using dec_digits_nonempty by (metis list.exhaust)
  have "c \<noteq> 45" "c \<noteq> 43" using dec_digits_hd [of n] d by (auto simp: c_isdigit_def)
  with d show ?thesis by (simp add: scan_sign_def)
qed

text \<open>Printing and scanning back.\<close>

lemma scan_u_print:
  assumes "r = [] \<or> \<not> c_isdigit (hd r)"
  shows "scan_u (print_u w @ r) = Some (w, r)"
proof -
  have "unat w < 2 ^ 64" using unsigned_less [of w, where 'a = nat] by simp
  then have "c_strtoul False (unat w) = w" by (simp add: c_strtoul_def)
  then show ?thesis
    using assms by (simp add: scan_u_def print_u_def scan_simps dec_value_digits Let_def)
qed

lemma scan_u_space [scan_simps]: "scan_u (32 # s) = scan_u s"
  by (simp add: scan_u_def skip_space_def c_isspace_def)

lemma print_u_clean: "0 \<notin> set (print_u w)"
  using dec_digits_digits c_isdigit_nonzero by (auto simp: print_u_def)

end
