(* ===== verification/TcpServer.thy ===== *)
theory TcpServer
  imports FaultInjector CText
begin

text \<open>
  The simulator's command server, \<open>Simulator/tcpserver.c\<close>: connections, the assembly of command
  lines in the static receive buffer, and the commands, which drive the fault injector.

  The results of the system calls are arguments of the operations: the descriptor \<open>accept\<close> returns
  and the function \<open>rd\<close> from a requested size to the result of \<open>read\<close>.  What the server sends and
  closes is a trace.  Console output, the non-blocking mode and the peer's address are left out.
  A command gets the memory from its first byte on, since it reads beyond the end of its line in
  some cases; \<open>beyond\<close> is whatever lies behind the receive buffer.
\<close>

section \<open>State\<close>

datatype tcp_event = Tcp_Send int "byte list" | Tcp_Close int

datatype read_result = Read_Bytes "byte list" | Read_Again | Read_Error

text \<open>The struct, the two static variables of \<open>tcp_server_tick\<close>, and the trace.\<close>

record tcp_server =
  listen_fd :: int
  client_fd :: int
  tcp_port :: int
  rx_buf :: buf
  rx_pos :: nat
  tcp_io :: "tcp_event list"

definition RX_BUF_SIZE :: nat where "RX_BUF_SIZE = 256"

definition tcp_send :: "byte list \<Rightarrow> tcp_server \<Rightarrow> tcp_server" where
  "tcp_send text srv = srv\<lparr>tcp_io := tcp_io srv @ [Tcp_Send (client_fd srv) text]\<rparr>"

definition tcp_drop_client :: "tcp_server \<Rightarrow> tcp_server" where
  "tcp_drop_client srv =
     srv\<lparr>tcp_io := tcp_io srv @ [Tcp_Close (client_fd srv)], client_fd := -1\<rparr>"

text \<open>\<open>tcp_server_init\<close>: the results of \<open>socket\<close>, \<open>bind\<close> and \<open>listen\<close> are arguments.  The static
  variables are zero from the start of the program.\<close>

definition tcp_server_zero :: tcp_server where
  "tcp_server_zero =
     \<lparr>listen_fd = 0, client_fd = 0, tcp_port = 0, rx_buf = replicate RX_BUF_SIZE 0, rx_pos = 0,
      tcp_io = []\<rparr>"

definition tcp_server_init :: "int \<Rightarrow> int \<Rightarrow> int \<Rightarrow> int \<Rightarrow> tcp_server \<Rightarrow> int \<times> tcp_server" where
  "tcp_server_init sock bound listening port srv =
     (let srv = srv\<lparr>listen_fd := 0, client_fd := 0, tcp_port := 0\<rparr>;
          srv = srv\<lparr>tcp_port := port, client_fd := -1, listen_fd := sock\<rparr>
      in if listen_fd srv < 0 then (-1, srv)
         else if bound < 0 then (-1, srv\<lparr>tcp_io := tcp_io srv @ [Tcp_Close (listen_fd srv)]\<rparr>)
         else if listening < 0 then (-1, srv\<lparr>tcp_io := tcp_io srv @ [Tcp_Close (listen_fd srv)]\<rparr>)
         else (0, srv))"

section \<open>Commands\<close>

text \<open>The five fault names, in the order the code compares them.\<close>

definition fault_of_name :: "byte list \<Rightarrow> fault_type option" where
  "fault_of_name sub =
     (if sub = c_str ''GPS_LOSS'' then Some FAULT_TYPE_GPS_LOSS
      else if sub = c_str ''SENSOR_FREEZE'' then Some FAULT_TYPE_SENSOR_FREEZE
      else if sub = c_str ''BATT_SAG'' then Some FAULT_TYPE_BATTERY_SAG
      else if sub = c_str ''COMMS_DROP'' then Some FAULT_TYPE_COMMS_DROP
      else if sub = c_str ''PKT_CORRUPT'' then Some FAULT_TYPE_PACKET_CORRUPT
      else None)"

text \<open>The arguments at a position: \<open>%f %u\<close> for the battery, where a parameter equal to 0 stands for
  10 V, and \<open>%u\<close> for the others.\<close>

definition fault_arguments :: "float_scanner \<Rightarrow> fault_type \<Rightarrow> byte list \<Rightarrow> f32 \<times> u32" where
  "fault_arguments special type mem =
     (if type = FAULT_TYPE_BATTERY_SAG
      then let (param, dur) =
             (case scan_f (special) (c_string mem) of None \<Rightarrow> (0, 0)
              | Some (p, r) \<Rightarrow> (p, case scan_u r of None \<Rightarrow> 0 | Some (d, _) \<Rightarrow> d))
           in (if f32_eq param 0 then f32_lit 10 1 else param, dur)
      else (0, case scan_u (c_string mem) of None \<Rightarrow> 0 | Some (d, _) \<Rightarrow> d))"

text \<open>\<open>handle_command\<close> on the memory from the line on, at simulator time \<open>now_ms\<close>.\<close>

definition handle_command ::
    "float_scanner \<Rightarrow> u32 \<Rightarrow> byte list \<Rightarrow> tcp_server \<times> fault_injector
     \<Rightarrow> tcp_server \<times> fault_injector" where
  "handle_command special now_ms line st =
     (let (srv, f) = st; cmd = scan_word 31 line
      in if cmd = c_str ''FAULT''
         then let sub = scan_word 31 (drop 6 line)
              in if sub = c_str ''CLEAR''
                 then (tcp_send (c_str ''OK cleared all faults'' @ [10]) srv, fault_clear_all f)
                 else (case fault_of_name sub of
                     None \<Rightarrow> (tcp_send (c_str ''ERR unknown fault type: '' @ sub @ [10]) srv, f)
                   | Some type \<Rightarrow>
                       let (param, dur) = fault_arguments special type (drop (6 + length sub + 1) line);
                           (slot, f) = fault_inject f type param dur now_ms
                       in if slot \<ge> 0
                          then (tcp_send (c_str ''OK injected '' @ sub @ c_str '' slot='' @ print_d slot @
                                  c_str '' dur='' @ print_u dur @ [10]) srv, f)
                          else (tcp_send (c_str ''ERR no free fault slots'' @ [10]) srv, f))
         else if cmd = c_str ''STATUS''
         then (tcp_send (c_str ''STATUS flags=0x'' @ print_02X (fault_get_flags f) @
                 c_str '' time='' @ print_u now_ms @ [10]) srv, f)
         else if cmd = c_str ''QUIT''
         then (tcp_drop_client (tcp_send (c_str ''BYE'' @ [10]) srv), f)
         else (tcp_send (c_str ''ERR unknown command: '' @ cmd @ [10]) srv, f))"

section \<open>The line loop\<close>

text \<open>The loop's variables: the buffer, the position \<open>line_start\<close>, and what the commands change.
  One iteration runs when there is a newline in the string at \<open>line_start\<close>.\<close>

type_synonym line_state = "buf \<times> nat \<times> (tcp_server \<times> fault_injector)"

definition strip_return :: "buf \<Rightarrow> nat \<Rightarrow> buf" where
  "strip_return buf p =
     (let len = length (c_string (drop p buf))
      in if len > 0 \<and> buf ! (p + len - 1) = 13 then buf[p + len - 1 := 0] else buf)"

definition tcp_line_step ::
    "float_scanner \<Rightarrow> byte list \<Rightarrow> u32 \<Rightarrow> line_state \<Rightarrow> line_state option" where
  "tcp_line_step special beyond now_ms s =
     (let (buf, line_start, st) = s
      in case c_strchr buf line_start 10 of None \<Rightarrow> None
         | Some newline \<Rightarrow>
           let buf = strip_return (buf[newline := 0]) line_start;
               st = (if length (c_string (drop line_start buf)) > 0
                     then handle_command special now_ms (drop line_start buf @ beyond) st else st)
           in Some (buf, newline + 1, st))"

lemma length_strip_return [len_simps]: "length (strip_return buf p) = length buf"
  by (simp add: strip_return_def Let_def)

lemma tcp_line_step_progress:
  "tcp_line_step special beyond now (buf, p, st) = Some (buf', p', st') \<Longrightarrow>
     p < p' \<and> p' \<le> length buf \<and> length buf' = length buf"
  using c_strchr_bounds [of buf p 10]
  by (auto simp: tcp_line_step_def Let_def len_simps split: option.splits)

function tcp_lines :: "float_scanner \<Rightarrow> byte list \<Rightarrow> u32 \<Rightarrow> line_state \<Rightarrow> line_state" where
  "tcp_lines special beyond now_ms s =
     (case tcp_line_step special beyond now_ms s of None \<Rightarrow> s
      | Some s' \<Rightarrow> tcp_lines special beyond now_ms s')"
  by pat_completeness auto
termination
proof (relation "measure (\<lambda>(special, beyond, now, buf, p, st). length buf - p)", goal_cases)
  case (2 special beyond now s s')
  obtain buf p st where s: "s = (buf, p, st)" by (rule prod_cases3)
  obtain buf' p' st' where s': "s' = (buf', p', st')" by (rule prod_cases3)
  from tcp_line_step_progress [OF 2 [unfolded s s']] show ?case unfolding s s' by simp linarith
qed simp

declare tcp_lines.simps [simp del]

section \<open>The tick\<close>

definition tcp_greeting :: "byte list" where
  "tcp_greeting = c_str ''AEROBENCH-SIM ready. Commands: FAULT|STATUS|QUIT'' @ [10]"

text \<open>What follows a \<open>read\<close> that returned bytes: process the complete lines and move the rest to the
  front.\<close>

definition tcp_process ::
    "float_scanner \<Rightarrow> byte list \<Rightarrow> u32 \<Rightarrow> byte list \<Rightarrow> tcp_server \<times> fault_injector
     \<Rightarrow> tcp_server \<times> fault_injector" where
  "tcp_process special beyond now_ms bs st =
     (let (srv, f) = st;
          pos = rx_pos srv + length bs;
          buf = (buf_put (rx_pos srv) bs (rx_buf srv))[pos := 0];
          (buf, line_start, srv, f) = tcp_lines special beyond now_ms (buf, 0, srv, f);
          remaining = pos - line_start;
          buf = (if remaining > 0 \<and> line_start \<noteq> 0
                 then buf_put 0 (take remaining (drop line_start buf)) buf else buf)
      in (srv\<lparr>rx_buf := buf, rx_pos := remaining\<rparr>, f))"

definition tcp_server_tick ::
    "float_scanner \<Rightarrow> byte list \<Rightarrow> u32 \<Rightarrow> int \<Rightarrow> (nat \<Rightarrow> read_result)
     \<Rightarrow> tcp_server \<times> fault_injector \<Rightarrow> tcp_server \<times> fault_injector" where
  "tcp_server_tick special beyond now_ms accepted rd st =
     (let (srv, f) = st
      in if client_fd srv < 0
         then (if accepted \<ge> 0 then tcp_send tcp_greeting (srv\<lparr>client_fd := accepted\<rparr>) else srv, f)
         else (case rd (RX_BUF_SIZE - 1 - rx_pos srv) of
             Read_Error \<Rightarrow> ((tcp_drop_client srv)\<lparr>rx_pos := 0\<rparr>, f)
           | Read_Again \<Rightarrow> (srv, f)
           | Read_Bytes bs \<Rightarrow>
               if bs = [] then ((tcp_drop_client srv)\<lparr>rx_pos := 0\<rparr>, f)
               else tcp_process special beyond now_ms bs (srv, f)))"

definition tcp_server_close :: "tcp_server \<Rightarrow> tcp_server" where
  "tcp_server_close srv =
     (let srv = (if client_fd srv \<ge> 0 then tcp_drop_client srv else srv)
      in if listen_fd srv \<ge> 0
         then srv\<lparr>tcp_io := tcp_io srv @ [Tcp_Close (listen_fd srv)], listen_fd := -1\<rparr> else srv)"

section \<open>Specification: assembling lines byte by byte\<close>

text \<open>The lines completed so far and the bytes of the unfinished one.\<close>

definition feed_line :: "byte list list \<times> byte list \<Rightarrow> byte \<Rightarrow> byte list list \<times> byte list" where
  "feed_line s c = (if c = 10 then (fst s @ [snd s], []) else (fst s, snd s @ [c]))"

definition assemble :: "byte list \<Rightarrow> byte list \<Rightarrow> byte list list \<times> byte list" where
  "assemble pending bs = foldl feed_line ([], pending) bs"

definition strip_cr :: "byte list \<Rightarrow> byte list" where
  "strip_cr l = (if l \<noteq> [] \<and> last l = 13 then butlast l else l)"

definition commands :: "byte list list \<Rightarrow> byte list list" where
  "commands ls = filter (\<lambda>l. l \<noteq> []) (map strip_cr ls)"

lemma feed_line_simps:
  "feed_line (ls, p) 10 = (ls @ [p], [])" "c \<noteq> 10 \<Longrightarrow> feed_line (ls, p) c = (ls, p @ [c])"
  by (simp_all add: feed_line_def)

lemma foldl_feed_line:
  "foldl feed_line (ls, p) bs = (ls @ fst (assemble p bs), snd (assemble p bs))"
proof (induction bs arbitrary: ls p)
  case Nil
  then show ?case by (simp add: assemble_def)
next
  case (Cons c bs)
  have a: "assemble p (c # bs) = foldl feed_line (feed_line ([], p) c) bs"
    by (simp add: assemble_def)
  show ?case unfolding a by (cases "c = 10") (simp_all add: feed_line_simps Cons.IH)
qed

lemma assemble_append:
  "assemble p (as @ bs) =
     (fst (assemble p as) @ fst (assemble (snd (assemble p as)) bs),
      snd (assemble (snd (assemble p as)) bs))"
proof -
  have "assemble p (as @ bs) = foldl feed_line (assemble p as) bs" by (simp add: assemble_def)
  then show ?thesis
    using foldl_feed_line [of "fst (assemble p as)" "snd (assemble p as)" bs] by simp
qed

lemma assemble_partial: "10 \<notin> set bs \<Longrightarrow> assemble p bs = ([], p @ bs)"
  by (induction bs rule: rev_induct) (auto simp: assemble_def feed_line_def)

lemma assemble_Nil [simp]: "assemble p [] = ([], p)"
  by (simp add: assemble_def)

lemma assemble_pending: "10 \<notin> set p \<Longrightarrow> assemble [] (p @ bs) = assemble p bs"
  by (simp add: assemble_append assemble_partial)

lemma assemble_line:
  "10 \<notin> set l \<Longrightarrow>
     assemble [] (l @ 10 # bs) = (l # fst (assemble [] bs), snd (assemble [] bs))"
  using assemble_append [of "[]" l "10 # bs"] assemble_append [of l "[10]" bs]
  by (simp add: assemble_partial) (simp add: assemble_def feed_line_def)

lemma assemble_rest:
  "10 \<notin> set p \<Longrightarrow> 10 \<notin> set (snd (assemble p bs))"
  "length (snd (assemble p bs)) \<le> length p + length bs"
  "set (snd (assemble p bs)) \<subseteq> set p \<union> set bs"
  by (induction bs rule: rev_induct) (auto simp: assemble_def feed_line_def)

lemma assemble_lines_clean:
  "c \<notin> set p \<Longrightarrow> c \<notin> set bs \<Longrightarrow> l \<in> set (fst (assemble p bs)) \<Longrightarrow> c \<notin> set l"
proof (induction bs rule: rev_induct)
  case (snoc b bs)
  have "assemble p (bs @ [b]) = feed_line (assemble p bs) b" by (simp add: assemble_def)
  with snoc assemble_rest(3) [of p bs] show ?case by (auto simp: feed_line_def split: if_splits)
qed simp

lemma strip_cr_clean: "c \<notin> set l \<Longrightarrow> c \<notin> set (strip_cr l)"
  by (auto simp: strip_cr_def dest: in_set_butlastD)

lemma commands_simps [simp]:
  "commands [] = []" "commands (ls @ ms) = commands ls @ commands ms"
  "commands (l # ls) = (if strip_cr l = [] then [] else [strip_cr l]) @ commands ls"
  by (simp_all add: commands_def)

lemma commands_clean:
  "\<forall>l \<in> set ls. c \<notin> set l \<Longrightarrow> l \<in> set (commands ls) \<Longrightarrow> c \<notin> set l"
  by (auto simp: commands_def strip_cr_clean)

section \<open>Handling a list of lines\<close>

text \<open>The interface between the line loop and the commands: a handler that gets the memory from the
  line on, and the lines on which it does not look beyond the terminator.\<close>

locale line_handler =
  fixes handle :: "byte list \<Rightarrow> 's \<Rightarrow> 's"
    and closed :: "byte list \<Rightarrow> bool"
  assumes handle_closed: "closed l \<Longrightarrow> 0 \<notin> set l \<Longrightarrow> handle (l @ 0 # t) s = handle (l @ [0]) s"
begin

definition handle_all :: "'s \<Rightarrow> byte list list \<Rightarrow> 's" where
  "handle_all s ls = foldl (\<lambda>s l. handle (l @ [0]) s) s ls"

lemma handle_all_simps [simp]:
  "handle_all s [] = s" "handle_all s (l # ls) = handle_all (handle (l @ [0]) s) ls"
  "handle_all s (ls @ ms) = handle_all (handle_all s ls) ms"
  by (simp_all add: handle_all_def)

lemma handle_tails:
  "\<forall>l \<in> set ls. closed l \<and> 0 \<notin> set l \<Longrightarrow> length ts = length ls \<Longrightarrow>
     foldl (\<lambda>s (l, t). handle (l @ 0 # t) s) s (zip ls ts) = handle_all s ls"
proof (induction ls arbitrary: ts s)
  case (Cons l ls)
  then obtain t us where ts: "ts = t # us" by (cases ts) auto
  from Cons.prems have "handle (l @ 0 # t) s = handle (l @ [0]) s" by (intro handle_closed) auto
  with Cons show ?case by (simp add: ts)
qed simp

lemma handle_all_keeps:
  "(\<And>l s. l \<in> set ls \<Longrightarrow> view (handle (l @ [0]) s) = view s) \<Longrightarrow> view (handle_all s ls) = view s"
  by (induction ls arbitrary: s) simp_all

end

text \<open>A line is closed when what follows \<open>FAULT\<close> is on the line: the word, and (but for \<open>CLEAR\<close> and
  unknown names) the blank behind it.\<close>

definition closed_command :: "byte list \<Rightarrow> bool" where
  "closed_command l \<longleftrightarrow>
     (scan_word 31 l = c_str ''FAULT'' \<longrightarrow>
      6 \<le> length l \<and> (let sub = scan_word 31 (drop 6 l)
        in fault_of_name sub = None \<or> 6 + length sub + 1 \<le> length l))"

lemma scan_word_nul: "0 \<notin> set s \<Longrightarrow> scan_word n (s @ 0 # t) = scan_word n s"
  by (simp add: scan_word_def scan_simps)

lemma fault_arguments_nul:
  "0 \<notin> set s \<Longrightarrow> fault_arguments special k (s @ 0 # t) = fault_arguments special k s"
  by (simp add: fault_arguments_def scan_simps)

lemma not_in_drop: "c \<notin> set l \<Longrightarrow> c \<notin> set (drop n l)"
  by (auto dest: in_set_dropD)

lemma handle_command_closed:
  assumes "closed_command l" "0 \<notin> set l"
  shows "handle_command special now (l @ 0 # t) st = handle_command special now l st"
proof (cases "scan_word 31 l = c_str ''FAULT''")
  case True
  with assms(1) have len: "6 \<le> length l"
    and sub: "fault_of_name (scan_word 31 (drop 6 l)) = None \<or> 6 + length (scan_word 31 (drop 6 l)) + 1 \<le> length l"
    by (auto simp: closed_command_def Let_def)
  have w: "scan_word 31 (drop 6 (l @ 0 # t)) = scan_word 31 (drop 6 l)"
    using len assms(2) by (simp add: scan_word_nul not_in_drop)
  have a: "fault_arguments special k (drop (6 + length (scan_word 31 (drop 6 l)) + 1) (l @ 0 # t)) =
      fault_arguments special k (drop (6 + length (scan_word 31 (drop 6 l)) + 1) l)"
    if "fault_of_name (scan_word 31 (drop 6 l)) \<noteq> None" for k
  proof -
    have "6 + length (scan_word 31 (drop 6 l)) + 1 \<le> length l"
      using sub by (rule disjE) (simp_all add: that)
    then show ?thesis using assms(2) by (simp add: fault_arguments_nul not_in_drop)
  qed
  show ?thesis
    unfolding handle_command_def scan_word_nul [OF assms(2)] True w Let_def
    by (cases "fault_of_name (scan_word 31 (drop 6 l))") (use a in \<open>simp_all add: split_beta\<close>)
next
  case False
  then show ?thesis
    unfolding handle_command_def scan_word_nul [OF assms(2)] Let_def by simp
qed

interpretation tcp: line_handler "handle_command special now" closed_command for special now
  by unfold_locales (metis handle_command_closed)

section \<open>The line loop handles exactly the complete lines\<close>

text \<open>One iteration on a buffer whose string at \<open>p\<close> starts with a line \<open>l\<close>.\<close>

lemma drop_update_at:
  assumes "drop p buf = xs @ c # ys"
  shows "drop p (buf[p + length xs := d]) = xs @ d # ys"
proof -
  have "drop p (buf[p + length xs := d]) = (drop p buf)[length xs := d]" by (simp add: drop_update_swap)
  then show ?thesis using assms by simp
qed

lemma drop_at_lengths: "drop p buf = xs @ ys \<Longrightarrow> drop (p + length xs) buf = ys"
  by (metis append_eq_conv_conj drop_drop add.commute)

lemma c_strchr_line:
  assumes "drop p buf = l @ 10 # r @ 0 # junk" "10 \<notin> set l" "0 \<notin> set l"
  shows "c_strchr buf p 10 = Some (p + length l)"
proof -
  have "c_string (drop p buf) = l @ 10 # takeWhile (\<lambda>c. c \<noteq> 0) (r @ 0 # junk)"
    using assms(3) unfolding assms(1) c_string_def by (subst takeWhile_append2) auto
  then show ?thesis
    using assms(2) by (auto simp: c_strchr_def Let_def takeWhile_append)
qed

lemma c_strchr_none:
  assumes "drop p buf = bs @ 0 # junk" "10 \<notin> set bs" "0 \<notin> set bs"
  shows "c_strchr buf p 10 = None"
  using assms(2,3) by (simp add: c_strchr_def assms(1) scan_simps)

lemma strip_return_line:
  assumes "drop p buf = l @ 0 # t" "0 \<notin> set l"
  shows "\<exists>u. drop p (strip_return buf p) = strip_cr l @ 0 # u"
    and "drop (p + length l) (strip_return buf p) = 0 # t"
proof -
  have s: "c_string (drop p buf) = l" using assms by (simp add: scan_simps)
  have "(\<exists>u. drop p (strip_return buf p) = strip_cr l @ 0 # u) \<and>
      drop (p + length l) (strip_return buf p) = 0 # t"
  proof (cases "l \<noteq> [] \<and> last l = 13")
    case True
    then have l: "l = butlast l @ [13]" by (metis append_butlast_last_id)
    have len: "p + length l - 1 = p + length (butlast l)" using True by (cases l) simp_all
    have d: "drop p buf = butlast l @ 13 # 0 # t" using assms(1) l by (metis append.assoc append_Cons append_Nil)
    have "buf ! (p + length (butlast l)) = 13"
      using drop_at_lengths [OF d] by (metis nth_via_drop)
    then have sr: "strip_return buf p = buf[p + length (butlast l) := 0]"
      unfolding strip_return_def s Let_def len using True by simp
    note u = drop_update_at [OF d, of 0]
    have "drop p (strip_return buf p) = strip_cr l @ 0 # 0 # t"
      unfolding sr u using True by (simp add: strip_cr_def)
    moreover have "drop (p + length l) (strip_return buf p) = 0 # t"
      using drop_at_lengths [of p "strip_return buf p" "butlast l @ [0]" "0 # t"] u True
      by (simp add: sr)
    ultimately show ?thesis by blast
  next
    case False
    have "l \<noteq> [] \<Longrightarrow> buf ! (p + length l - 1) \<noteq> 13"
    proof -
      assume l: "l \<noteq> []"
      then have "drop p buf = butlast l @ last l # 0 # t"
        using assms(1) by (metis append.assoc append_Cons append_Nil append_butlast_last_id)
      from nth_via_drop [OF drop_at_lengths [OF this]]
      have "buf ! (p + length (butlast l)) = last l" .
      moreover have "p + length (butlast l) = p + length l - 1" using l by (cases l) simp_all
      ultimately show "buf ! (p + length l - 1) \<noteq> 13" using l False by metis
    qed
    then have "strip_return buf p = buf" unfolding strip_return_def s Let_def by auto
    with False assms(1) drop_at_lengths [OF assms(1)] show ?thesis by (auto simp: strip_cr_def)
  qed
  then show "\<exists>u. drop p (strip_return buf p) = strip_cr l @ 0 # u"
    and "drop (p + length l) (strip_return buf p) = 0 # t" by blast+
qed

lemma tcp_line_step_line:
  assumes d: "drop p buf = l @ 10 # r @ 0 # junk" and l: "10 \<notin> set l" "0 \<notin> set l"
  shows "\<exists>buf' u. tcp_line_step special beyond now (buf, p, st) = Some (buf', p + length l + 1,
      if strip_cr l = [] then st else handle_command special now (strip_cr l @ 0 # u) st) \<and>
    drop (p + length l + 1) buf' = r @ 0 # junk \<and> length buf' = length buf"
proof -
  let ?b = "buf[p + length l := 0]"
  have d0: "drop p ?b = l @ 0 # r @ 0 # junk" by (rule drop_update_at [OF d])
  obtain u where u: "drop p (strip_return ?b p) = strip_cr l @ 0 # u"
    using strip_return_line(1) [OF d0 l(2)] by blast
  have "drop (p + length l) (strip_return ?b p) = 0 # r @ 0 # junk"
    by (rule strip_return_line(2) [OF d0 l(2)])
  then have "drop (p + length l + 1) (strip_return ?b p) = r @ 0 # junk"
    using drop_at_lengths [of "p + length l" "strip_return ?b p" "[0]"] by simp
  moreover have "c_string (drop p (strip_return ?b p)) = strip_cr l"
    using u strip_cr_clean [OF l(2)] by (simp add: scan_simps)
  ultimately show ?thesis
    using c_strchr_line [OF d l] u
    by (intro exI [of _ "strip_return ?b p"] exI [of _ "u @ beyond"])
      (simp add: tcp_line_step_def Let_def len_simps)
qed

text \<open>The whole loop, by induction on the bytes between \<open>p\<close> and the terminator.\<close>

lemma split_at_newline:
  assumes "10 \<in> set (bs :: byte list)"
  obtains l r where "bs = l @ 10 # r" "10 \<notin> set l"
  using split_list_first [OF assms] by blast

lemma tcp_lines_handles:
  assumes "drop p buf = bs @ 0 # junk" "0 \<notin> set bs"
  shows "\<exists>buf' ts. tcp_lines special beyond now (buf, p, st) = (buf', p + length bs - length (snd (assemble [] bs)),
      foldl (\<lambda>s (l, t). handle_command special now (l @ 0 # t) s) st (zip (commands (fst (assemble [] bs))) ts)) \<and>
    length ts = length (commands (fst (assemble [] bs))) \<and>
    drop (p + length bs - length (snd (assemble [] bs))) buf' = snd (assemble [] bs) @ 0 # junk \<and>
    length buf' = length buf"
  using assms
proof (induction "length bs" arbitrary: bs p buf st rule: less_induct)
  case less
  show ?case
  proof (cases "10 \<in> set bs")
    case False
    then have "tcp_lines special beyond now (buf, p, st) = (buf, p, st)"
      using c_strchr_none [OF less.prems(1) False less.prems(2)]
      by (subst tcp_lines.simps) (simp add: tcp_line_step_def)
    then show ?thesis using less.prems(1) False by (simp add: assemble_partial)
  next
    case True
    then obtain l r where bs: "bs = l @ 10 # r" "10 \<notin> set l" by (rule split_at_newline)
    let ?st = "\<lambda>u. if strip_cr l = [] then st else handle_command special now (strip_cr l @ 0 # u) st"
    have clean: "0 \<notin> set l" "0 \<notin> set r" using less.prems(2) bs by auto
    have d: "drop p buf = l @ 10 # r @ 0 # junk" using less.prems(1) bs by simp
    obtain buf1 u where step: "tcp_line_step special beyond now (buf, p, st) = Some (buf1, p + length l + 1, ?st u)"
      "drop (p + length l + 1) buf1 = r @ 0 # junk" "length buf1 = length buf"
      using tcp_line_step_line [OF d bs(2) clean(1), of special beyond now st] by blast
    have "length r < length bs" using bs by simp
    from less.hyps [OF this step(2) clean(2), of "?st u"] obtain buf' ts where ih:
      "tcp_lines special beyond now (buf1, p + length l + 1, ?st u) =
        (buf', p + length l + 1 + length r - length (snd (assemble [] r)),
         foldl (\<lambda>s (l, t). handle_command special now (l @ 0 # t) s) (?st u) (zip (commands (fst (assemble [] r))) ts))"
      "length ts = length (commands (fst (assemble [] r)))"
      "drop (p + length l + 1 + length r - length (snd (assemble [] r))) buf' = snd (assemble [] r) @ 0 # junk"
      "length buf' = length buf1"
      by blast
    have a: "assemble [] bs = (l # fst (assemble [] r), snd (assemble [] r))"
      unfolding bs(1) by (rule assemble_line [OF bs(2)])
    have e: "tcp_lines special beyond now (buf, p, st) = tcp_lines special beyond now (buf1, p + length l + 1, ?st u)"
      by (subst tcp_lines.simps) (simp add: step(1))
    have n: "p + length bs - k = p + length l + 1 + length r - k" for k by (simp add: bs(1))
    show ?thesis
    proof (cases "strip_cr l = []")
      case True
      then show ?thesis unfolding e a n using ih step(3) by (intro exI [of _ buf'] exI [of _ ts]) simp
    next
      case False
      then show ?thesis unfolding e a n using ih step(3) by (intro exI [of _ buf'] exI [of _ "u # ts"]) simp
    qed
  qed
qed

section \<open>A tick refines feeding the bytes to the line assembler\<close>

definition tcp_inv :: "tcp_server \<Rightarrow> bool" where
  "tcp_inv srv \<longleftrightarrow> length (rx_buf srv) = RX_BUF_SIZE \<and> rx_pos srv < RX_BUF_SIZE"

definition tcp_pending :: "tcp_server \<Rightarrow> byte list" where
  "tcp_pending srv = take (rx_pos srv) (rx_buf srv)"

text \<open>The abstract state: the server without its buffer, the injector, and the unfinished line.\<close>

definition tcp_core :: "tcp_server \<Rightarrow> tcp_server" where
  "tcp_core srv = srv\<lparr>rx_buf := [], rx_pos := 0\<rparr>"

definition tcp_abs :: "tcp_server \<times> fault_injector \<Rightarrow> (tcp_server \<times> fault_injector) \<times> byte list" where
  "tcp_abs st = ((tcp_core (fst st), snd st), tcp_pending (fst st))"

definition abs_feed ::
    "float_scanner \<Rightarrow> u32 \<Rightarrow> byte list
     \<Rightarrow> (tcp_server \<times> fault_injector) \<times> byte list \<Rightarrow> (tcp_server \<times> fault_injector) \<times> byte list" where
  "abs_feed special now bs a =
     (tcp.handle_all special now (fst a) (commands (fst (assemble (snd a) bs))), snd (assemble (snd a) bs))"

lemma handle_command_frame:
  "rx_buf (fst (handle_command special now l st)) = rx_buf (fst st)"
  "rx_pos (fst (handle_command special now l st)) = rx_pos (fst st)"
  by (simp_all add: handle_command_def tcp_send_def tcp_drop_client_def split_beta Let_def
      split: option.splits)

lemma handle_command_core:
  "handle_command special now l (tcp_core srv, f) =
     (tcp_core (fst (handle_command special now l (srv, f))), snd (handle_command special now l (srv, f)))"
  by (simp add: handle_command_def tcp_send_def tcp_drop_client_def tcp_core_def split_beta Let_def
      split: option.splits)

lemma handle_all_core:
  "tcp.handle_all special now (tcp_core srv, f) ls =
     (tcp_core (fst (tcp.handle_all special now (srv, f) ls)), snd (tcp.handle_all special now (srv, f) ls))"
proof (induction ls arbitrary: srv f)
  case (Cons l ls)
  show ?case
    using Cons.IH [of "fst (handle_command special now (l @ [0]) (srv, f))"
        "snd (handle_command special now (l @ [0]) (srv, f))"]
    by (simp add: handle_command_core)
qed simp

lemma handle_all_frame:
  "rx_buf (fst (tcp.handle_all special now st ls)) = rx_buf (fst st)"
  "rx_pos (fst (tcp.handle_all special now st ls)) = rx_pos (fst st)"
  by (rule tcp.handle_all_keeps, simp add: handle_command_frame)+

lemma tcp_process_abs:
  assumes inv: "tcp_inv srv" and room: "rx_pos srv + length bs < RX_BUF_SIZE"
    and clean: "10 \<notin> set (tcp_pending srv)" "0 \<notin> set (tcp_pending srv)" "0 \<notin> set bs"
    and closed: "\<forall>l \<in> set (commands (fst (assemble (tcp_pending srv) bs))). closed_command l"
  shows "tcp_abs (tcp_process special beyond now bs (srv, f)) = abs_feed special now bs (tcp_abs (srv, f))"
    and "tcp_inv (fst (tcp_process special beyond now bs (srv, f)))"
proof -
  let ?pos = "rx_pos srv + length bs" and ?p = "tcp_pending srv"
  let ?b = "(buf_put (rx_pos srv) bs (rx_buf srv))[?pos := 0]"
  let ?rest = "snd (assemble ?p bs)" and ?cmds = "commands (fst (assemble ?p bs))"
  have lp: "length ?p = rx_pos srv" using inv by (simp add: tcp_pending_def tcp_inv_def)
  obtain x junk where xj: "drop ?pos (rx_buf srv) = x # junk"
    using inv room by (cases "drop ?pos (rx_buf srv)") (auto simp: tcp_inv_def)
  have "buf_put (rx_pos srv) bs (rx_buf srv) = (?p @ bs) @ x # junk"
    by (simp add: buf_put_def tcp_pending_def xj)
  moreover have "?pos = length (?p @ bs)" using lp by simp
  ultimately have b: "?b = (?p @ bs) @ 0 # junk" by (metis list_update_length)
  have lb: "length ?b = RX_BUF_SIZE" using inv room by (simp add: buf_simps tcp_inv_def)
  have a: "assemble [] (?p @ bs) = assemble ?p bs" by (rule assemble_pending [OF clean(1)])
  have c0: "0 \<notin> set (?p @ bs)" using clean by simp
  obtain buf' ts where l: "tcp_lines special beyond now (?b, 0, srv, f) = (buf', ?pos - length ?rest,
      foldl (\<lambda>s (l, t). handle_command special now (l @ 0 # t) s) (srv, f) (zip ?cmds ts))"
    "length ts = length ?cmds" "drop (?pos - length ?rest) buf' = ?rest @ 0 # junk" "length buf' = length ?b"
    using tcp_lines_handles [of 0 ?b "?p @ bs" junk special beyond now "(srv, f)"] c0 b lp unfolding a by auto
  have "\<forall>l \<in> set (fst (assemble ?p bs)). 0 \<notin> set l"
    using assemble_lines_clean [OF clean(2,3)] by blast
  then have "\<forall>l \<in> set ?cmds. closed_command l \<and> 0 \<notin> set l"
    using closed commands_clean [of "fst (assemble ?p bs)" 0] by blast
  from tcp.handle_tails [OF this l(2), of special now "(srv, f)"]
  have h: "foldl (\<lambda>s (l, t). handle_command special now (l @ 0 # t) s) (srv, f) (zip ?cmds ts) =
      tcp.handle_all special now (srv, f) ?cmds" .
  have rl: "length ?rest \<le> ?pos" using assemble_rest(2) [of ?p bs] lp by simp
  let ?st = "tcp.handle_all special now (srv, f) ?cmds"
  define b2 where "b2 = (if length ?rest > 0 \<and> ?pos - length ?rest \<noteq> 0
    then buf_put 0 (take (length ?rest) (drop (?pos - length ?rest) buf')) buf' else buf')"
  have t: "tcp_process special beyond now bs (srv, f) =
      ((fst ?st)\<lparr>rx_buf := b2, rx_pos := length ?rest\<rparr>, snd ?st)"
    unfolding tcp_process_def Let_def split_beta fst_conv snd_conv l(1) h b2_def using rl by simp
  have front: "take (length ?rest) b2 = ?rest"
  proof (cases "?pos - length ?rest = 0")
    case True
    then show ?thesis using l(3) by (simp add: b2_def)
  next
    case False
    then show ?thesis using l(3) by (simp add: b2_def buf_put_0)
  qed
  have ab: "tcp_abs ((fst ?st)\<lparr>rx_buf := b2, rx_pos := length ?rest\<rparr>, snd ?st) =
      ((tcp_core (fst ?st), snd ?st), ?rest)"
    using front by (simp add: tcp_abs_def tcp_core_def tcp_pending_def)
  show "tcp_abs (tcp_process special beyond now bs (srv, f)) = abs_feed special now bs (tcp_abs (srv, f))"
    unfolding t ab unfolding abs_feed_def tcp_abs_def fst_conv snd_conv handle_all_core ..
  have "length (buf_put 0 xs buf') = length buf'" if "length xs \<le> length buf'" for xs
    using that by (simp add: buf_simps)
  moreover have "length ?rest \<le> length buf'" using l(4) lb rl room by simp
  ultimately have "length b2 = RX_BUF_SIZE" using l(4) lb by (simp add: b2_def)
  then show "tcp_inv (fst (tcp_process special beyond now bs (srv, f)))"
    unfolding t using rl room by (simp add: tcp_inv_def)
qed

section \<open>Bounds, for arbitrary bytes\<close>

text \<open>\<open>read\<close> returns at most the requested number of bytes.\<close>

definition read_law :: "(nat \<Rightarrow> read_result) \<Rightarrow> bool" where
  "read_law rd \<longleftrightarrow> (\<forall>n bs. rd n = Read_Bytes bs \<longrightarrow> length bs \<le> n)"

lemma c_strchr_before_nul:
  assumes "c_strchr b p c = Some q" "b ! n = 0" "p \<le> n" "n < length b"
  shows "q < n"
proof -
  let ?s = "c_string (drop p b)"
  have c: "c \<in> set ?s" and q: "q = p + length (takeWhile (\<lambda>x. x \<noteq> c) ?s)"
    using assms(1) by (auto simp: c_strchr_def Let_def split: if_splits)
  have "length ?s \<le> n - p"
  proof (rule ccontr)
    assume "\<not> length ?s \<le> n - p"
    then have "drop p b ! (n - p) \<noteq> 0"
      unfolding c_string_def by (metis (mono_tags, lifting) not_le nth_mem set_takeWhileD takeWhile_nth)
    then show False using assms(2-4) by simp
  qed
  with length_takeWhile_less_set [OF c] q show ?thesis by simp
qed

lemma nul_update: "b ! n = 0 \<Longrightarrow> n < length b \<Longrightarrow> b[i := 0] ! n = 0"
  by (cases "i = n") simp_all

lemma strip_return_keeps_nul: "b ! n = 0 \<Longrightarrow> n < length b \<Longrightarrow> strip_return b p ! n = 0"
  by (simp add: strip_return_def Let_def nul_update)

lemma tcp_line_step_bounded:
  assumes "tcp_line_step special beyond now (buf, p, st) = Some (buf', p', st')"
    and "buf ! n = 0" "p \<le> n" "n < length buf"
  shows "p < p'" "p' \<le> n" "buf' ! n = 0" "length buf' = length buf"
proof -
  obtain q where q: "c_strchr buf p 10 = Some q" "p' = q + 1" "buf' = strip_return (buf[q := 0]) p"
    using assms(1) by (auto simp: tcp_line_step_def Let_def split: option.splits)
  have "q < n" by (rule c_strchr_before_nul [OF q(1) assms(2-4)])
  then show "p < p'" "p' \<le> n" "buf' ! n = 0" "length buf' = length buf"
    using q assms(2,4) c_strchr_bounds [OF q(1)] strip_return_keeps_nul [of "buf[q := 0]" n p]
    by (simp_all add: len_simps nul_update)
qed

text \<open>A run of the loop body.\<close>

fun tcp_line_run ::
    "float_scanner \<Rightarrow> byte list \<Rightarrow> u32 \<Rightarrow> nat \<Rightarrow> line_state \<Rightarrow> line_state option" where
  "tcp_line_run special beyond now 0 s = Some s"
| "tcp_line_run special beyond now (Suc k) s =
     (case tcp_line_step special beyond now s of None \<Rightarrow> None
      | Some s' \<Rightarrow> tcp_line_run special beyond now k s')"

lemma tcp_lines_bounded:
  assumes "buf ! n = 0" "p \<le> n" "n < length buf"
  shows "\<exists>k buf' p' st'. k + p \<le> p' \<and> p' \<le> n \<and> buf' ! n = 0 \<and> length buf' = length buf \<and>
    tcp_line_run special beyond now k (buf, p, st) = Some (buf', p', st') \<and>
    tcp_line_step special beyond now (buf', p', st') = None \<and>
    tcp_lines special beyond now (buf, p, st) = (buf', p', st')"
  using assms
proof (induction "n - p" arbitrary: buf p st rule: less_induct)
  case less
  show ?case
  proof (cases "tcp_line_step special beyond now (buf, p, st)")
    case None
    then have "tcp_lines special beyond now (buf, p, st) = (buf, p, st)" by (subst tcp_lines.simps) simp
    with None less.prems show ?thesis
      by (intro exI [of _ 0] exI [of _ buf] exI [of _ p] exI [of _ st]) simp
  next
    case (Some s1)
    obtain buf1 p1 st1 where s1: "s1 = (buf1, p1, st1)" by (rule prod_cases3)
    note b = tcp_line_step_bounded [OF Some [unfolded s1] less.prems]
    have e: "tcp_lines special beyond now (buf, p, st) = tcp_lines special beyond now (buf1, p1, st1)"
      using Some s1 by (subst tcp_lines.simps) simp
    have n1: "n < length buf1" using b(4) less.prems(3) by simp
    have "n - p1 < n - p" using b(1,2) by simp
    from less.hyps [OF this b(3,2) n1, of st1] obtain k buf' p' st' where
      k: "k + p1 \<le> p'" "p' \<le> n" "buf' ! n = 0" "length buf' = length buf1"
        "tcp_line_run special beyond now k (buf1, p1, st1) = Some (buf', p', st')"
        "tcp_line_step special beyond now (buf', p', st') = None"
        "tcp_lines special beyond now (buf1, p1, st1) = (buf', p', st')"
      by blast
    then show ?thesis unfolding e using b(1,4) Some s1
      by (intro exI [of _ "Suc k"] exI [of _ buf'] exI [of _ p'] exI [of _ st']) simp
  qed
qed

lemma tcp_process_inv:
  assumes "tcp_inv srv" "rx_pos srv + length bs < RX_BUF_SIZE"
  shows "tcp_inv (fst (tcp_process special beyond now bs (srv, f)))"
proof -
  let ?pos = "rx_pos srv + length bs"
  let ?b = "(buf_put (rx_pos srv) bs (rx_buf srv))[?pos := 0]"
  have lb: "length ?b = RX_BUF_SIZE" using assms by (simp add: buf_simps tcp_inv_def)
  have "?b ! ?pos = 0" using lb assms(2) by simp
  from tcp_lines_bounded [OF this _ assms(2) [folded lb], of 0 special beyond now "(srv, f)"]
  obtain buf' p' srv' f' where l: "p' \<le> ?pos" "length buf' = RX_BUF_SIZE"
    "tcp_lines special beyond now (?b, 0, srv, f) = (buf', p', srv', f')"
    unfolding lb by auto
  have "length (buf_put 0 (take k (drop p' buf')) buf') = length buf'" for k
    by (rule length_buf_put) simp
  then show ?thesis
    unfolding tcp_process_def Let_def prod.case l(3) using l(1,2) assms(2)
    by (simp add: tcp_inv_def less_imp_diff_less)
qed

lemma tcp_server_tick_inv:
  assumes "tcp_inv srv" "read_law rd"
  shows "tcp_inv (fst (tcp_server_tick special beyond now accepted rd (srv, f)))"
proof (cases "rd (RX_BUF_SIZE - 1 - rx_pos srv)")
  case (Read_Bytes bs)
  then have "length bs \<le> RX_BUF_SIZE - 1 - rx_pos srv" using assms(2) by (simp add: read_law_def)
  moreover have "rx_pos srv < RX_BUF_SIZE" using assms(1) by (simp add: tcp_inv_def)
  ultimately have "rx_pos srv + length bs < RX_BUF_SIZE" by arith
  from tcp_process_inv [OF assms(1) this] Read_Bytes assms(1) show ?thesis
    by (simp add: tcp_server_tick_def tcp_inv_def tcp_send_def tcp_drop_client_def)
qed (use assms(1) in \<open>simp_all add: tcp_server_tick_def tcp_inv_def tcp_send_def tcp_drop_client_def\<close>)

lemma tcp_server_zero_inv: "tcp_inv tcp_server_zero"
  by (simp add: tcp_inv_def tcp_server_zero_def RX_BUF_SIZE_def)

section \<open>Many ticks\<close>

text \<open>Chunks that fit: each is not empty and leaves the last byte of the buffer free.\<close>

fun chunks_fit :: "byte list \<Rightarrow> byte list list \<Rightarrow> bool" where
  "chunks_fit p [] = True"
| "chunks_fit p (bs # bss) \<longleftrightarrow>
     bs \<noteq> [] \<and> length p + length bs < RX_BUF_SIZE \<and> chunks_fit (snd (assemble p bs)) bss"

definition tcp_read_all ::
    "float_scanner \<Rightarrow> byte list \<Rightarrow> u32 \<Rightarrow> byte list list \<Rightarrow> tcp_server \<times> fault_injector
     \<Rightarrow> tcp_server \<times> fault_injector" where
  "tcp_read_all special beyond now bss st =
     foldl (\<lambda>st bs. tcp_server_tick special beyond now (-1) (\<lambda>n. Read_Bytes bs) st) st bss"

definition staying_command :: "byte list \<Rightarrow> bool" where
  "staying_command l \<longleftrightarrow> closed_command l \<and> scan_word 31 l \<noteq> c_str ''QUIT''"

lemma handle_command_client:
  "scan_word 31 l \<noteq> c_str ''QUIT'' \<Longrightarrow>
     client_fd (fst (handle_command special now l st)) = client_fd (fst st)"
  by (simp add: handle_command_def tcp_send_def split_beta Let_def split: option.splits)

lemma handle_all_client:
  assumes "\<forall>l \<in> set ls. staying_command l \<and> 0 \<notin> set l"
  shows "client_fd (fst (tcp.handle_all special now st ls)) = client_fd (fst st)"
proof (rule tcp.handle_all_keeps)
  fix l s assume "l \<in> set ls"
  with assms have "scan_word 31 (l @ [0]) \<noteq> c_str ''QUIT''"
    using scan_word_nul [of l 31 "[]"] by (auto simp: staying_command_def)
  then show "client_fd (fst (handle_command special now (l @ [0]) s)) = client_fd (fst s)"
    by (rule handle_command_client)
qed

lemma abs_feed_append:
  "abs_feed special now (as @ bs) a = abs_feed special now bs (abs_feed special now as a)"
  by (simp add: abs_feed_def assemble_append)

lemma tcp_read_all_abs:
  assumes "tcp_inv (fst st)" "client_fd (fst st) \<ge> 0" "chunks_fit (tcp_pending (fst st)) bss"
    and "10 \<notin> set (tcp_pending (fst st))" "0 \<notin> set (tcp_pending (fst st))" "0 \<notin> set (concat bss)"
    and "\<forall>l \<in> set (commands (fst (assemble (tcp_pending (fst st)) (concat bss)))). staying_command l"
  shows "tcp_abs (tcp_read_all special beyond now bss st) =
    abs_feed special now (concat bss) (tcp_abs st)"
  using assms
proof (induction bss arbitrary: st)
  case Nil
  then show ?case by (simp add: tcp_read_all_def abs_feed_def)
next
  case (Cons bs bss)
  obtain srv f where st: "st = (srv, f)" by fastforce
  let ?p = "tcp_pending srv"
  let ?st = "tcp_process special beyond now bs (srv, f)"
  let ?ls = "fst (assemble ?p bs)"
  have fit: "bs \<noteq> []" "rx_pos srv + length bs < RX_BUF_SIZE" "chunks_fit (snd (assemble ?p bs)) bss"
    using Cons.prems(1,3) by (auto simp: st tcp_inv_def tcp_pending_def)
  have clean: "0 \<notin> set bs" "0 \<notin> set (concat bss)" using Cons.prems(6) by auto
  have stay: "\<forall>l \<in> set (commands ?ls). staying_command l"
    "\<forall>l \<in> set (commands (fst (assemble (snd (assemble ?p bs)) (concat bss)))). staying_command l"
    using Cons.prems(7) by (auto simp: st assemble_append)
  then have closed: "\<forall>l \<in> set (commands ?ls). closed_command l" by (auto simp: staying_command_def)
  note inv = Cons.prems(1) [unfolded st fst_conv] and p = Cons.prems(4,5) [unfolded st fst_conv]
  note pr = tcp_process_abs [OF inv fit(2) p clean(1) closed, of special beyond now f]
  have tick: "tcp_server_tick special beyond now (-1) (\<lambda>n. Read_Bytes bs) st = ?st"
    using Cons.prems(2) fit(1) by (simp add: tcp_server_tick_def st)
  have abs: "tcp_core (fst ?st) = tcp_core (fst (tcp.handle_all special now (srv, f) (commands ?ls)))"
    "tcp_pending (fst ?st) = snd (assemble ?p bs)"
    using pr(1) by (simp_all add: tcp_abs_def abs_feed_def handle_all_core)
  have "\<forall>l \<in> set ?ls. 0 \<notin> set l" using assemble_lines_clean [OF p(2) clean(1)] by blast
  then have "\<forall>l \<in> set (commands ?ls). staying_command l \<and> 0 \<notin> set l"
    using stay(1) commands_clean [of ?ls 0] by blast
  from handle_all_client [OF this, of special now "(srv, f)"]
  have "client_fd (tcp_core (fst ?st)) \<ge> 0" unfolding abs using Cons.prems(2) st
    by (simp add: tcp_core_def)
  then have cl: "client_fd (fst ?st) \<ge> 0" by (simp add: tcp_core_def)
  have rest: "10 \<notin> set (snd (assemble ?p bs))" "0 \<notin> set (snd (assemble ?p bs))"
    using assemble_rest(1) [OF p(1)] assemble_rest(3) [of ?p bs] p(2) clean(1) by auto
  have "tcp_abs (tcp_read_all special beyond now bss ?st) = abs_feed special now (concat bss) (tcp_abs ?st)"
    using pr(2) cl fit(3) rest clean(2) stay(2) by (intro Cons.IH) (simp_all add: abs(2))
  then show ?case
    unfolding pr(1) by (simp add: tcp_read_all_def tick [unfolded st] abs_feed_append st)
qed

section \<open>Commands in their usual form\<close>

definition plain_word :: "byte list \<Rightarrow> bool" where
  "plain_word w \<longleftrightarrow> w \<noteq> [] \<and> (\<forall>c \<in> set w. c \<noteq> 0 \<and> \<not> c_isspace c)"

lemma scan_word_plain:
  assumes "plain_word w" "length w \<le> n"
  shows "scan_word n (w @ 32 # r) = w" "scan_word n (w @ 0 # r) = w" "scan_word n w = w"
proof -
  have h: "\<not> c_isspace (hd w)" "hd w \<noteq> 0" using assms(1) by (auto simp: plain_word_def)
  have "\<not> c_isspace 0" "c_isspace 32" by (simp_all add: c_isspace_def)
  then have s: "takeWhile (\<lambda>c. \<not> c_isspace c) (w @ 32 # x) = w"
    "takeWhile (\<lambda>c. \<not> c_isspace c) w = w" for x
    using assms(1) by (simp_all add: plain_word_def takeWhile_append takeWhile_eq_all_conv)
  have k: "skip_space (w @ x) = w @ x" for x
    using h(1) assms(1) by (cases w) (simp_all add: skip_space_def plain_word_def)
  have z: "0 \<notin> set w" using assms(1) by (auto simp: plain_word_def)
  have "c_string (w @ 32 # r) = w @ 32 # c_string r"
    unfolding c_string_def using assms(1) by (subst takeWhile_append2) (auto simp: plain_word_def)
  then show "scan_word n (w @ 32 # r) = w" using assms(2) by (simp add: scan_word_def k s)
  show "scan_word n (w @ 0 # r) = w" "scan_word n w = w"
    using assms(2) k [of "[]"] z by (simp_all add: scan_word_def scan_simps s)
qed

lemma fault_of_name_cases:
  assumes "fault_of_name name = Some k"
  obtains "name = c_str ''GPS_LOSS''" "k = FAULT_TYPE_GPS_LOSS"
  | "name = c_str ''SENSOR_FREEZE''" "k = FAULT_TYPE_SENSOR_FREEZE"
  | "name = c_str ''BATT_SAG''" "k = FAULT_TYPE_BATTERY_SAG"
  | "name = c_str ''COMMS_DROP''" "k = FAULT_TYPE_COMMS_DROP"
  | "name = c_str ''PKT_CORRUPT''" "k = FAULT_TYPE_PACKET_CORRUPT"
  using assms by (auto simp: fault_of_name_def split: if_splits)

lemma fault_name_plain:
  assumes "fault_of_name name = Some k"
  shows "plain_word name" "length name \<le> 31" "name \<noteq> c_str ''CLEAR''"
  by (rule fault_of_name_cases [OF assms]; simp add: plain_word_def c_str_def c_isspace_def)+

lemma fault_word: "plain_word (c_str ''FAULT'')" "length (c_str ''FAULT'') \<le> 31"
  by (simp_all add: plain_word_def c_str_def c_isspace_def)

text \<open>A fault command with any text behind the name.\<close>

lemma handle_fault_command:
  assumes "fault_of_name name = Some k"
  shows "handle_command special now (c_str ''FAULT'' @ 32 # name @ 32 # arg) (srv, f) =
    (let (param, dur) = fault_arguments special k arg; (slot, f') = fault_inject f k param dur now
     in (tcp_send (if slot \<ge> 0
           then c_str ''OK injected '' @ name @ c_str '' slot='' @ print_d slot @
             c_str '' dur='' @ print_u dur @ [10]
           else c_str ''ERR no free fault slots'' @ [10]) srv, f'))"
proof -
  let ?line = "c_str ''FAULT'' @ 32 # name @ 32 # arg"
  note n = fault_name_plain [OF assms]
  have l6: "drop 6 ?line = name @ 32 # arg" by (simp add: c_str_def)
  have w: "scan_word 31 ?line = c_str ''FAULT''" "scan_word 31 (drop 6 ?line) = name"
    unfolding l6 by (rule scan_word_plain [OF fault_word] scan_word_plain [OF n(1,2)])+
  have "drop (6 + length name + 1) ?line = drop (length name + 1) (drop 6 ?line)"
    by (simp only: drop_drop ac_simps)
  then have a: "drop (6 + length name + 1) ?line = arg" unfolding l6 by simp
  show ?thesis
    unfolding handle_command_def Let_def prod.case w a using n(3) assms
    by (simp add: split_beta)
qed

text \<open>A printed duration and the end of the line are read back.\<close>

lemma fault_arguments_duration:
  "k \<noteq> FAULT_TYPE_BATTERY_SAG \<Longrightarrow> fault_arguments special k (print_u dur @ 0 # mem) = (0, dur)"
  using scan_u_print [of "[]" dur] print_u_clean [of dur] by (simp add: fault_arguments_def scan_simps)

section \<open>Properties\<close>

text \<open>C10: For a well-behaved client it does not matter how its bytes arrive.  The buffer of a
  connected client holds an unfinished line; the client sends a stream, with no NUL byte in either,
  in which every line completed (but empty ones) is a closed command other
  than \<open>QUIT\<close>: its first word is not \<open>FAULT\<close>, or it has six characters or more and, when the word
  read from behind the sixth is the name of a fault, at least seven more than that name.  Then two
  ways of cutting the stream into non-empty reads that each fit the free part of the receive buffer
  lead, at the same clock reading, to the same replies, the same faults and the same unfinished
  line.  (Without these conditions it does matter: \<open>fault_command_reads_next_line\<close>.)\<close>

theorem command_reads_chunk_independent:
  assumes "tcp_inv srv" "client_fd srv \<ge> 0"
    and "10 \<notin> set (tcp_pending srv)" "0 \<notin> set (tcp_pending srv)" "0 \<notin> set (concat bss)"
    and "\<forall>l \<in> set (commands (fst (assemble (tcp_pending srv) (concat bss)))). staying_command l"
    and "chunks_fit (tcp_pending srv) bss" "chunks_fit (tcp_pending srv) css" "concat css = concat bss"
  shows "tcp_abs (tcp_read_all special beyond now bss (srv, f)) =
         tcp_abs (tcp_read_all special beyond now css (srv, f))"
  using tcp_read_all_abs [of "(srv, f)" bss special beyond now]
    tcp_read_all_abs [of "(srv, f)" css special beyond now] assms
  by simp

theorem command_reads_chunk_independent_witness:
  "tcp_abs (tcp_read_all (\<lambda>s. None) [] 40 [[83, 84, 65, 84], [85, 83, 10, 70]]
       (tcp_server_zero\<lparr>client_fd := 5\<rparr>, example_injector)) =
   tcp_abs (tcp_read_all (\<lambda>s. None) [] 40 [[83], [84, 65, 84, 85, 83], [10, 70]]
       (tcp_server_zero\<lparr>client_fd := 5\<rparr>, example_injector))"
proof -
  have "staying_command (c_str ''STATUS'')" by code_simp
  then have s: "staying_command [83, 84, 65, 84, 85, 83]" by (simp add: c_str_def)
  show ?thesis
    by (rule command_reads_chunk_independent)
      (simp_all add: tcp_inv_def tcp_server_zero_def tcp_pending_def RX_BUF_SIZE_def assemble_def
        feed_line_def strip_cr_def s)
qed

text \<open>C13: One tick of the server refines the line assembler.  A client is connected, the read returned
  some bytes that leave room in the receive buffer, neither they nor the pending ones hold a NUL,
  the pending ones hold no newline, and every line they complete together is a closed command (a
  \<open>FAULT\<close> has its argument on its line, as for C10) or empty.  Then the tick handles exactly these lines, in
  order, without their carriage returns and without the empty ones, keeps exactly the unfinished
  rest, and stays in bounds.\<close>

theorem tcp_tick_refines_assembler:
  assumes "tcp_inv srv" "client_fd srv \<ge> 0" "rd (RX_BUF_SIZE - 1 - rx_pos srv) = Read_Bytes bs"
    and "bs \<noteq> []" "rx_pos srv + length bs < RX_BUF_SIZE"
    and "10 \<notin> set (tcp_pending srv)" "0 \<notin> set (tcp_pending srv)" "0 \<notin> set bs"
    and "\<forall>l \<in> set (commands (fst (assemble (tcp_pending srv) bs))). closed_command l"
  shows "tcp_abs (tcp_server_tick special beyond now accepted rd (srv, f)) =
      abs_feed special now bs (tcp_abs (srv, f)) \<and>
    tcp_inv (fst (tcp_server_tick special beyond now accepted rd (srv, f)))"
  using tcp_process_abs [OF assms(1,5-9), of special beyond now f] assms(2,3,4)
  by (simp add: tcp_server_tick_def)

theorem tcp_tick_refines_assembler_witness:
  "tcp_abs (tcp_server_tick (\<lambda>s. None) [] 40 (-1) (\<lambda>n. Read_Bytes [81, 10, 70])
       (tcp_server_zero\<lparr>client_fd := 5\<rparr>, example_injector)) =
   abs_feed (\<lambda>s. None) 40 [81, 10, 70] (tcp_abs (tcp_server_zero\<lparr>client_fd := 5\<rparr>, example_injector))"
proof -
  have q: "closed_command [81]" by code_simp
  show ?thesis
    by (rule tcp_tick_refines_assembler [THEN conjunct1])
      (simp_all add: tcp_inv_def tcp_server_zero_def tcp_pending_def RX_BUF_SIZE_def assemble_def
        feed_line_def strip_cr_def q)
qed

text \<open>C21: The line loop ends, whatever bytes were read, NULs included: when the buffer has a NUL at
  the end \<open>n\<close> of the data it runs its body at most \<open>n\<close> times, stops because no newline is left, and
  leaves \<open>line_start\<close> within the data, so that the number of remaining bytes cannot be negative.\<close>

theorem line_loop_terminates:
  assumes "buf ! n = 0" "n < length buf"
  shows "\<exists>k buf' p' st'. k \<le> n \<and> tcp_line_run special beyond now k (buf, 0, st) = Some (buf', p', st') \<and>
    tcp_line_step special beyond now (buf', p', st') = None \<and>
    tcp_lines special beyond now (buf, 0, st) = (buf', p', st') \<and> p' \<le> n \<and> length buf' = length buf"
proof -
  from tcp_lines_bounded [OF assms(1) _ assms(2), of 0 special beyond now st] obtain k buf' p' st' where
    k: "k + 0 \<le> p'" "p' \<le> n" "length buf' = length buf"
      "tcp_line_run special beyond now k (buf, 0, st) = Some (buf', p', st')"
      "tcp_line_step special beyond now (buf', p', st') = None"
      "tcp_lines special beyond now (buf, 0, st) = (buf', p', st')"
    by blast
  have "k \<le> n" using k(1,2) by simp
  with k show ?thesis by (intro exI [of _ k] exI [of _ buf'] exI [of _ p'] exI [of _ st']) simp
qed

theorem line_loop_terminates_witness:
  "\<exists>k \<le> 4. \<exists>s. tcp_line_run (\<lambda>s. None) [] 40 k ([10, 81, 10, 70, 0], 0, tcp_server_zero, example_injector) = Some s \<and>
     tcp_line_step (\<lambda>s. None) [] 40 s = None"
  using line_loop_terminates [of "[10, 81, 10, 70, 0]" 4 "\<lambda>s. None" "[]" 40 "(tcp_server_zero, example_injector)"]
  by auto

text \<open>C25: A fault command does what it says: for each of the four faults without a parameter and every
  32-bit duration printed in decimal, \<open>FAULT <name> <duration>\<close> injects that fault, for exactly that
  duration from the simulator's time on, and echoes name, slot and duration; only when no slot is
  free it replies with an error.\<close>

theorem fault_command_injects:
  assumes "fault_of_name name = Some k" "k \<noteq> FAULT_TYPE_BATTERY_SAG"
    and "fault_inject f k 0 dur now = (slot, f')"
  shows "handle_command special now
      (c_str ''FAULT'' @ 32 # name @ 32 # print_u dur @ 0 # mem) (srv, f) =
    (tcp_send (if slot \<ge> 0
       then c_str ''OK injected '' @ name @ c_str '' slot='' @ print_d slot @
         c_str '' dur='' @ print_u dur @ [10]
       else c_str ''ERR no free fault slots'' @ [10]) srv, f')"
  by (simp only: handle_fault_command [OF assms(1)] fault_arguments_duration [OF assms(2)] assms(3)
      Let_def prod.case)

theorem fault_command_injects_witness:
  "\<exists>f'. fault_inject example_injector FAULT_TYPE_COMMS_DROP 0 5000 40 = (0, f') \<and>
     snd (handle_command (\<lambda>s. None) 40 (c_str ''FAULT'' @ 32 # c_str ''COMMS_DROP'' @ 32 # print_u 5000 @ 0 # [])
       (tcp_server_zero, example_injector)) = f'"
proof -
  obtain i f' where e: "fault_inject example_injector FAULT_TYPE_COMMS_DROP 0 5000 40 = (i, f')"
    by (metis surj_pair)
  have "\<not> fe_active (slots example_injector ! 0)" "[0..<FAULT_SLOTS] = 0 # [1..<FAULT_SLOTS]"
    by (simp_all add: example_injector_def fault_init_def FAULT_SLOTS_def fault_entry_zero_def upt_conv_Cons)
  with e have "i = 0" by (simp add: fault_inject_def)
  have k: "fault_of_name (c_str ''COMMS_DROP'') = Some FAULT_TYPE_COMMS_DROP" by code_simp
  from fault_command_injects [OF k _ e] e \<open>i = 0\<close> show ?thesis by simp
qed

text \<open>A line that fills the buffer costs the client its connection: once 255 bytes are pending, the
  server asks \<open>read\<close> for 0 bytes, takes the 0 it gets (there is no other result but an error) for
  the end of the connection, and closes it.\<close>

lemma full_line_drops_client:
  assumes "client_fd srv \<ge> 0" "rx_pos srv = 255" "read_law rd" "rd 0 \<noteq> Read_Again"
  shows "tcp_server_tick special beyond now accepted rd (srv, f) = ((tcp_drop_client srv)\<lparr>rx_pos := 0\<rparr>, f)"
proof (cases "rd 0")
  case (Read_Bytes bs)
  then have "bs = []" using assms(3) by (auto simp: read_law_def)
  with Read_Bytes assms(1,2) show ?thesis by (simp add: tcp_server_tick_def RX_BUF_SIZE_def)
qed (use assms in \<open>simp_all add: tcp_server_tick_def RX_BUF_SIZE_def\<close>)

text \<open>A fault command without its argument reads on behind the end of its line.  A bare \<open>FAULT\<close>
  executes a \<open>CLEAR\<close> that stands on the next line, and a fault name without a duration takes the
  number on the next line as its duration.\<close>

lemma fault_command_reads_next_line:
  "handle_command special now (c_str ''FAULT'' @ 0 # c_str ''CLEAR'' @ 0 # mem) (srv, f) =
     (tcp_send (c_str ''OK cleared all faults'' @ [10]) srv, fault_clear_all f) \<and>
   snd (handle_command special now
     (c_str ''FAULT'' @ 32 # c_str ''GPS_LOSS'' @ 0 # print_u dur @ 0 # mem) (srv, f)) =
     snd (fault_inject f FAULT_TYPE_GPS_LOSS 0 dur now)"
proof
  let ?l = "c_str ''FAULT'' @ 0 # c_str ''CLEAR'' @ 0 # mem"
  have c: "plain_word (c_str ''CLEAR'')" "length (c_str ''CLEAR'') \<le> 31"
    by (simp_all add: plain_word_def c_str_def c_isspace_def)
  have "drop 6 ?l = c_str ''CLEAR'' @ 0 # mem" by (simp add: c_str_def)
  then have w: "scan_word 31 ?l = c_str ''FAULT''" "scan_word 31 (drop 6 ?l) = c_str ''CLEAR''"
    using scan_word_plain(2) [OF fault_word] scan_word_plain(2) [OF c] by simp_all
  show "handle_command special now ?l (srv, f) =
     (tcp_send (c_str ''OK cleared all faults'' @ [10]) srv, fault_clear_all f)"
    unfolding handle_command_def Let_def prod.case w by simp
next
  let ?n = "c_str ''GPS_LOSS''"
  let ?l = "c_str ''FAULT'' @ 32 # ?n @ 0 # print_u dur @ 0 # mem"
  have k: "fault_of_name ?n = Some FAULT_TYPE_GPS_LOSS" by code_simp
  have d: "drop 6 ?l = ?n @ 0 # print_u dur @ 0 # mem" by (simp add: c_str_def)
  then have w: "scan_word 31 ?l = c_str ''FAULT''" "scan_word 31 (drop 6 ?l) = ?n"
    using scan_word_plain(1) [OF fault_word] scan_word_plain(2) [OF fault_name_plain(1,2) [OF k]]
    by simp_all
  have "drop (6 + length ?n + 1) ?l = drop (length ?n + 1) (drop 6 ?l)"
    by (simp only: drop_drop ac_simps)
  then have a: "drop (6 + length ?n + 1) ?l = print_u dur @ 0 # mem" unfolding d by simp
  show "snd (handle_command special now ?l (srv, f)) = snd (fault_inject f FAULT_TYPE_GPS_LOSS 0 dur now)"
    unfolding handle_command_def Let_def prod.case w a using k fault_name_plain(3) [OF k]
    by (simp add: split_beta fault_arguments_duration)
qed

text \<open>Extra blanks before the name of a fault can turn a timed fault into a latched one: with two
  extra blanks the scan for the duration starts inside the name, finds no number, and the fault is
  injected with duration 0, which never expires.\<close>

lemma extra_blanks_latch_fault:
  "snd (handle_command special now
      (c_str ''FAULT'' @ 32 # 32 # 32 # c_str ''GPS_LOSS'' @ 32 # print_u dur @ 0 # mem) (srv, f)) =
   snd (fault_inject f FAULT_TYPE_GPS_LOSS 0 0 now)"
proof -
  let ?n = "c_str ''GPS_LOSS''"
  let ?l = "c_str ''FAULT'' @ 32 # 32 # 32 # ?n @ 32 # print_u dur @ 0 # mem"
  have k: "fault_of_name ?n = Some FAULT_TYPE_GPS_LOSS" by code_simp
  have blank: "scan_word n (32 # s) = scan_word n s" for n s
    by (simp add: scan_word_def c_string_def skip_space_def c_isspace_def)
  have d: "drop 6 ?l = 32 # 32 # ?n @ 32 # print_u dur @ 0 # mem" by (simp add: c_str_def)
  then have w: "scan_word 31 ?l = c_str ''FAULT''" "scan_word 31 (drop 6 ?l) = ?n"
    using scan_word_plain(1) [OF fault_word] scan_word_plain(1) [OF fault_name_plain(1,2) [OF k]]
    by (simp_all add: blank)
  have a: "drop (6 + length ?n + 1) ?l = 83 # 32 # print_u dur @ 0 # mem" by (simp add: c_str_def)
  have "scan_u (83 # s) = None" for s
    by (simp add: scan_u_def scan_sign_def skip_space_def c_isspace_def c_isdigit_def)
  then have "fault_arguments special FAULT_TYPE_GPS_LOSS (83 # 32 # print_u dur @ 0 # mem) = (0, 0)"
    by (simp add: fault_arguments_def c_string_def)
  then show ?thesis
    unfolding handle_command_def Let_def prod.case w a using k fault_name_plain(3) [OF k]
    by (simp add: split_beta)
qed

text \<open>What follows QUIT is kept for the next client: a partial line that arrives together with QUIT
  stays in the buffer after the connection is closed, and still is there when the next client is
  accepted, so that it becomes the beginning of that client's first line.\<close>

lemma quit_leaves_partial_line:
  assumes "tcp_inv srv" "client_fd srv \<ge> 0" "rx_pos srv = 0" "length rest < 200"
    and "10 \<notin> set rest" "0 \<notin> set rest" "fd \<ge> 0"
    and "tcp_server_tick special beyond now accepted (\<lambda>n. Read_Bytes (c_str ''QUIT'' @ 10 # rest)) (srv, f) = (srv1, f1)"
    and "tcp_server_tick special beyond now2 fd rd (srv1, f1) = (srv2, f2)"
  shows "client_fd srv1 = -1 \<and> client_fd srv2 = fd \<and> tcp_pending srv2 = rest"
proof -
  let ?bs = "c_str ''QUIT'' @ 10 # rest"
  have q: "10 \<notin> set (c_str ''QUIT'')" "strip_cr (c_str ''QUIT'') = c_str ''QUIT''" "c_str ''QUIT'' \<noteq> []"
    by (simp_all add: c_str_def strip_cr_def)
  have p: "tcp_pending srv = []" using assms(3) by (simp add: tcp_pending_def)
  have as: "assemble (tcp_pending srv) ?bs = ([c_str ''QUIT''], rest)"
    unfolding p assemble_line [OF q(1)] using assms(5) by (simp add: assemble_partial)
  have h: "handle_command special now (c_str ''QUIT'' @ [0]) st =
      (tcp_drop_client (tcp_send (c_str ''BYE'' @ [10]) (fst st)), snd st)" for st
  proof -
    have "plain_word (c_str ''QUIT'')" "length (c_str ''QUIT'') \<le> 31"
      by (simp_all add: plain_word_def c_str_def c_isspace_def)
    from scan_word_plain(2) [OF this, of "[]"] have "scan_word 31 (c_str ''QUIT'' @ [0]) = c_str ''QUIT''" .
    then show ?thesis by (simp add: handle_command_def c_str_def split_beta)
  qed
  have cl: "closed_command (c_str ''QUIT'')" by code_simp
  have room: "rx_pos srv + length ?bs < RX_BUF_SIZE"
    using assms(3,4) by (simp add: c_str_def RX_BUF_SIZE_def)
  have closed: "\<forall>l \<in> set (commands (fst (assemble (tcp_pending srv) ?bs))). closed_command l"
    unfolding as using q cl by simp
  have pc: "10 \<notin> set (tcp_pending srv)" "0 \<notin> set (tcp_pending srv)" by (simp_all add: p)
  have bc: "0 \<notin> set ?bs" using assms(6) by (simp add: c_str_def)
  have "(srv1, f1) = tcp_process special beyond now ?bs (srv, f)"
    using assms(2,8) by (simp add: tcp_server_tick_def)
  then have "tcp_abs (srv1, f1) = abs_feed special now ?bs (tcp_abs (srv, f))"
    by (simp only: tcp_process_abs(1) [OF assms(1) room pc bc closed])
  then have "tcp_core srv1 = tcp_drop_client (tcp_send (c_str ''BYE'' @ [10]) (tcp_core srv))" "tcp_pending srv1 = rest"
    by (simp_all add: tcp_abs_def abs_feed_def as q(2,3) h)
  then have s1: "client_fd srv1 = -1" "tcp_pending srv1 = rest"
    by (auto simp: tcp_core_def tcp_drop_client_def dest: arg_cong [of _ _ client_fd])
  then show ?thesis
    using assms(7,9) by (auto simp: tcp_server_tick_def tcp_send_def tcp_pending_def)
qed

lemma quit_leaves_partial_line_example:
  "\<exists>srv1 f1. tcp_server_tick (\<lambda>s. None) [] 40 (-1) (\<lambda>n. Read_Bytes (c_str ''QUIT'' @ 10 # [70, 65]))
      (tcp_server_zero\<lparr>client_fd := 5\<rparr>, example_injector) = (srv1, f1) \<and>
     tcp_pending (fst (tcp_server_tick (\<lambda>s. None) [] 50 6 (\<lambda>n. Read_Again) (srv1, f1))) = [70, 65]"
proof -
  obtain srv1 f1 where t1: "tcp_server_tick (\<lambda>s. None) [] 40 (-1) (\<lambda>n. Read_Bytes (c_str ''QUIT'' @ 10 # [70, 65]))
      (tcp_server_zero\<lparr>client_fd := 5\<rparr>, example_injector) = (srv1, f1)"
    by (metis surj_pair)
  obtain srv2 f2 where t2: "tcp_server_tick (\<lambda>s. None) [] 50 6 (\<lambda>n. Read_Again) (srv1, f1) = (srv2, f2)"
    by (metis surj_pair)
  from quit_leaves_partial_line [OF _ _ _ _ _ _ _ t1 t2] t1 t2 show ?thesis
    by (simp add: tcp_inv_def tcp_server_zero_def RX_BUF_SIZE_def)
qed

end
