(* ===== verification/UartBridge.thy ===== *)
theory UartBridge
  imports Prelude
begin

text \<open>
  The simulator's serial port, \<open>Simulator/uart_bridge.c\<close>: the baud rate, the terminal attributes,
  opening a pseudo terminal or a device, and the counted reads and writes.  The results of the
  system calls are arguments, the constants and setters of \<open>termios.h\<close> a parameter; the bytes
  written and the descriptors closed are kept in the state as a trace.  Console output is left
  out.
\<close>

section \<open>Baud rate and terminal attributes\<close>

datatype speed = B9600 | B19200 | B38400 | B57600 | B115200 | B230400

definition baud_to_speed :: "int \<Rightarrow> speed" where
  "baud_to_speed baud =
     (if baud = 9600 then B9600 else if baud = 19200 then B19200 else if baud = 38400 then B38400
      else if baud = 57600 then B57600 else if baud = 115200 then B115200
      else if baud = 230400 then B230400 else B115200)"

record termios =
  c_cflag :: u32
  c_iflag :: u32
  c_oflag :: u32
  c_lflag :: u32
  cc_VMIN :: byte
  cc_VTIME :: byte
  c_speeds :: "speed option \<times> speed option"    \<comment> \<open>input and output\<close>

text \<open>The masks of \<open>termios.h\<close> the code uses.\<close>

record termios_masks =
  PARENB :: u32  CSTOPB :: u32  CSIZE :: u32  CRTSCTS :: u32
  CS8 :: u32  CREAD :: u32  CLOCAL :: u32
  IXON :: u32  IXOFF :: u32  IXANY :: u32  IGNBRK :: u32  BRKINT :: u32
  PARMRK :: u32  ISTRIP :: u32  INLCR :: u32  IGNCR :: u32  ICRNL :: u32
  OPOST :: u32
  ECHO :: u32  ECHONL :: u32  ICANON :: u32  ISIG :: u32  IEXTEN :: u32

text \<open>\<open>configure_tty\<close>, for the attributes \<open>tcgetattr\<close> returned (if it did) and the success of
  \<open>tcsetattr\<close>: the result and the attributes set.\<close>

definition raw_attributes :: "termios_masks \<Rightarrow> int \<Rightarrow> termios \<Rightarrow> termios" where
  "raw_attributes T baud tty =
     (let speed = baud_to_speed baud;
          tty = tty\<lparr>c_speeds := (Some speed, snd (c_speeds tty))\<rparr>;
          tty = tty\<lparr>c_speeds := (fst (c_speeds tty), Some speed)\<rparr>;
          tty = tty\<lparr>c_cflag := c_cflag tty AND NOT (PARENB T OR CSTOPB T OR CSIZE T OR CRTSCTS T)\<rparr>;
          tty = tty\<lparr>c_cflag := c_cflag tty OR (CS8 T OR CREAD T OR CLOCAL T)\<rparr>;
          tty = tty\<lparr>c_iflag := c_iflag tty AND NOT (IXON T OR IXOFF T OR IXANY T OR IGNBRK T OR BRKINT T OR
                     PARMRK T OR ISTRIP T OR INLCR T OR IGNCR T OR ICRNL T)\<rparr>;
          tty = tty\<lparr>c_oflag := c_oflag tty AND NOT (OPOST T)\<rparr>;
          tty = tty\<lparr>c_lflag := c_lflag tty AND NOT (ECHO T OR ECHONL T OR ICANON T OR ISIG T OR IEXTEN T)\<rparr>
      in tty\<lparr>cc_VMIN := 0, cc_VTIME := 0\<rparr>)"

definition configure_tty ::
    "termios_masks \<Rightarrow> termios option \<Rightarrow> bool \<Rightarrow> int \<Rightarrow> int \<times> termios option" where
  "configure_tty T got set_ok baud =
     (case got of None \<Rightarrow> (-1, None)
      | Some tty \<Rightarrow> if set_ok then (0, Some (raw_attributes T baud tty)) else (-1, None))"

section \<open>The bridge\<close>

record uart_bridge =
  uart_fd :: int
  uart_device_name :: buf
  uart_baud_rate :: int
  use_pty :: bool
  pty_slave :: buf
  tx_frames :: u32
  rx_acks :: u32
  tx_errors :: u32
  uart_out :: "byte list"     \<comment> \<open>trace: bytes accepted by \<open>write\<close>\<close>
  uart_closed :: "int list"   \<comment> \<open>trace: descriptors closed\<close>

definition uart_bridge_zero :: uart_bridge where
  "uart_bridge_zero =
     \<lparr>uart_fd = 0, uart_device_name = replicate 64 0, uart_baud_rate = 0, use_pty = False,
      pty_slave = replicate 64 0, tx_frames = 0, rx_acks = 0, tx_errors = 0,
      uart_out = [], uart_closed = []\<rparr>"

text \<open>What the system answers while opening: \<open>openpty\<close> (master, slave, name) or its failure,
  \<open>open\<close>'s descriptor, \<open>tcgetattr\<close> and \<open>tcsetattr\<close>.\<close>

record uart_system =
  sys_openpty :: "(int \<times> int \<times> byte list) option"
  sys_open :: int
  sys_tcgetattr :: "termios option"
  sys_tcsetattr :: bool

definition uart_open ::
    "termios_masks \<Rightarrow> uart_system \<Rightarrow> byte list \<Rightarrow> int \<Rightarrow> int \<times> uart_bridge" where
  "uart_open T sys device baud =
     (let b = uart_bridge_zero\<lparr>uart_baud_rate := baud\<rparr>
      in if device = c_str ''pty''
         then (case sys_openpty sys of None \<Rightarrow> (-1, b)
           | Some (master_fd, slave_fd, slave_name) \<Rightarrow>
             (0, b\<lparr>uart_closed := uart_closed b @ [slave_fd], uart_fd := master_fd, use_pty := True,
                   uart_device_name := c_strncpy (uart_device_name b) (c_str ''pty master'') 63,
                   pty_slave := c_strncpy (pty_slave b) slave_name 63\<rparr>))
         else let fd = sys_open sys
           in if fd < 0 then (-1, b)
              else if fst (configure_tty T (sys_tcgetattr sys) (sys_tcsetattr sys) baud) \<noteq> 0
              then (-1, b\<lparr>uart_closed := uart_closed b @ [fd]\<rparr>)
              else (0, b\<lparr>uart_fd := fd,
                     uart_device_name := c_strncpy (uart_device_name b) device 63\<rparr>))"

text \<open>The result of \<open>write\<close>: how many bytes of the frame were accepted, or why not.\<close>

datatype write_result = Written nat | Write_Again | Write_Error

definition uart_write_frame ::
    "write_result \<Rightarrow> uart_bridge \<Rightarrow> byte list \<Rightarrow> int \<times> uart_bridge" where
  "uart_write_frame wr b frame =
     (if uart_fd b < 0 \<or> length frame = 0 then (-1, b)
      else case wr of
          Write_Again \<Rightarrow> (-1, b)
        | Write_Error \<Rightarrow> (-1, b\<lparr>tx_errors := tx_errors b + 1\<rparr>)
        | Written n \<Rightarrow>
            (int n, b\<lparr>tx_frames := tx_frames b + 1, uart_out := uart_out b @ take n frame\<rparr>))"

text \<open>The result of \<open>read\<close>: bytes (none at the end), or an error; \<open>EAGAIN\<close> and \<open>EWOULDBLOCK\<close> are
  one case.\<close>

datatype uart_read_result = Uart_Bytes "byte list" | Uart_Again | Uart_Error

definition uart_read :: "uart_read_result \<Rightarrow> uart_bridge \<Rightarrow> (int \<times> byte list) \<times> uart_bridge" where
  "uart_read rr b =
     (if uart_fd b < 0 then ((-1, []), b)
      else case rr of
          Uart_Again \<Rightarrow> ((0, []), b)
        | Uart_Error \<Rightarrow> ((-1, []), b)
        | Uart_Bytes bs \<Rightarrow>
            ((int (length bs), bs),
             if length bs > 0 then b\<lparr>rx_acks := rx_acks b + of_nat (length bs)\<rparr> else b))"

definition uart_close :: "uart_bridge \<Rightarrow> uart_bridge" where
  "uart_close b =
     (if uart_fd b \<ge> 0 then b\<lparr>uart_closed := uart_closed b @ [uart_fd b], uart_fd := -1\<rparr> else b)"

section \<open>Lemmas\<close>

lemma uart_open_result: "fst (uart_open T sys device baud) \<in> {0, -1}"
  by (auto simp: uart_open_def Let_def split: option.splits)

lemma uart_open_counters:
  "tx_frames (snd (uart_open T sys device baud)) = 0" "uart_out (snd (uart_open T sys device baud)) = []"
  by (auto simp: uart_open_def uart_bridge_zero_def Let_def split: option.splits)

text \<open>The port is set raw, with eight data bits, and to a rate the code knows.\<close>

lemma raw_attributes_masks:
  assumes "CS8 T AND NOT (CSIZE T) = 0" "CREAD T AND CSIZE T = 0" "CLOCAL T AND CSIZE T = 0"
  shows "c_cflag (raw_attributes T baud tty) AND CSIZE T = CS8 T"
    "c_lflag (raw_attributes T baud tty) AND ICANON T = 0"
    "c_lflag (raw_attributes T baud tty) AND ECHO T = 0"
    "c_oflag (raw_attributes T baud tty) AND OPOST T = 0"
proof -
  have "((x AND NOT (a OR b OR s OR c)) OR (e OR r OR l)) AND s = e"
    if "e AND NOT s = 0" "r AND s = 0" "l AND s = 0" for x a b c s e r l :: u32
  proof (rule bit_word_eqI)
    fix n assume n: "n < LENGTH(32)"
    have "bit (e AND NOT s) n = False" "bit (r AND s) n = False" "bit (l AND s) n = False"
      using that by simp_all
    then show "bit (((x AND NOT (a OR b OR s OR c)) OR (e OR r OR l)) AND s) n = bit e n"
      using n by (auto simp: bit_simps)
  qed
  from this [OF assms] show "c_cflag (raw_attributes T baud tty) AND CSIZE T = CS8 T"
    by (simp add: raw_attributes_def Let_def)
  have "(x AND NOT (a OR b OR i OR c OR d)) AND i = 0" "(x AND NOT (i OR b OR a OR c OR d)) AND i = 0"
    "(x AND NOT i) AND i = 0" for x a b c d i :: u32
    by (auto intro!: bit_word_eqI simp: bit_simps)
  then show "c_lflag (raw_attributes T baud tty) AND ICANON T = 0"
    "c_lflag (raw_attributes T baud tty) AND ECHO T = 0"
    "c_oflag (raw_attributes T baud tty) AND OPOST T = 0"
    by (simp_all add: raw_attributes_def Let_def)
qed

lemma uart_read_keeps: "tx_frames (snd (uart_read rr b)) = tx_frames b"
  "uart_out (snd (uart_read rr b)) = uart_out b"
  by (auto simp: uart_read_def split: uart_read_result.splits)

section \<open>Properties\<close>

text \<open>A short write counts as a frame: when the system accepts only some of the bytes, the bridge
  sends a truncated frame, never the rest of it, and still counts one frame and no error.\<close>

lemma short_write_counts_as_frame:
  assumes "uart_fd b \<ge> 0" "n < length frame"
  shows "uart_write_frame (Written n) b frame =
    (int n, b\<lparr>tx_frames := tx_frames b + 1, uart_out := uart_out b @ take n frame\<rparr>) \<and>
    take n frame \<noteq> frame"
  using assms by (auto simp: uart_write_frame_def)

end
