(* ===== verification/SimSerializer.thy ===== *)
theory SimSerializer
  imports ProtocolRx
begin

text \<open>
  The simulator's sending side, \<open>Simulator/packet_serializer.c\<close> (with the sizes of
  \<open>Simulator/sim_types.h\<close>) and the transmit step of \<open>Simulator/main_sim.c\<close>.  Its CRC and
  field writers are copies of the firmware's, and are shown equal to them; its frame builder
  checks the number of payload bytes it wrote, which the lemmas show always fails.
\<close>

section \<open>Copies of the firmware's routines\<close>

definition pkt_crc16_shift :: "u16 \<Rightarrow> u16" where
  "pkt_crc16_shift crc =
     (if crc AND 0x8000 \<noteq> 0 then push_bit 1 crc XOR 0x1021 else push_bit 1 crc)"

fun pkt_crc16_loop :: "u16 \<Rightarrow> byte list \<Rightarrow> u16" where
  "pkt_crc16_loop crc [] = crc"
| "pkt_crc16_loop crc (b # bs) =
     pkt_crc16_loop ((pkt_crc16_shift ^^ 8) (crc XOR push_bit 8 (ucast b))) bs"

definition pkt_crc16 :: "byte list \<Rightarrow> nat \<Rightarrow> u16" where
  "pkt_crc16 data len = pkt_crc16_loop 0xFFFF (take len data)"

definition pkt_put_f32 :: "f32 \<Rightarrow> byte list" where
  "pkt_put_f32 v = [ucast v, ucast (drop_bit 8 v), ucast (drop_bit 16 v), ucast (drop_bit 24 v)]"

definition pkt_put_f64 :: "f64 \<Rightarrow> byte list" where
  "pkt_put_f64 v = map (\<lambda>i. ucast (drop_bit (8 * i) v)) [0..<8]"

definition pkt_put_u32 :: "u32 \<Rightarrow> byte list" where
  "pkt_put_u32 v = [ucast v, ucast (drop_bit 8 v), ucast (drop_bit 16 v), ucast (drop_bit 24 v)]"

lemma pkt_crc16_eq: "pkt_crc16 data len = proto_crc16 data len"
proof -
  have "pkt_crc16_shift = crc16_shift"
    by (simp add: fun_eq_iff pkt_crc16_shift_def crc16_shift_def)
  then have "pkt_crc16_loop c bs = crc16_loop c bs" for c bs
    by (induction bs arbitrary: c) (simp_all add: crc16_byte_def)
  then show ?thesis by (simp add: pkt_crc16_def proto_crc16_def)
qed

lemma pkt_put_eq: "pkt_put_f32 = put_f32" "pkt_put_f64 = put_f64" "pkt_put_u32 = put_u32"
  by (simp_all add: fun_eq_iff pkt_put_f32_def pkt_put_f64_def pkt_put_u32_def
      put_f32_def put_f64_def put_u32_def)

section \<open>The sensor frame\<close>

text \<open>The simulator's struct mirrors the firmware's field by field.\<close>

type_synonym sim_sensor_data = sensor_data

definition SENSOR_PAYLOAD_SIZE :: nat where "SENSOR_PAYLOAD_SIZE = 73"
definition SENSOR_FRAME_SIZE :: nat where
  "SENSOR_FRAME_SIZE = PROTO_HEADER_SIZE + SENSOR_PAYLOAD_SIZE + PROTO_CRC_SIZE"

definition pkt_sensor_chunks :: "sim_sensor_data \<Rightarrow> byte list list" where
  "pkt_sensor_chunks s =
     [pkt_put_f32 (accel_x s),
      pkt_put_f32 (accel_y s),
      pkt_put_f32 (accel_z s),
      pkt_put_f32 (gyro_x s),
      pkt_put_f32 (gyro_y s),
      pkt_put_f32 (gyro_z s),
      pkt_put_f64 (latitude s),
      pkt_put_f64 (longitude s),
      pkt_put_f32 (altitude_m s),
      pkt_put_f32 (ground_speed_mps s),
      [gps_fix_quality s],
      [gps_satellites s],
      pkt_put_f32 (battery_voltage_v s),
      pkt_put_f32 (battery_current_a s),
      [battery_pct s],
      pkt_put_f32 (baro_pressure_hpa s),
      pkt_put_f32 (temperature_c s),
      pkt_put_u32 (timestamp_ms s),
      [sensor_status s]]"

definition pkt_build_sensor_frame :: "sim_sensor_data \<Rightarrow> buf \<Rightarrow> nat \<Rightarrow> nat \<times> buf" where
  "pkt_build_sensor_frame s buf buf_size =
     (if buf_size < SENSOR_FRAME_SIZE then (0, buf)
      else let
        b = buf[0 := PROTO_SOF, 1 := PKT_TYPE_SENSOR_FRAME,
                2 := ucast (of_nat SENSOR_PAYLOAD_SIZE AND 0xFF :: u32),
                3 := ucast (drop_bit 8 (of_nat SENSOR_PAYLOAD_SIZE) :: u32)];
        (b, p) = emit_all b PROTO_HEADER_SIZE (pkt_sensor_chunks s);
        written = p - PROTO_HEADER_SIZE
      in if written \<noteq> SENSOR_PAYLOAD_SIZE then (0, b)
         else let
           crc = pkt_crc16 (drop 1 b) (3 + SENSOR_PAYLOAD_SIZE);
           b = b[PROTO_HEADER_SIZE + SENSOR_PAYLOAD_SIZE := ucast (crc AND 0xFF),
                 PROTO_HEADER_SIZE + SENSOR_PAYLOAD_SIZE + 1 := ucast (drop_bit 8 crc)]
         in (SENSOR_FRAME_SIZE, b))"

definition pkt_corrupt_crc :: "buf \<Rightarrow> nat \<Rightarrow> buf" where
  "pkt_corrupt_crc frame frame_len =
     (if frame_len < 2 then frame
      else frame[frame_len - 2 := frame ! (frame_len - 2) XOR 0xFF,
                 frame_len - 1 := frame ! (frame_len - 1) XOR 0xFF])"

text \<open>Step 4 of the simulator's loop.  The result is the transmit buffer and the frame passed
  to \<open>uart_write_frame\<close>, if any.\<close>

definition SIM_TICK_RATE_HZ :: u32 where "SIM_TICK_RATE_HZ = 100"
definition SIM_UART_TX_RATE_HZ :: u32 where "SIM_UART_TX_RATE_HZ = 50"
definition TX_EVERY_N :: u32 where "TX_EVERY_N = SIM_TICK_RATE_HZ div SIM_UART_TX_RATE_HZ"

definition sim_transmit ::
    "u32 \<Rightarrow> bool \<Rightarrow> bool \<Rightarrow> sim_sensor_data \<Rightarrow> buf \<Rightarrow> buf \<times> byte list option" where
  "sim_transmit tick_count comms_drop_active packet_corrupt_active sensors tx_frame =
     (if tick_count mod TX_EVERY_N = 0 \<and> \<not> comms_drop_active
      then let (n, b) = pkt_build_sensor_frame sensors tx_frame (length tx_frame)
           in if n > 0
              then let b = (if packet_corrupt_active then pkt_corrupt_crc b n else b)
                   in (b, Some (take n b))
              else (b, None)
      else (tx_frame, None))"

section \<open>Lemmas\<close>

lemma pkt_sensor_chunks_eq: "pkt_sensor_chunks s = sensor_chunks s"
  by (simp add: pkt_sensor_chunks_def sensor_chunks_def pkt_put_eq put_u8_def)

lemma length_pkt_sensor_chunks: "length (concat (pkt_sensor_chunks s)) = 72"
  unfolding pkt_sensor_chunks_eq using length_sensor_bytes [of s] by (simp add: sensor_bytes_def)

lemma emit_all_offset: "snd (emit_all b p chunks) = p + length (concat chunks)"
  by (induction chunks arbitrary: b p) (simp_all add: emit_all_def emit_def)

lemma pkt_build_sensor_frame_fails: "fst (pkt_build_sensor_frame s buf buf_size) = 0"
proof -
  have "snd (emit_all b 4 (pkt_sensor_chunks s)) = 76" for b
    by (simp add: emit_all_offset length_pkt_sensor_chunks)
  then show ?thesis
    by (simp add: pkt_build_sensor_frame_def SENSOR_PAYLOAD_SIZE_def proto_sizes split_beta Let_def)
qed

lemma sim_transmit_none: "snd (sim_transmit n dropping corrupt s b) = None"
  using pkt_build_sensor_frame_fails [of s b "length b"]
  by (simp add: sim_transmit_def split_beta Let_def)

text \<open>A frame with both CRC bytes flipped is a frame body with another CRC.\<close>

lemma pkt_corrupt_wire_frame:
  obtains lo hi where "pkt_corrupt_crc (wire_frame t p) (length (wire_frame t p)) =
      PROTO_SOF # frame_body t p @ [lo, hi]"
    "[lo, hi] \<noteq> u16_bytes (crc16_loop 0xFFFF (frame_body t p))"
proof -
  obtain lo hi where w: "wire_frame t p = PROTO_SOF # frame_body t p @ [lo, hi]"
    "[lo, hi] = u16_bytes (crc16_loop 0xFFFF (frame_body t p))"
    by (rule wire_frame_split)
  let ?h = "PROTO_SOF # frame_body t p"
  have l: "length (wire_frame t p) - 2 = length ?h" "length (wire_frame t p) - 1 = length ?h + 1"
    "\<not> length (wire_frame t p) < 2"
    unfolding w(1) by simp_all
  have eq: "wire_frame t p = ?h @ [lo, hi]" using w(1) by simp
  have n: "(?h @ [lo, hi]) ! length ?h = lo" "(?h @ [lo, hi]) ! (length ?h + 1) = hi"
    by (simp_all add: nth_append)
  have "pkt_corrupt_crc (wire_frame t p) (length (wire_frame t p)) =
      (?h @ [lo, hi])[length ?h := lo XOR 0xFF, length ?h + 1 := hi XOR 0xFF]"
    unfolding pkt_corrupt_crc_def if_not_P [OF l(3)] l(1,2) unfolding eq n ..
  also have "\<dots> = PROTO_SOF # frame_body t p @ [lo XOR 0xFF, hi XOR 0xFF]"
    using list_update_two [of "[lo, hi]" ?h] by simp
  finally have c: "pkt_corrupt_crc (wire_frame t p) (length (wire_frame t p)) =
      PROTO_SOF # frame_body t p @ [lo XOR 0xFF, hi XOR 0xFF]" .
  have "lo XOR 0xFF \<noteq> lo"
  proof
    assume "lo XOR 0xFF = lo"
    then have "lo XOR (lo XOR 0xFF) = 0" by simp
    then have "(0xFF :: byte) = 0" by (simp flip: xor.assoc)
    then show False by simp
  qed
  with c w(2) that show ?thesis by (metis list.inject)
qed

lemma rx_run_corrupted:
  assumes "rx_inv ctx" "rx_pending ctx = []" "length p \<le> PROTO_MAX_PAYLOAD"
  shows "True \<notin> set (snd (rx_run ctx (pkt_corrupt_crc (wire_frame t p) (length (wire_frame t p)))))"
    "rx_pending (fst (rx_run ctx (pkt_corrupt_crc (wire_frame t p) (length (wire_frame t p))))) = []"
proof -
  obtain lo hi where c: "pkt_corrupt_crc (wire_frame t p) (length (wire_frame t p)) =
      PROTO_SOF # frame_body t p @ [lo, hi]"
    "[lo, hi] \<noteq> u16_bytes (crc16_loop 0xFFFF (frame_body t p))"
    by (rule pkt_corrupt_wire_frame)
  show "True \<notin> set (snd (rx_run ctx (pkt_corrupt_crc (wire_frame t p) (length (wire_frame t p)))))"
    unfolding c(1) rx_run_frame(1) [OF assms] using c(2) by simp
  show "rx_pending (fst (rx_run ctx (pkt_corrupt_crc (wire_frame t p) (length (wire_frame t p))))) = []"
    unfolding c(1) by (rule rx_run_frame(2) [OF assms])
qed

section \<open>Properties\<close>

text \<open>The simulator's copy of the CRC routine computes the same value as the firmware's on every
  buffer and length.\<close>

lemma simulator_crc_matches_firmware: "pkt_crc16 data len = proto_crc16 data len"
  by (rule pkt_crc16_eq)

text \<open>The simulator never transmits a sensor frame: whatever the tick, the faults, the sample and
  the buffer, the frame builder rejects its own 72 payload bytes and the transmit step writes
  nothing to the UART.\<close>

lemma simulator_never_transmits:
  "fst (pkt_build_sensor_frame s buf buf_size) = 0 \<and>
   snd (sim_transmit tick_count comms_drop packet_corrupt s buf) = None"
  using pkt_build_sensor_frame_fails sim_transmit_none by simp

text \<open>The packet-corruption fault works: a wire frame whose CRC bytes were flipped by
  \<open>pkt_corrupt_crc\<close> is rejected by the firmware's receiver, which is between frames again at its
  end and accepts the next good frame.\<close>

lemma corrupted_packet_rejected:
  assumes "rx_inv ctx" "rx_pending ctx = []" "length p \<le> PROTO_MAX_PAYLOAD"
    and "length p' \<le> PROTO_MAX_PAYLOAD"
    and "bad = pkt_corrupt_crc (wire_frame t p) (length (wire_frame t p))"
  shows "True \<notin> set (snd (rx_run ctx bad)) \<and>
    snd (rx_run (fst (rx_run ctx bad)) (wire_frame t' p')) = replicate (5 + length p') False @ [True]"
  using rx_run_corrupted [OF assms(1-3), of t] rx_run_wire_frame(1) [of "fst (rx_run ctx bad)" p' t']
    rx_run_inv [OF assms(1), of bad] assms(4,5)
  by simp

lemma corrupted_packet_rejected_example:
  "True \<notin> set (snd (rx_run proto_rx_zero (pkt_corrupt_crc (wire_frame 0x12 [1]) 7)))"
  using corrupted_packet_rejected [OF proto_rx_zero_idle _ _ refl, of "[1]" "[]" "0x12" "0x12"]
  by (simp add: proto_sizes len_simps)

end
