(* ===== verification/SimMain.thy ===== *)
theory SimMain
  imports TcpServer UartBridge SimSerializer
begin

text \<open>
  The simulator's program, \<open>Simulator/main_sim.c\<close>: its options, the start-up of all parts, one
  iteration of the main loop, the signal handler and the shutdown.  Everything the iteration gets
  from the system (the clock, the results of reads and writes) is an environment \<open>sim_env\<close>; the
  scenario engine, whose source is not in the repository, is a parameter, as is the C library.
  Console output other than the usage text is left out.

  \<open>main\<close> owns the sensor models and the fault injector points to them: a model is kept in the
  injector, as what the pointer points to.
\<close>

section \<open>Configuration\<close>

record sim_config =
  cfg_uart_device :: buf
  cfg_uart_baud :: int
  cfg_scenario_file :: buf
  cfg_tcp_enabled :: bool
  cfg_tcp_port :: int
  cfg_verbose :: bool

definition SIM_TCP_PORT :: int where "SIM_TCP_PORT = 5760"

definition sim_config_default :: sim_config where
  "sim_config_default =
     \<lparr>cfg_uart_device = c_strncpy (replicate 64 0) (c_str ''pty'') 64, cfg_uart_baud = 115200,
      cfg_scenario_file = replicate 256 0, cfg_tcp_enabled = True, cfg_tcp_port = SIM_TCP_PORT,
      cfg_verbose = False\<rparr>"

text \<open>What \<open>getopt\<close> returns, with \<open>optarg\<close> where the option has one; \<open>Opt_unknown\<close> is \<open>?\<close>.\<close>

datatype sim_option =
    Opt_d "byte list" | Opt_b "byte list" | Opt_s "byte list" | Opt_p "byte list"
  | Opt_v | Opt_h | Opt_unknown

text \<open>The option loop: the exit status, or the configuration.\<close>

fun parse_options :: "sim_config \<Rightarrow> sim_option list \<Rightarrow> int + sim_config" where
  "parse_options cfg [] = Inr cfg"
| "parse_options cfg (opt # opts) =
     (case opt of
        Opt_d arg \<Rightarrow> parse_options (cfg\<lparr>cfg_uart_device := c_strncpy (cfg_uart_device cfg) arg 63\<rparr>) opts
      | Opt_b arg \<Rightarrow> parse_options (cfg\<lparr>cfg_uart_baud := c_atoi arg\<rparr>) opts
      | Opt_s arg \<Rightarrow> parse_options (cfg\<lparr>cfg_scenario_file := c_strncpy (cfg_scenario_file cfg) arg 255\<rparr>) opts
      | Opt_p arg \<Rightarrow> parse_options (cfg\<lparr>cfg_tcp_port := c_atoi arg\<rparr>) opts
      | Opt_v \<Rightarrow> parse_options (cfg\<lparr>cfg_verbose := True\<rparr>) opts
      | Opt_h \<Rightarrow> Inl 0
      | Opt_unknown \<Rightarrow> Inl 1)"

definition print_usage :: "byte list \<Rightarrow> byte list" where
  "print_usage prog =
     c_str ''Usage: '' @ prog @ c_str '' [OPTIONS]'' @ [10] @
     c_str ''  -d DEVICE    UART device (default: pty)'' @ [10] @
     c_str ''  -b BAUD      Baud rate   (default: 115200)'' @ [10] @
     c_str ''  -s SCENARIO  Scenario JSON file (default: built-in hover)'' @ [10] @
     c_str ''  -p PORT      TCP command port (default: 5760)'' @ [10] @
     c_str ''  -v           Verbose output'' @ [10] @
     c_str ''  -h           This help'' @ [10] @
     [10] @ c_str ''Example:'' @ [10] @
     c_str ''  '' @ prog @ c_str '' -d /dev/ttyS0 -s scenarios/gps_loss_test.json -v'' @ [10] @
     c_str ''  '' @ prog @ c_str '' -d pty        (creates PTY pair, prints slave path)'' @ [10]"

section \<open>Clock\<close>

text \<open>\<open>now_ms\<close> and \<open>sleep_ms\<close>, on the seconds and nanoseconds of a \<open>timespec\<close>.\<close>

definition now_ms :: "int \<times> int \<Rightarrow> u32" where
  "now_ms ts = word_of_int (fst ts * 1000 + snd ts div 1000000)"

definition sleep_ms :: "u32 \<Rightarrow> int \<times> int" where
  "sleep_ms ms = (uint (ms div 1000), uint (ms mod 1000) * 1000000)"

definition SIM_TICK_MS :: u32 where "SIM_TICK_MS = 1000 div SIM_TICK_RATE_HZ"

section \<open>State\<close>

text \<open>The parts of the program that are not in the repository.\<close>

record ('sc, 'r) sim_params =
  p_libc :: "'r libc"
  p_scan :: float_scanner
  p_masks :: termios_masks
  scenario_load :: "byte list \<Rightarrow> 'sc"
  scenario_load_default :: 'sc
  scenario_tick :: "'sc \<Rightarrow> fault_injector \<times> baro_model \<Rightarrow> u32 \<Rightarrow> 'sc \<times> fault_injector \<times> baro_model"

record ('sc, 'r) sim_state =
  g_running :: bool
  sim_cfg :: sim_config
  sim_scenario :: 'sc
  sim_faults :: fault_injector
  sim_baro :: baro_model
  sim_uart :: uart_bridge
  sim_tcp :: tcp_server
  sim_wall_ms :: u32
  tick_count :: u32
  start_real_ms :: u32
  last_stats_ms :: u32
  sim_tx_frame :: buf
  sim_rand :: 'r

text \<open>What one iteration gets from the system: the clock at its start and its end, and the results
  of \<open>write\<close> and \<open>read\<close> on the port and of \<open>accept\<close> and \<open>read\<close> in the command server.\<close>

record sim_env =
  env_start :: "int \<times> int"
  env_end :: "int \<times> int"
  env_write :: write_result
  env_uart_read :: uart_read_result
  env_accept :: int
  env_tcp_read :: "nat \<Rightarrow> read_result"
  env_beyond :: "byte list"

section \<open>Start-up\<close>

definition SIM_LATITUDE :: f64 where "SIM_LATITUDE = f64_lit 377749 10000"
definition SIM_LONGITUDE :: f64 where "SIM_LONGITUDE = f64_lit (-1224194) 10000"

text \<open>\<open>main\<close> from the end of the options to the loop: the exit status, or the state.  \<open>socks\<close> are
  the results of \<open>socket\<close>, \<open>bind\<close> and \<open>listen\<close>; the result of \<open>tcp_server_init\<close> is ignored, as in
  the code.\<close>

definition sim_start ::
    "('sc, 'r) sim_params \<Rightarrow> sim_config \<Rightarrow> uart_system \<Rightarrow> int \<times> int \<times> int \<Rightarrow> int \<times> int \<Rightarrow> 'r
     \<Rightarrow> int + ('sc, 'r) sim_state" where
  "sim_start P cfg sys socks start rand =
     (let imu = imu_init;
          gps = gps_init SIM_LATITUDE SIM_LONGITUDE;
          battery = battery_init (f32_lit 126 10) (f32_lit 2200 1);
          baro = baro_init;
          faults = fault_init (Some imu) (Some gps) (Some battery);
          scenario = (if length (c_string (cfg_scenario_file cfg)) > 0
                      then scenario_load P (c_string (cfg_scenario_file cfg))
                      else scenario_load_default P);
          (opened, uart) = uart_open (p_masks P) sys (c_string (cfg_uart_device cfg)) (cfg_uart_baud cfg)
      in if opened \<noteq> 0 then Inl 1
         else let
           (sock, bound, listening) = socks;
           tcp = (if cfg_tcp_enabled cfg
                  then snd (tcp_server_init sock bound listening (cfg_tcp_port cfg) tcp_server_zero)
                  else tcp_server_zero)
         in Inr \<lparr>g_running = True, sim_cfg = cfg, sim_scenario = scenario, sim_faults = faults,
                sim_baro = baro, sim_uart = uart, sim_tcp = tcp, sim_wall_ms = 0, tick_count = 0,
                start_real_ms = now_ms start, last_stats_ms = 0,
                sim_tx_frame = replicate (PROTO_HEADER_SIZE + 128 + PROTO_CRC_SIZE) 0,
                sim_rand = rand\<rparr>)"

text \<open>\<open>main\<close> up to its loop: the first state, or an exit code with the usage text if it was printed.\<close>

definition sim_main ::
    "('sc, 'r) sim_params \<Rightarrow> byte list \<Rightarrow> sim_option list \<Rightarrow> uart_system \<Rightarrow> int \<times> int \<times> int
     \<Rightarrow> int \<times> int \<Rightarrow> 'r \<Rightarrow> int \<times> byte list + ('sc, 'r) sim_state" where
  "sim_main P prog opts sys socks start rand =
     (case parse_options sim_config_default opts of
        Inl code \<Rightarrow> Inl (code, print_usage prog)
      | Inr cfg \<Rightarrow>
          (case sim_start P cfg sys socks start rand of
             Inl code \<Rightarrow> Inl (code, []) | Inr s \<Rightarrow> Inr s))"

section \<open>The loop\<close>

definition SIM_SENSOR_ALL_OK :: byte where "SIM_SENSOR_ALL_OK = 0x1F"
definition SIM_SENSOR_GPS_OK :: byte where "SIM_SENSOR_GPS_OK = push_bit 2 1"

text \<open>\<open>(float)TICK_MS / 1000.0f\<close>.\<close>

definition sim_dt :: f32 where
  "sim_dt = f32_div (f32_of_int (uint SIM_TICK_MS)) (f32_lit 1000 1)"

text \<open>Step 3: one sample of all models.\<close>

definition sim_sample ::
    "('r, 'z) libc_scheme \<Rightarrow> u32 \<Rightarrow> baro_model \<Rightarrow> fault_injector \<times> 'r
     \<Rightarrow> sim_sensor_data \<times> fault_injector \<times> 'r" where
  "sim_sample L wall baro st =
     (let (f, r) = st;
          (imu, (ax, ay, az, gx, gy, gz), r) = imu_tick L (the (fi_imu f)) sim_dt r;
          f = f\<lparr>fi_imu := Some imu\<rparr>;
          ((lat, lon, alt, speed, fix_q, sats), r) = gps_tick L (the (fi_gps f)) r;
          (battery, (v, i, pct)) = battery_tick (the (fi_battery f)) sim_dt;
          f = f\<lparr>fi_battery := Some battery\<rparr>;
          ((pressure, temp), r) = baro_tick L baro r;
          s = sensor_data_zero\<lparr>accel_x := ax, accel_y := ay, accel_z := az,
                gyro_x := gx, gyro_y := gy, gyro_z := gz, latitude := lat, longitude := lon,
                altitude_m := alt, ground_speed_mps := speed, gps_fix_quality := fix_q,
                gps_satellites := sats, battery_voltage_v := v, battery_current_a := i,
                battery_pct := pct, baro_pressure_hpa := pressure, temperature_c := temp,
                timestamp_ms := wall, sensor_status := SIM_SENSOR_ALL_OK\<rparr>;
          s = (if gps_fix_quality s = 0
               then s\<lparr>sensor_status := sensor_status s AND NOT SIM_SENSOR_GPS_OK\<rparr> else s)
      in (s, f, r))"

text \<open>Step 8: the time to sleep, if any.\<close>

definition sim_sleep :: "u32 \<Rightarrow> u32 \<Rightarrow> (int \<times> int) option" where
  "sim_sleep loop_start loop_end =
     (let elapsed = loop_end - loop_start
      in if elapsed < SIM_TICK_MS then Some (sleep_ms (SIM_TICK_MS - elapsed)) else None)"

text \<open>Steps 1 to 7 and the tick count.\<close>

definition sim_iteration ::
    "('sc, 'r) sim_params \<Rightarrow> sim_env \<Rightarrow> ('sc, 'r) sim_state \<Rightarrow> ('sc, 'r) sim_state" where
  "sim_iteration P env s =
     (let wall = now_ms (env_start env) - start_real_ms s;
          (scenario, f, baro) = scenario_tick P (sim_scenario s) (sim_faults s, sim_baro s) wall;
          f = fault_tick f wall;
          (sensors, f, r) = sim_sample (p_libc P) wall baro (f, sim_rand s);
          (tx_frame, frame) = sim_transmit (tick_count s) (comms_drop_active f)
            (packet_corrupt_active f) sensors (sim_tx_frame s);
          uart = (case frame of None \<Rightarrow> sim_uart s
                  | Some bytes \<Rightarrow> snd (uart_write_frame (env_write env) (sim_uart s) bytes));
          (tcp, f) = (if cfg_tcp_enabled (sim_cfg s)
                      then tcp_server_tick (p_scan P) (env_beyond env) wall (env_accept env)
                             (env_tcp_read env) (sim_tcp s, f)
                      else (sim_tcp s, f));
          uart = snd (uart_read (env_uart_read env) uart);
          stats = (if wall - last_stats_ms s \<ge> 5000 then wall else last_stats_ms s)
      in s\<lparr>sim_scenario := scenario, sim_faults := f, sim_baro := baro, sim_uart := uart,
           sim_tcp := tcp, sim_wall_ms := wall, tick_count := tick_count s + 1,
           last_stats_ms := stats, sim_tx_frame := tx_frame, sim_rand := r\<rparr>)"

definition sig_handler :: "('sc, 'r) sim_state \<Rightarrow> ('sc, 'r) sim_state" where
  "sig_handler s = s\<lparr>g_running := False\<rparr>"

definition sim_shutdown :: "('sc, 'r) sim_state \<Rightarrow> ('sc, 'r) sim_state" where
  "sim_shutdown s =
     (let tcp = (if cfg_tcp_enabled (sim_cfg s) then tcp_server_close (sim_tcp s) else sim_tcp s)
      in s\<lparr>sim_tcp := tcp, sim_uart := uart_close (sim_uart s)\<rparr>)"

text \<open>The running program: iterations while \<open>g_running\<close> holds, and signals at any time.\<close>

inductive sim_step ::
    "('sc, 'r) sim_params \<Rightarrow> ('sc, 'r) sim_state \<Rightarrow> ('sc, 'r) sim_state \<Rightarrow> bool"
  for P :: "('sc, 'r) sim_params" where
  Iterate: "g_running s \<Longrightarrow> read_law (env_tcp_read env) \<Longrightarrow> sim_step P s (sim_iteration P env s)"
| Signal: "sim_step P s (sig_handler s)"

inductive sim_run :: "('sc, 'r) sim_params \<Rightarrow> ('sc, 'r) sim_state \<Rightarrow> bool"
  for P :: "('sc, 'r) sim_params" where
  Start: "sim_start P cfg sys socks start rand = Inr s \<Longrightarrow> sim_run P s"
| Step: "sim_run P s \<Longrightarrow> sim_step P s t \<Longrightarrow> sim_run P t"

inductive_cases sim_step_cases: "sim_step P s t"

section \<open>Well-formed states\<close>

text \<open>The injector has its eight slots and points to three models.\<close>

definition faults_ok :: "fault_injector \<Rightarrow> bool" where
  "faults_ok f \<longleftrightarrow> length (slots f) = FAULT_SLOTS \<and> fi_imu f \<noteq> None \<and> fi_gps f \<noteq> None \<and> fi_battery f \<noteq> None"

text \<open>What the loop relies on: the scenario engine does not take the injector apart.\<close>

definition scenario_law :: "('sc, 'r) sim_params \<Rightarrow> bool" where
  "scenario_law P \<longleftrightarrow>
     (\<forall>sc f baro wall. faults_ok f \<longrightarrow> faults_ok (fst (snd (scenario_tick P sc (f, baro) wall))))"

definition sim_well_formed :: "('sc, 'r) sim_state \<Rightarrow> bool" where
  "sim_well_formed s \<longleftrightarrow> faults_ok (sim_faults s) \<and> tcp_inv (sim_tcp s) \<and>
     length (sim_tx_frame s) = PROTO_HEADER_SIZE + 128 + PROTO_CRC_SIZE"

lemma fault_init_ok: "faults_ok (fault_init (Some imu) (Some gps) (Some battery))"
  by (simp add: faults_ok_def fault_init_def)

lemma fault_inject_ok: "faults_ok f \<Longrightarrow> faults_ok (snd (fault_inject f k param dur now))"
  by (simp add: faults_ok_def fault_inject_def split: option.splits)

lemma fault_clear_all_ok: "faults_ok f \<Longrightarrow> faults_ok (fault_clear_all f)"
  by (simp add: faults_ok_def fault_clear_all_def)

lemma fault_tick_ok: "faults_ok f \<Longrightarrow> faults_ok (fault_tick f now)"
  using fault_tick_slots [of f now]
  by (simp add: faults_ok_def) (simp add: fault_tick_def split_beta Let_def)

lemma handle_command_ok:
  "faults_ok (snd st) \<Longrightarrow> faults_ok (snd (handle_command special now l st))"
  using fault_inject_ok fault_clear_all_ok
  by (auto simp: handle_command_def split_beta Let_def split: option.splits)

lemma tcp_lines_ok:
  "faults_ok (snd (snd (snd s))) \<Longrightarrow> faults_ok (snd (snd (snd (tcp_lines special beyond now s))))"
proof (induction special beyond now s rule: tcp_lines.induct)
  case (1 special beyond now s)
  show ?case
  proof (cases "tcp_line_step special beyond now s")
    case None
    then show ?thesis using 1(2) by (subst tcp_lines.simps) simp
  next
    case (Some t)
    obtain buf p srv f where s: "s = (buf, p, srv, f)" by (metis surj_pair)
    have "faults_ok (snd (snd (snd t)))"
      using Some 1(2) handle_command_ok [of "(srv, f)"]
      by (auto simp: s tcp_line_step_def Let_def split: option.splits)
    then show ?thesis using Some 1(1) [OF Some] by (subst tcp_lines.simps) simp
  qed
qed

lemma tcp_server_tick_ok:
  assumes "faults_ok f"
  shows "faults_ok (snd (tcp_server_tick special beyond now accepted rd (srv, f)))"
proof -
  have "faults_ok (snd (tcp_process special beyond now bs (srv, f)))" for bs
    using tcp_lines_ok [of "((buf_put (rx_pos srv) bs (rx_buf srv))[rx_pos srv + length bs := 0], 0, srv, f)"] assms
    by (simp add: tcp_process_def split_beta Let_def)
  then show ?thesis using assms by (simp add: tcp_server_tick_def split: read_result.splits)
qed

lemma sim_sample_ok:
  "faults_ok f \<Longrightarrow> faults_ok (fst (snd (sim_sample L wall baro (f, r))))"
  by (simp add: sim_sample_def faults_ok_def split_beta Let_def)

lemma pkt_build_sensor_frame_length:
  "length (snd (pkt_build_sensor_frame s buf n)) = length buf"
  if "length buf = n"
proof -
  have "length (fst (emit_all b 4 (pkt_sensor_chunks s))) = length b" if "76 \<le> length b" for b :: buf
    using emit_all_eq [of 4 "pkt_sensor_chunks s" b] length_pkt_sensor_chunks [of s] that
    by (simp add: buf_simps)
  then show ?thesis using that
    by (simp add: pkt_build_sensor_frame_def SENSOR_FRAME_SIZE_def SENSOR_PAYLOAD_SIZE_def proto_sizes
        split_beta Let_def)
qed

lemma sim_transmit_length:
  "length (fst (sim_transmit n dropping corrupt s b)) = length b"
  by (simp add: sim_transmit_def pkt_corrupt_crc_def pkt_build_sensor_frame_length split_beta Let_def)

lemma tcp_server_init_inv: "tcp_inv srv \<Longrightarrow> tcp_inv (snd (tcp_server_init sock bound listening port srv))"
  by (simp add: tcp_server_init_def tcp_inv_def Let_def)

lemma sim_start_well_formed: "sim_start P cfg sys socks start rand = Inr s \<Longrightarrow> sim_well_formed s"
  by (auto simp: sim_start_def sim_well_formed_def fault_init_ok tcp_server_zero_inv tcp_server_init_inv
      split_beta Let_def split: if_splits)

lemma sim_iteration_faults:
  assumes "scenario_law P" "faults_ok (sim_faults s)"
  shows "faults_ok (sim_faults (sim_iteration P env s))"
proof -
  obtain sc f baro where sc: "scenario_tick P (sim_scenario s) (sim_faults s, sim_baro s)
      (now_ms (env_start env) - start_real_ms s) = (sc, f, baro)"
    by (metis surj_pair)
  from assms have "faults_ok f" unfolding scenario_law_def by (metis sc fst_conv snd_conv)
  then show ?thesis
    by (simp add: sim_iteration_def sc tcp_server_tick_ok sim_sample_ok fault_tick_ok split_beta Let_def)
qed

lemma sim_iteration_tcp:
  "tcp_inv (sim_tcp s) \<Longrightarrow> read_law (env_tcp_read env) \<Longrightarrow> tcp_inv (sim_tcp (sim_iteration P env s))"
  by (simp add: sim_iteration_def tcp_server_tick_inv split_beta Let_def)

lemma sim_iteration_frame: "length (sim_tx_frame (sim_iteration P env s)) = length (sim_tx_frame s)"
  by (simp add: sim_iteration_def sim_transmit_length split_beta Let_def)

lemma sim_step_well_formed:
  "sim_step P s t \<Longrightarrow> scenario_law P \<Longrightarrow> sim_well_formed s \<Longrightarrow> sim_well_formed t"
  by (erule sim_step_cases)
    (simp_all add: sim_well_formed_def sig_handler_def sim_iteration_faults sim_iteration_tcp sim_iteration_frame)

section \<open>Nothing is sent\<close>

definition sim_silent :: "('sc, 'r) sim_state \<Rightarrow> bool" where
  "sim_silent s \<longleftrightarrow> uart_out (sim_uart s) = [] \<and> tx_frames (sim_uart s) = 0"

lemma sim_main_runs: "sim_main P prog opts sys socks start rand = Inr s \<Longrightarrow> sim_run P s"
  by (auto simp: sim_main_def intro: sim_run.Start split: sum.splits)

text \<open>The first \<open>-h\<close> or unknown option ends the program, with status 0 or 1.\<close>

lemma parse_options_ends_iff:
  "parse_options cfg opts = Inl code \<longleftrightarrow>
     (\<exists>opt. List.find (\<lambda>opt. opt \<in> {Opt_h, Opt_unknown}) opts = Some opt \<and>
        code = (if opt = Opt_h then 0 else 1))"
  by (induction opts arbitrary: cfg) (auto split: sim_option.splits)

lemma sim_main_usage:
  assumes "List.find (\<lambda>opt. opt \<in> {Opt_h, Opt_unknown}) opts = Some opt"
  shows "sim_main P prog opts sys socks start rand =
    Inl (if opt = Opt_h then 0 else 1, print_usage prog)"
proof -
  have "parse_options sim_config_default opts = Inl (if opt = Opt_h then 0 else 1)"
    unfolding parse_options_ends_iff using assms by blast
  then show ?thesis by (simp add: sim_main_def)
qed

lemma sim_start_silent: "sim_start P cfg sys socks start rand = Inr s \<Longrightarrow> sim_silent s"
  by (auto simp: sim_start_def sim_silent_def uart_open_counters split_beta Let_def split: if_splits)

lemma sim_step_silent: "sim_step P s t \<Longrightarrow> sim_silent s \<Longrightarrow> sim_silent t"
  by (erule sim_step_cases)
    (simp_all add: sim_silent_def sig_handler_def sim_iteration_def sim_transmit_none uart_read_keeps
      split_beta Let_def)

section \<open>Properties\<close>

definition example_params :: "(unit, int) sim_params" where
  "example_params =
     \<lparr>p_libc = example_libc, p_scan = (\<lambda>s. None),
      p_masks = \<lparr>PARENB = 0, CSTOPB = 0, CSIZE = 0, CRTSCTS = 0, CS8 = 0, CREAD = 0, CLOCAL = 0,
        IXON = 0, IXOFF = 0, IXANY = 0, IGNBRK = 0, BRKINT = 0, PARMRK = 0, ISTRIP = 0, INLCR = 0,
        IGNCR = 0, ICRNL = 0, OPOST = 0, ECHO = 0, ECHONL = 0, ICANON = 0, ISIG = 0, IEXTEN = 0\<rparr>,
      scenario_load = (\<lambda>name. ()), scenario_load_default = (),
      scenario_tick = (\<lambda>sc (f, baro) wall. (sc, f, baro))\<rparr>"

lemma example_params_law: "scenario_law example_params"
  by (simp add: scenario_law_def example_params_def)

lemma example_start:
  "\<exists>s. sim_start example_params sim_config_default
     \<lparr>sys_openpty = Some (3, 4, [47, 112]), sys_open = -1, sys_tcgetattr = None, sys_tcsetattr = False\<rparr>
     (5, 0, 0) (100, 0) 7 = Inr s"
proof -
  have d: "c_string (cfg_uart_device sim_config_default) = c_str ''pty''"
    by code_simp
  have "fst (uart_open T \<lparr>sys_openpty = Some (3, 4, [47, 112]), sys_open = -1, sys_tcgetattr = None,
      sys_tcsetattr = False\<rparr> (c_str ''pty'') b) = 0" for T b
    by (simp add: uart_open_def Let_def)
  then show ?thesis unfolding sim_start_def d by (simp add: split_beta Let_def)
qed

text \<open>C11: The simulator's state stays well typed: in every state the program can reach, under every
  sequence of inputs and signals, the injector has its eight slots and points to all three
  models, the command server's buffer has its 256 bytes and its position is inside, and the
  transmit buffer keeps its 134 bytes; so no access of the loop is out of bounds.\<close>

theorem simulator_stays_well_formed:
  assumes "sim_run P s" "scenario_law P"
  shows "sim_well_formed s"
  using assms
  by (induction rule: sim_run.induct) (auto intro: sim_start_well_formed sim_step_well_formed)

theorem simulator_stays_well_formed_witness:
  "\<exists>s. sim_run example_params s \<and> \<not> g_running s \<and> sim_well_formed s"
proof -
  obtain s where "sim_run example_params s" using example_start sim_run.Start by metis
  then have r: "sim_run example_params (sig_handler s)" by (rule sim_run.Step) (rule sim_step.Signal)
  from simulator_stays_well_formed [OF r example_params_law] r show ?thesis
    by (auto simp: sig_handler_def)
qed

text \<open>The simulator never sends a byte: in every state the program can reach, whatever the
  scenario, the faults, the commands and the system do, nothing was written to the serial port
  and the frame counter in its statistics is 0.\<close>

lemma simulator_stays_silent:
  assumes "sim_run P s"
  shows "uart_out (sim_uart s) = [] \<and> tx_frames (sim_uart s) = 0"
proof -
  have "sim_silent s"
    using assms by (induction rule: sim_run.induct) (auto intro: sim_start_silent sim_step_silent)
  then show ?thesis by (simp add: sim_silent_def)
qed

lemma simulator_stays_silent_example:
  "\<exists>s. sim_run example_params s \<and> tx_frames (sim_uart s) = 0"
proof -
  obtain s where r: "sim_run example_params s" using example_start sim_run.Start by metis
  from simulator_stays_silent [OF r] r show ?thesis by blast
qed

end
