(* ===== verification/Bench.thy ===== *)
theory Bench
  imports FirmwareStart SimMain
begin

text \<open>
  The bench: the simulator's program and the firmware, joined by the serial line from the one to
  the other.  What the simulator's \<open>write\<close> accepts is put on the line, and a byte at its end goes
  to the firmware's receive interrupt; the two sides otherwise run on their own, in any
  interleaving.  What the simulator reads back is any input, since it only counts it.
\<close>

section \<open>State and steps\<close>

record ('sc, 'r, 'q, 'e, 'h) bench =
  b_sim :: "('sc, 'r) sim_state"
  b_line :: "byte list"
  b_fw :: "('q, 'e, 'h) firmware"

text \<open>The bytes a step of the simulator has written.\<close>

definition written :: "('sc, 'r) sim_state \<Rightarrow> ('sc, 'r) sim_state \<Rightarrow> byte list" where
  "written s s' = drop (length (uart_out (sim_uart s))) (uart_out (sim_uart s'))"

inductive bench_step ::
    "('sc, 'r) sim_params \<Rightarrow> ('q, 'e) rtos \<Rightarrow> ('sc, 'r, 'q, 'e, 'h) bench
     \<Rightarrow> ('sc, 'r, 'q, 'e, 'h) bench \<Rightarrow> bool"
  for P :: "('sc, 'r) sim_params" and r :: "('q, 'e) rtos" where
  simulate: "sim_step P (b_sim b) s \<Longrightarrow>
    bench_step P r b (b\<lparr>b_sim := s, b_line := b_line b @ written (b_sim b) s\<rparr>)"
| transfer: "b_line b = x # xs \<Longrightarrow>
    bench_step P r b (b\<lparr>b_line := xs,
      b_fw := (b_fw b)\<lparr>fw_sensor := uart_receive (fw_sensor (b_fw b)) x\<rparr>\<rparr>)"
| run_task: "fw_pass r (b_fw b) fw \<Longrightarrow> bench_step P r b (b\<lparr>b_fw := fw\<rparr>)"

text \<open>Both programs have started: \<open>main\<close> of the simulator reached its loop and \<open>main\<close> of the
  firmware its scheduler, with an empty queue and no event flag set.\<close>

inductive bench_run ::
    "('sc, 'r) sim_params \<Rightarrow> ('q, 'e) rtos \<Rightarrow> ('q \<Rightarrow> sensor_data list)
     \<Rightarrow> ('sc, 'r, 'q, 'e, 'h) bench \<Rightarrow> bool"
  for P :: "('sc, 'r) sim_params" and r :: "('q, 'e) rtos" and queue :: "'q \<Rightarrow> sensor_data list" where
  start: "sim_start P cfg sys socks clock rand = Inr s \<Longrightarrow> mcu_main p q e \<noteq> None \<Longrightarrow>
    queue q = [] \<Longrightarrow> osEventFlagsGet r e = 0 \<Longrightarrow>
    bench_run P r queue \<lparr>b_sim = s, b_line = [], b_fw = firmware_boot tick q e (task_handles p)\<rparr>"
| step: "bench_run P r queue b \<Longrightarrow> bench_step P r b b' \<Longrightarrow> bench_run P r queue b'"

inductive_cases bench_step_cases: "bench_step P r b b'"
inductive_cases fw_pass_cases: "fw_pass r fw fw'"

section \<open>A firmware without input\<close>

text \<open>The sample the state-machine task starts with shows all three sensor faults.\<close>

lemma evaluate_faults_no_sample: "evaluate_faults sensor_data_zero now = 7"
proof -
  have "gps_lost sensor_data_zero" "batt_low sensor_data_zero" "imu_frozen sensor_data_zero"
    by code_simp+
  then show ?thesis by (simp add: evaluate_faults_cases)
qed

definition never_fed :: "('q, 'e) rtos \<Rightarrow> ('q \<Rightarrow> sensor_data list) \<Rightarrow> ('q, 'e, 'h) firmware \<Rightarrow> bool" where
  "never_fed r queue fw \<longleftrightarrow>
     queue (g_sensor_queue (fw_globals fw)) = [] \<and>
     \<not> s_byte_ready (fw_sensor fw) \<and> s_packet_count (fw_sensor fw) = 0 \<and>
     s_last_packet_ms (fw_sensor fw) = 0 \<and>
     s_last_sensors (fw_fsm fw) = sensor_data_zero \<and>
     current_state (s_fsm (fw_fsm fw)) = FLIGHT_STATE_INIT \<and>
     transition_count (s_fsm (fw_fsm fw)) = 0 \<and> ctx_fault_flags (s_fsm (fw_fsm fw)) \<in> {0, 7} \<and>
     osEventFlagsGet r (g_fault_flags (fw_globals fw)) AND 8 = 0"

lemma firmware_boot_never_fed:
  "queue q = [] \<Longrightarrow> osEventFlagsGet r e = 0 \<Longrightarrow> never_fed r queue (firmware_boot tick q e reg)"
  by (simp add: firmware_boot_def firmware_main_def task_sensor_start_def task_fsm_start_def
      never_fed_def sensor_task_zero_def fsm_init_def Let_def)

lemma sensor_pass_never_fed:
  assumes "task_sensor_pass r now1 now tick (t, g) = (t', g')"
    and "\<not> s_byte_ready t" "s_last_packet_ms t = 0"
  shows "t' = t \<and> g' = g"
  using assms by (simp add: task_sensor_pass_def comms_overdue_def)

lemma fsm_tick_no_sample:
  assumes "current_state ctx = FLIGHT_STATE_INIT"
  shows "fst (fsm_tick ctx sensor_data_zero f now tick bb) = ctx\<lparr>ctx_fault_flags := f\<rparr>"
proof -
  have "\<not> guard_init_to_preflight sensor_data_zero f" by code_simp
  then show ?thesis using assms by (simp add: fsm_tick_def)
qed

lemma telemetry_pass_shared:
  "task_telemetry_pass r stack f (t, g) = (t', g') \<Longrightarrow>
   g_sensor_queue g' = g_sensor_queue g \<and> g_fault_flags g' = g_fault_flags g"
  by (auto simp: task_telemetry_pass_def split_beta Let_def)

lemma health_pass_shared:
  assumes "task_health_pass r hwm heap now tick sensor f (t, g) = (t', g')"
    and "flag_laws r" "s_last_packet_ms sensor = 0"
  shows "g_sensor_queue g' = g_sensor_queue g \<and> osEventFlagsGet r (g_fault_flags g') AND 8 = 0"
proof (rule task_health_pass_cases [OF assms(1)])
  assume "g_sensor_queue g' = g_sensor_queue g"
    and e: "g_fault_flags g' = health_flags r (stack_low hwm (s_registry t))
      (comms_lost now (s_last_packet_ms sensor)) (g_fault_flags g)"
  moreover have "osEventFlagsGet r (g_fault_flags g') AND 8 = 0"
    unfolding e health_flags_get [OF assms(2)]
    by (simp add: assms(3) comms_lost_def bit.conj_disj_distrib2 and.assoc)
  ultimately show ?thesis by simp
qed

lemma fw_pass_never_fed:
  assumes "fw_pass r fw fw'" "queue_laws r queue" "flag_laws r" "never_fed r queue fw"
  shows "never_fed r queue fw'"
  using assms(1)
proof (cases rule: fw_pass.cases)
  case (sensor now1 now tick t g)
  then show ?thesis
    using sensor_pass_never_fed [OF sensor(2)] assms(4) by (simp add: never_fed_def)
next
  case (fsm now tick1 tick2 t g)
  have q: "queue (g_sensor_queue (fw_globals fw)) = []"
    and s: "s_last_sensors (fw_fsm fw) = sensor_data_zero"
    using assms(4) by (simp_all add: never_fed_def)
  have p: "pass_sample r (fw_fsm fw) (g_sensor_queue (fw_globals fw)) = sensor_data_zero"
    using queue_get_nil [OF assms(2) q] s by (simp add: pass_sample_def)
  note eqs = task_fsm_pass_eqs(1-3) [OF fsm(2), unfolded p evaluate_faults_no_sample]
    and flags = task_fsm_pass_flags [OF fsm(2) assms(3), unfolded p evaluate_faults_no_sample]
  show ?thesis
    using assms(4) queue_get_nil [OF assms(2) q] fsm(1)
    by (simp add: never_fed_def eqs flags fsm_tick_no_sample)
next
  case (telemetry stack t g)
  then show ?thesis
    using telemetry_pass_shared [OF telemetry(3)] assms(4) by (simp add: never_fed_def)
next
  case (health hwm heap now tick t g)
  then show ?thesis
    using health_pass_shared [OF health(2) assms(3)] assms(4) by (simp add: never_fed_def)
qed

section \<open>The joined programs\<close>

definition bench_idle ::
    "('q, 'e) rtos \<Rightarrow> ('q \<Rightarrow> sensor_data list) \<Rightarrow> ('sc, 'r, 'q, 'e, 'h) bench \<Rightarrow> bool" where
  "bench_idle r queue b \<longleftrightarrow> sim_silent (b_sim b) \<and> b_line b = [] \<and> never_fed r queue (b_fw b)"

lemma bench_step_idle:
  assumes "bench_step P r b b'" "queue_laws r queue" "flag_laws r" "bench_idle r queue b"
  shows "bench_idle r queue b'"
  using assms(1)
proof (cases rule: bench_step.cases)
  case (simulate s)
  then have "sim_silent s" using sim_step_silent assms(4) by (auto simp: bench_idle_def)
  then show ?thesis using simulate assms(4) by (simp add: bench_idle_def written_def sim_silent_def)
next
  case (transfer x xs)
  then show ?thesis using assms(4) by (simp add: bench_idle_def)
next
  case (run_task fw)
  then show ?thesis using fw_pass_never_fed assms by (auto simp: bench_idle_def)
qed

lemma bench_run_idle:
  assumes "bench_run P r queue b" "queue_laws r queue" "flag_laws r"
  shows "bench_idle r queue b"
  using assms(1)
proof induction
  case (start cfg sys socks clock rand s p q e tick)
  then show ?case
    using sim_start_silent [OF start(1)] firmware_boot_never_fed [of queue q r e tick "task_handles p"] start(3,4)
    by (simp add: bench_idle_def)
next
  case (step b b')
  then show ?case using bench_step_idle assms(2,3) by blast
qed

section \<open>Properties\<close>

text \<open>C5: The bench as a whole does not come to life: in every state the joined programs can reach,
  whatever the scenario, the commands and the interleaving, the line is empty, the firmware has
  counted no packet, its state machine is in INIT without a transition, holding no fault or all
  three sensor faults, and the comms fault, which only a first packet would enable, is not
  raised.\<close>

theorem bench_stays_in_init:
  assumes "bench_run P r queue b" "queue_laws r queue" "flag_laws r"
  shows "b_line b = [] \<and> sensor_task_get_packet_count (fw_sensor (b_fw b)) = 0 \<and>
    fsm_task_get_state (fw_fsm (b_fw b)) = FLIGHT_STATE_INIT \<and>
    transition_count (s_fsm (fw_fsm (b_fw b))) = 0 \<and>
    ctx_fault_flags (s_fsm (fw_fsm (b_fw b))) \<in> {0, 7} \<and>
    osEventFlagsGet r (g_fault_flags (fw_globals (b_fw b))) AND FAULT_FLAG_COMMS_TIMEOUT = 0"
  using bench_run_idle [OF assms]
  by (simp add: bench_idle_def never_fed_def sensor_task_get_packet_count_def
      fsm_task_get_state_def flag_defs)

definition full_platform :: "nat platform" where
  "full_platform =
     \<lparr>HAL_UART_Init = (\<lambda>h. HAL_OK), HAL_IWDG_Init = (\<lambda>h. HAL_OK), HAL_CRC_Init = (\<lambda>h. HAL_OK),
      osThreadNew = (\<lambda>a. Some (length (attr_name a)))\<rparr>"

theorem bench_stays_in_init_witness:
  "\<exists>b :: (unit, int, sensor_data list, u32, nat) bench.
     bench_run example_params list_rtos (take SENSOR_QUEUE_LEN) b \<and> \<not> g_running (b_sim b) \<and>
     fsm_task_get_state (fw_fsm (b_fw b)) = FLIGHT_STATE_INIT"
proof -
  obtain s where s: "sim_start example_params sim_config_default
      \<lparr>sys_openpty = Some (3, 4, [47, 112]), sys_open = -1, sys_tcgetattr = None,
       sys_tcsetattr = False\<rparr> (5, 0, 0) (100, 0) 7 = Inr s"
    using example_start by blast
  have m: "mcu_main full_platform ([] :: sensor_data list) (0 :: u32) \<noteq> None"
    by (simp add: mcu_main_def full_platform_def MX_USART2_UART_Init_def MX_IWDG_Init_def
        MX_CRC_Init_def Let_def)
  have b: "bench_run example_params list_rtos (take SENSOR_QUEUE_LEN)
      \<lparr>b_sim = s, b_line = [], b_fw = firmware_boot 0 [] 0 (task_handles full_platform)\<rparr>"
    by (rule bench_run.start [OF s m]) (simp_all add: list_rtos_def)
  let ?b = "\<lparr>b_sim = s, b_line = [], b_fw = firmware_boot 0 [] 0 (task_handles full_platform)\<rparr>"
  let ?s = "sig_handler s"
  have "sim_step example_params (b_sim ?b) ?s" by (simp add: sim_step.Signal)
  note b' = bench_run.step [OF b bench_step.simulate [OF this]]
  obtain b' :: "(unit, int, sensor_data list, u32, nat) bench"
    where b': "bench_run example_params list_rtos (take SENSOR_QUEUE_LEN) b'" "b_sim b' = ?s"
    using that [OF b'] by simp
  from bench_stays_in_init [OF b'(1) list_rtos_queue list_rtos_flags] b' show ?thesis
    by (intro exI [of _ b']) (simp add: sig_handler_def)
qed

end
