(* ===== verification/SimToFirmware.thy ===== *)
theory SimToFirmware
  imports SimMain TaskFsm
begin

text \<open>
  The bench as a whole, from an injected fault to the firmware's view of it: which faults of the
  simulator the fault evaluation of the firmware's state-machine task (\<open>task_fsm.c\<close>) recognises in
  the samples that the simulator's loop (\<open>main_sim.c\<close>) produces after \<open>fault_tick\<close>, in one iteration
  and in any number of them.
\<close>

section \<open>From the injector to the sample\<close>

text \<open>What one sample of the simulator holds, model by model.\<close>

lemma sim_sample_fields:
  assumes "s = fst (sim_sample L wall baro (f, rnd))"
  shows "(accel_x s, accel_y s, accel_z s, gyro_x s, gyro_y s, gyro_z s) =
      fst (snd (imu_tick L (the (fi_imu f)) sim_dt rnd))"
    "(latitude s, longitude s, altitude_m s, ground_speed_mps s, gps_fix_quality s, gps_satellites s) =
      fst (gps_tick L (the (fi_gps f)) (snd (snd (imu_tick L (the (fi_imu f)) sim_dt rnd))))"
    "battery_voltage_v s = fst (snd (battery_tick (the (fi_battery f)) sim_dt))"
  unfolding assms by (simp_all add: sim_sample_def prod_eq_iff split_beta Let_def)

text \<open>The models after a tick of the injector.\<close>

lemma fault_tick_models:
  assumes "faults_ok f"
  shows "fi_imu (fault_tick f now) = Some (imu_freeze (the (fi_imu f)) (live now (slots f) FAULT_TYPE_SENSOR_FREEZE))"
    "fi_gps (fault_tick f now) = Some (gps_set_signal_lost (the (fi_gps f)) (live now (slots f) FAULT_TYPE_GPS_LOSS))"
    "\<exists>target. fi_battery (fault_tick f now) =
       Some (battery_set_sag (the (fi_battery f)) (live now (slots f) FAULT_TYPE_BATTERY_SAG) target)"
  using assms
  by (auto simp: faults_ok_def fault_tick_def split_beta Let_def tick_slots_flags tick_acc_start_def)

lemma sample_gps_lost:
  assumes "faults_ok f"
  shows "gps_lost (fst (sim_sample L wall baro (fault_tick f wall, rnd))) \<longleftrightarrow>
    live wall (slots f) FAULT_TYPE_GPS_LOSS"
proof -
  let ?s = "fst (sim_sample L wall baro (fault_tick f wall, rnd))"
  let ?m = "gps_set_signal_lost (the (fi_gps f)) (live wall (slots f) FAULT_TYPE_GPS_LOSS)"
  obtain rg rg' where t: "gps_tick L ?m rg = ((latitude ?s, longitude ?s, altitude_m ?s, ground_speed_mps ?s,
      gps_fix_quality ?s, gps_satellites ?s), rg')"
    using sim_sample_fields(2) [OF refl, of L wall baro "fault_tick f wall" rnd] fault_tick_models(2) [OF assms, of wall]
    by (metis option.sel prod.collapse)
  show ?thesis
  proof (cases "live wall (slots f) FAULT_TYPE_GPS_LOSS")
    case True
    then have "signal_lost ?m" by (simp add: gps_set_signal_lost_def)
    from t [unfolded gps_tick_lost [OF this]] have "gps_fix_quality ?s = 0" by simp
    with True show ?thesis by (simp add: gps_lost_def)
  next
    case False
    then have "\<not> signal_lost ?m" "fix_quality ?m = 1" by (simp_all add: gps_set_signal_lost_def)
    with gps_tick_fix(1,2) [OF this(1) t] have "gps_fix_quality ?s = 1" "4 \<le> gps_satellites ?s" by simp_all
    with False show ?thesis by (simp add: gps_lost_def not_less)
  qed
qed

lemma evaluate_faults_bits:
  "evaluate_faults s now AND FAULT_FLAG_GPS_LOSS \<noteq> 0 \<longleftrightarrow> gps_lost s"
  "evaluate_faults s now AND FAULT_FLAG_SENSOR_FREEZE \<noteq> 0 \<longleftrightarrow> imu_frozen s"
  "evaluate_faults s now AND FAULT_FLAG_BATT_LOW \<noteq> 0 \<longleftrightarrow> batt_low s"
  by (simp_all add: evaluate_faults_cases flag_defs)

text \<open>A default sag fault in an injector with a fresh battery.\<close>

definition fresh_battery :: battery_model where
  "fresh_battery = battery_init (f32_lit 126 10) (f32_lit 2200 1)"




section \<open>Rounds of the loop\<close>

text \<open>What steps 1 to 3 of one iteration of the loop work with: the time, the barometer, and what was
  done to the injector and its models since the last sample, by the scenario of this iteration and
  by the command server of the one before.  \<open>sim_rounds\<close> runs these steps again and again and
  collects the samples.\<close>

record sim_round =
  round_wall :: u32
  round_baro :: baro_model
  round_change :: "fault_injector \<Rightarrow> fault_injector"

fun sim_rounds ::
    "('r, 'z) libc_scheme \<Rightarrow> sim_round list \<Rightarrow> fault_injector \<times> 'r
     \<Rightarrow> sim_sensor_data list \<times> fault_injector \<times> 'r" where
  "sim_rounds L [] st = ([], st)"
| "sim_rounds L (r # rs) (f, rnd) =
     (let (s, st) = sim_sample L (round_wall r) (round_baro r)
            (fault_tick (round_change r f) (round_wall r), rnd);
          (ss, st) = sim_rounds L rs st
      in (s # ss, st))"

text \<open>One round is what an iteration of the loop does to the injector before its commands.\<close>

lemma sim_iteration_round:
  assumes "\<not> cfg_tcp_enabled (sim_cfg s)" "wall = now_ms (env_start env) - start_real_ms s"
    and "r = \<lparr>round_wall = wall, round_baro = sim_baro (sim_iteration P env s),
      round_change = (\<lambda>f. fst (snd (scenario_tick P (sim_scenario s) (f, sim_baro s) wall)))\<rparr>"
  shows "snd (sim_rounds (p_libc P) [r] (sim_faults s, sim_rand s)) =
    (sim_faults (sim_iteration P env s), sim_rand (sim_iteration P env s))"
  using assms by (simp add: sim_iteration_def split_beta Let_def)

text \<open>Changes that leave the slots alone, and those that only set the true motion of the IMU (and
  whatever else of the other models).\<close>

definition spares_slots :: "(fault_injector \<Rightarrow> fault_injector) \<Rightarrow> bool" where
  "spares_slots c \<longleftrightarrow> (\<forall>f. slots (c f) = slots f \<and> (faults_ok f \<longrightarrow> faults_ok (c f)))"

definition sets_motion :: "(fault_injector \<Rightarrow> fault_injector) \<Rightarrow> bool" where
  "sets_motion c \<longleftrightarrow> spares_slots c \<and>
     (\<forall>f m. fi_imu f = Some m \<longrightarrow>
        (\<exists>ax ay az gx gy gz. fi_imu (c f) = Some (imu_set_motion m ax ay az gx gy gz)))"

lemma spares_slotsD: "spares_slots c \<Longrightarrow> slots (c f) = slots f \<and> (faults_ok f \<longrightarrow> faults_ok (c f))"
  by (simp add: spares_slots_def)

lemma sim_sample_slots: "slots (fst (snd (sim_sample L wall baro (f, rnd)))) = slots f"
  by (simp add: sim_sample_def split_beta Let_def)

text \<open>A round does to the slots what its tick does.\<close>

lemma round_slots:
  assumes "faults_ok f" "spares_slots c" "sim_sample L wall baro (fault_tick (c f) wall, rnd) = (s, f1, rnd1)"
  shows "faults_ok f1" "lasts ts (slots f1) k \<longleftrightarrow> lasts (wall # ts) (slots f) k"
proof -
  note c = spares_slotsD [OF assms(2), of f]
  show "faults_ok f1"
    using sim_sample_ok [of "fault_tick (c f) wall" L wall baro rnd] c assms(1,3) by (simp add: fault_tick_ok)
  have "slots f1 = slots (fault_tick (c f) wall)"
    using sim_sample_slots [of L wall baro "fault_tick (c f) wall" rnd] assms(3) by simp
  then show "lasts ts (slots f1) k \<longleftrightarrow> lasts (wall # ts) (slots f) k"
    using lasts_tick [of ts "c f" wall k] c by simp
qed

lemma rounds_gps_lost:
  "faults_ok f \<Longrightarrow> \<forall>r \<in> set rs. spares_slots (round_change r) \<Longrightarrow> i < length rs \<Longrightarrow>
     gps_lost (fst (sim_rounds L rs (f, rnd)) ! i) \<longleftrightarrow>
       lasts (map round_wall (take (Suc i) rs)) (slots f) FAULT_TYPE_GPS_LOSS"
proof (induction rs arbitrary: f rnd i)
  case (Cons r rs)
  let ?w = "round_wall r" and ?c = "round_change r"
  have c: "spares_slots ?c" using Cons.prems(2) by simp
  obtain s f1 rnd1 where s: "sim_sample L ?w (round_baro r) (fault_tick (?c f) ?w, rnd) = (s, f1, rnd1)"
    by (metis surj_pair)
  note f1 = round_slots [OF Cons.prems(1) c s]
  show ?case
  proof (cases i)
    case 0
    have "gps_lost s \<longleftrightarrow> live ?w (slots f) FAULT_TYPE_GPS_LOSS"
      using sample_gps_lost [of "?c f" L ?w "round_baro r" rnd] spares_slotsD [OF c, of f] Cons.prems(1) s by simp
    then show ?thesis by (simp add: s 0 lasts_live split_beta)
  next
    case (Suc j)
    then show ?thesis using Cons.IH [OF f1(1), of j rnd1] Cons.prems f1(2) by (simp add: s split_beta)
  qed
qed simp

text \<open>The six values an IMU holds while it is frozen: the ones it latched, or will latch.\<close>

definition held_motion :: "imu_model \<Rightarrow> f32 list" where
  "held_motion m =
     (if frozen m then [frozen_ax m, frozen_ay m, frozen_az m, frozen_gx m, frozen_gy m, frozen_gz m]
      else [true_accel_x m, true_accel_y m, true_accel_z m, true_gyro_x m, true_gyro_y m, true_gyro_z m])"

abbreviation sample_motion :: "sim_sensor_data \<Rightarrow> f32 list" where
  "sample_motion s \<equiv> [accel_x s, accel_y s, accel_z s, gyro_x s, gyro_y s, gyro_z s]"

lemma held_motion_kept: "frozen m \<Longrightarrow> held_motion (imu_set_motion m ax ay az gx gy gz) = held_motion m"
  by (simp add: held_motion_def imu_set_motion_def)

lemma frozen_sample:
  assumes "faults_ok f" "live wall (slots f) FAULT_TYPE_SENSOR_FREEZE"
    and "sim_sample L wall baro (fault_tick f wall, rnd) = (s, f1, rnd1)"
  shows "sample_motion s = held_motion (the (fi_imu f))"
    and "\<exists>m. fi_imu f1 = Some m \<and> frozen m \<and> held_motion m = held_motion (the (fi_imu f))"
proof -
  let ?m = "imu_freeze (the (fi_imu f)) True"
  have m: "frozen ?m" "held_motion ?m = held_motion (the (fi_imu f))"
    by (simp_all add: held_motion_def imu_freeze_def)
  have f: "fi_imu (fault_tick f wall) = Some ?m"
    using fault_tick_models(1) [OF assms(1), of wall] assms(2) by simp
  have "sample_motion s = held_motion ?m"
    using sim_sample_fields(1) [of s L wall baro "fault_tick f wall" rnd] assms(3) m(1)
    by (simp add: f imu_tick_frozen) (simp add: held_motion_def)
  then show "sample_motion s = held_motion (the (fi_imu f))" by (simp only: m(2))
  have "fi_imu f1 = Some ?m"
    using assms(3) m(1) f by (auto simp: sim_sample_def imu_tick_frozen split_beta Let_def)
  with m show "\<exists>m. fi_imu f1 = Some m \<and> frozen m \<and> held_motion m = held_motion (the (fi_imu f))" by blast
qed

lemma rounds_hold:
  "faults_ok f \<Longrightarrow> \<forall>r \<in> set rs. sets_motion (round_change r) \<Longrightarrow>
     lasts (map round_wall rs) (slots f) FAULT_TYPE_SENSOR_FREEZE \<Longrightarrow>
     fi_imu f = Some m \<and> frozen m \<and> held_motion m = h \<or>
       rs \<noteq> [] \<and> held_motion (the (fi_imu (round_change (hd rs) f))) = h \<Longrightarrow> i < length rs \<Longrightarrow>
     sample_motion (fst (sim_rounds L rs (f, rnd)) ! i) = h"
proof (induction rs arbitrary: f m rnd i)
  case (Cons r rs)
  let ?w = "round_wall r" and ?c = "round_change r"
  have c: "spares_slots ?c" "sets_motion ?c" using Cons.prems(2) by (simp_all add: sets_motion_def)
  obtain s f1 rnd1 where s: "sim_sample L ?w (round_baro r) (fault_tick (?c f) ?w, rnd) = (s, f1, rnd1)"
    by (metis surj_pair)
  note f1 = round_slots [OF Cons.prems(1) c(1) s]
  have held: "held_motion (the (fi_imu (?c f))) = h"
    using Cons.prems(4) c(2) held_motion_kept unfolding sets_motion_def
    by (metis list.sel(1) option.sel)
  have ok: "faults_ok (?c f)" "live ?w (slots (?c f)) FAULT_TYPE_SENSOR_FREEZE"
    using spares_slotsD [OF c(1), of f] Cons.prems(1,3) by (auto simp: lasts_def live_def)
  note fr = frozen_sample [OF ok s, unfolded held]
  obtain m1 where m1: "fi_imu f1 = Some m1" "frozen m1" "held_motion m1 = h" using fr(2) by blast
  show ?case
  proof (cases i)
    case 0
    then show ?thesis using fr(1) by (simp add: s split_beta)
  next
    case (Suc j)
    then show ?thesis using Cons.IH [OF f1(1), of m1 j rnd1] Cons.prems f1(2) m1 by (simp add: s split_beta)
  qed
qed simp

section \<open>Properties\<close>

text \<open>C7: A GPS fault commanded over TCP shows in the samples for exactly its time.  The line
  \<open>FAULT GPS_LOSS <dur>\<close> is handled at time \<open>start\<close> with a slot free; then the loop makes any number
  of rounds, at any times, in which the scenario may change the models but not the slots.  The
  firmware's fault evaluation, applied to the sample of any of these rounds, reports a GPS fault if
  and only if the duration is 0, or every tick up to this round came less than \<open>dur\<close> milliseconds
  after \<open>start\<close> (modulo the 32-bit clock), or a GPS fault that was there before has lasted through
  all these ticks.\<close>

theorem gps_command_reaches_firmware:
  assumes "faults_ok f" "\<exists>e \<in> set (slots f). \<not> fe_active e"
    and "handle_command special start
      (c_str ''FAULT'' @ 32 # c_str ''GPS_LOSS'' @ 32 # print_u dur @ 0 # mem) (srv, f) = (srv', f')"
    and "\<forall>r \<in> set rounds. spares_slots (round_change r)" "i < length rounds"
    and "sim_rounds L rounds (f', rnd) = (samples, rest)"
  shows "evaluate_faults (samples ! i) now AND FAULT_FLAG_GPS_LOSS \<noteq> 0 \<longleftrightarrow>
    dur = 0 \<or> (\<forall>r \<in> set (take (Suc i) rounds). round_wall r - start < dur) \<or>
    lasts (map round_wall (take (Suc i) rounds)) (slots f) FAULT_TYPE_GPS_LOSS"
proof -
  have len: "length (slots f) = FAULT_SLOTS" using assms(1) by (simp add: faults_ok_def)
  obtain n f1 where inj: "fault_inject f FAULT_TYPE_GPS_LOSS 0 dur start = (n, f1)" by fastforce
  have n: "n \<ge> 0" using fault_inject_free [OF len assms(2), of FAULT_TYPE_GPS_LOSS 0 dur start] inj by simp
  have k: "fault_of_name (c_str ''GPS_LOSS'') = Some FAULT_TYPE_GPS_LOSS" by code_simp
  have "f' = f1"
    using assms(3) by (simp add: handle_fault_command [OF k] fault_arguments_duration inj Let_def)
  moreover have "faults_ok f1" using fault_inject_ok [OF assms(1), of FAULT_TYPE_GPS_LOSS 0 dur start] inj by simp
  ultimately show ?thesis
    using rounds_gps_lost [of f1 rounds i L rnd] assms(4-6) lasts_after_inject [OF len inj n]
    by (simp add: evaluate_faults_bits)
qed

text \<open>A round without a change, and one with a change of the true motion.\<close>

definition still_round :: "u32 \<Rightarrow> sim_round" where
  "still_round t = \<lparr>round_wall = t, round_baro = baro_init, round_change = (\<lambda>f. f)\<rparr>"

definition motion_round :: "u32 \<Rightarrow> f32 \<Rightarrow> sim_round" where
  "motion_round t az = \<lparr>round_wall = t, round_baro = baro_init,
     round_change = (\<lambda>f. f\<lparr>fi_imu := map_option (\<lambda>m. imu_set_motion m 0 0 az 0 0 0) (fi_imu f)\<rparr>)\<rparr>"

lemma still_round_motion: "sets_motion (round_change (still_round t))" "round_wall (still_round t) = t"
proof -
  have "m = imu_set_motion m (true_accel_x m) (true_accel_y m) (true_accel_z m)
      (true_gyro_x m) (true_gyro_y m) (true_gyro_z m)" for m
    by (simp add: imu_set_motion_def)
  then show "sets_motion (round_change (still_round t))"
    unfolding still_round_def sets_motion_def spares_slots_def by simp metis
qed (simp add: still_round_def)

lemma motion_round_motion: "sets_motion (round_change (motion_round t az))" "round_wall (motion_round t az) = t"
  unfolding motion_round_def sets_motion_def spares_slots_def faults_ok_def by (simp, blast) simp

definition example_sim_faults :: fault_injector where
  "example_sim_faults = fault_init (Some imu_init) (Some (gps_init 0 0)) (Some fresh_battery)"

lemma example_sim_faults_slots:
  "faults_ok example_sim_faults" "\<exists>e \<in> set (slots example_sim_faults). \<not> fe_active e"
  "\<not> lasts ts (slots example_sim_faults) k" "length (slots example_sim_faults) = FAULT_SLOTS"
  by (simp_all add: example_sim_faults_def fault_init_ok)
    (simp_all add: lasts_def fault_init_def FAULT_SLOTS_def fault_entry_zero_def)

theorem gps_command_reaches_firmware_witness:
  "\<exists>f' samples rest. snd (handle_command (\<lambda>s. None) 1000
      (c_str ''FAULT'' @ 32 # c_str ''GPS_LOSS'' @ 32 # print_u 5000 @ 0 # [])
      (tcp_server_zero, example_sim_faults)) = f' \<and>
    sim_rounds example_libc [still_round 1010, motion_round 3000 0, still_round 5999, still_round 6000]
      (f', 7) = (samples, rest) \<and>
    evaluate_faults (samples ! 1) 0 AND FAULT_FLAG_GPS_LOSS \<noteq> 0 \<and>
    evaluate_faults (samples ! 2) 0 AND FAULT_FLAG_GPS_LOSS \<noteq> 0 \<and>
    evaluate_faults (samples ! 3) 0 AND FAULT_FLAG_GPS_LOSS = 0"
proof -
  let ?rs = "[still_round 1010, motion_round 3000 0, still_round 5999, still_round 6000]"
  obtain srv' f' where h: "handle_command (\<lambda>s. None) 1000
      (c_str ''FAULT'' @ 32 # c_str ''GPS_LOSS'' @ 32 # print_u 5000 @ 0 # [])
      (tcp_server_zero, example_sim_faults) = (srv', f')"
    by fastforce
  obtain samples rest where r: "sim_rounds example_libc ?rs (f', 7) = (samples, rest)" by (rule prod.exhaust)
  have c: "\<forall>r \<in> set ?rs. spares_slots (round_change r)"
    using still_round_motion(1) motion_round_motion(1) by (simp add: sets_motion_def)
  note g = gps_command_reaches_firmware [OF example_sim_faults_slots(1,2) h c _ r, where now = 0]
  have "evaluate_faults (samples ! 1) 0 AND FAULT_FLAG_GPS_LOSS \<noteq> 0"
    "evaluate_faults (samples ! 2) 0 AND FAULT_FLAG_GPS_LOSS \<noteq> 0"
    "evaluate_faults (samples ! 3) 0 AND FAULT_FLAG_GPS_LOSS = 0"
    using g [of 1] g [of 2] g [of 3]
    by (simp_all add: example_sim_faults_slots(3) still_round_motion(2) motion_round_motion(2))
  with h r show ?thesis by auto
qed

text \<open>C35: The freeze fault shows only if it freezes zeros.  A SENSOR_FREEZE fault is live, and the loop
  makes any number of rounds through which it lasts and in which the scenario sets the true motion
  to whatever it likes.  Then every sample repeats the same six values: those the IMU had latched
  before, if it was frozen already, and else its true motion at the first tick.  The firmware
  raises its freeze fault for such a sample if and only if all these six values are 0; so it does
  not when the freeze began with gravity on the vertical axis, whatever the motion does later.\<close>

theorem freeze_fault_undetected:
  assumes "faults_ok f" "rounds = first # later" "\<forall>r \<in> set rounds. sets_motion (round_change r)"
    and "lasts (map round_wall rounds) (slots f) FAULT_TYPE_SENSOR_FREEZE"
    and "fi_imu (round_change first f) = Some imu"
    and "sim_rounds L rounds (f, rnd) = (samples, rest)" "i < length rounds"
  shows "sample_motion (samples ! i) = held_motion imu \<and>
    (evaluate_faults (samples ! i) now AND FAULT_FLAG_SENSOR_FREEZE \<noteq> 0 \<longleftrightarrow>
      (\<forall>v \<in> set (held_motion imu). f32_eq v 0))"
proof -
  have "sample_motion (samples ! i) = held_motion imu"
    using rounds_hold [OF assms(1,3,4) _ assms(7), of imu "held_motion imu" L rnd] assms(2,5,6) by simp
  moreover from this have "imu_frozen (samples ! i) \<longleftrightarrow> (\<forall>v \<in> set (held_motion imu). f32_eq v 0)"
    by (simp add: imu_frozen_def flip: \<open>sample_motion (samples ! i) = held_motion imu\<close>)
  ultimately show ?thesis by (simp add: evaluate_faults_bits)
qed

theorem freeze_fault_undetected_witness:
  "\<exists>f' samples rest. fault_inject example_sim_faults FAULT_TYPE_SENSOR_FREEZE 0 0 1000 = (0, f') \<and>
    sim_rounds example_libc [still_round 1010, motion_round 1020 0] (f', 7) = (samples, rest) \<and>
    accel_z (samples ! 1) = f32_lit 981 100 \<and>
    evaluate_faults (samples ! 1) 0 AND FAULT_FLAG_SENSOR_FREEZE = 0"
proof -
  let ?rs = "[still_round 1010, motion_round 1020 0]"
  obtain i f' where inj: "fault_inject example_sim_faults FAULT_TYPE_SENSOR_FREEZE 0 0 1000 = (i, f')" by fastforce
  have "[0..<FAULT_SLOTS] = 0 # [1..<FAULT_SLOTS]" by (simp add: FAULT_SLOTS_def upt_conv_Cons)
  moreover have "\<not> fe_active (slots example_sim_faults ! 0)"
    by (simp add: example_sim_faults_def fault_init_def FAULT_SLOTS_def fault_entry_zero_def)
  ultimately have i: "i = 0" "fi_imu f' = Some imu_init"
    using inj by (auto simp: fault_inject_def example_sim_faults_def fault_init_def)
  have ok: "faults_ok f'" using fault_inject_ok [OF example_sim_faults_slots(1)] inj by (metis snd_conv)
  have l: "lasts (map round_wall ?rs) (slots f') FAULT_TYPE_SENSOR_FREEZE"
    using lasts_after_inject [OF example_sim_faults_slots(4) inj] i(1) by simp
  have c: "\<forall>r \<in> set ?rs. sets_motion (round_change r)"
    using still_round_motion(1) motion_round_motion(1) by simp
  obtain samples rest where r: "sim_rounds example_libc ?rs (f', 7) = (samples, rest)" by (rule prod.exhaust)
  have first: "fi_imu (round_change (still_round 1010) f') = Some imu_init" using i(2) by (simp add: still_round_def)
  have h: "held_motion imu_init ! 2 = f32_lit 981 100" "held_motion imu_init ! 2 \<in> set (held_motion imu_init)"
    by (simp_all add: held_motion_def imu_init_def imu_model_zero_def numeral_eq_Suc)
  have "\<not> f32_eq (f32_lit 981 100) 0" by code_simp
  with h have "\<not> (\<forall>v \<in> set (held_motion imu_init). f32_eq v 0)" by metis
  with freeze_fault_undetected [OF ok refl c l first r, of 1 0]
  have s: "sample_motion (samples ! 1) = held_motion imu_init"
    "evaluate_faults (samples ! 1) 0 AND FAULT_FLAG_SENSOR_FREEZE = 0" by simp_all
  then have "accel_z (samples ! 1) = f32_lit 981 100" using h(1) by (metis nth_Cons_0 nth_Cons_Suc numeral_2_eq_2)
  with s(2) inj i(1) r show ?thesis by auto
qed



end
