(* ===== verification/Preemption.thy ===== *)
theory Preemption
  imports FirmwareSystem
begin

text \<open>
  The four tasks of the firmware, \<open>task_sensor.c\<close>, \<open>task_fsm.c\<close>, \<open>task_telemetry.c\<close> and
  \<open>task_health.c\<close>, with preemption: each pass is cut at every access to an object it shares with
  another task or with the receive interrupt, and the pieces of all tasks interleave.  A program
  counter says where a task is and holds its local variables; \<open>.._Idle\<close> is the wait for the next
  period.  The actions of \<open>blackbox.c\<close> and the accessors of \<open>task_fsm.c\<close> run under their mutex and
  are one piece; the state-machine task holds \<open>g_state_mutex\<close> over several, during which no
  accessor runs.  \<open>HAL_UART_Transmit\<close> is two pieces: it takes the UART, or returns \<open>HAL_BUSY\<close> and
  sends nothing when another task is transmitting; then the bytes are out.  Its timeouts are not
  modelled.  Any task may run at any time: a system with priorities has fewer schedules.

  \<open>task_view\<close> is what lets the steps of one task be followed on its own part of the machine.
\<close>

section \<open>The UART\<close>

text \<open>The state of the UART is the buffer in transmission, if any.  Whether \<open>HAL_UART_Transmit\<close>
  starts is the HAL's answer, a parameter \<open>A\<close>; \<open>uart_law\<close> is what it is documented to answer:
  \<open>HAL_OK\<close> when the UART is ready and \<open>HAL_BUSY\<close> while a transmission is in progress.  The result of
  \<open>uart_begin\<close> says whether the caller transmits.\<close>

type_synonym uart = "byte list option"

definition uart_law :: "(uart \<Rightarrow> bool) \<Rightarrow> bool" where
  "uart_law A \<longleftrightarrow> A None \<and> (\<forall>b. \<not> A (Some b))"

definition uart_begin :: "(uart \<Rightarrow> bool) \<Rightarrow> buf \<Rightarrow> nat \<Rightarrow> uart \<Rightarrow> uart \<times> bool" where
  "uart_begin A buf len u =
     (if len = 0 \<or> \<not> A u then (u, False)
      else (Some (take (unat (of_nat len :: u16)) buf), True))"

definition uart_end :: "uart \<Rightarrow> byte list list \<Rightarrow> uart \<times> byte list list" where
  "uart_end u tx = (None, tx @ [the u])"

section \<open>The sensor task\<close>

text \<open>The payload is read from the receiver's frame byte by byte, while the interrupt may change it.\<close>

datatype sensor_pc =
    Sensor_Idle
  | Sensor_Switch                      \<comment> \<open>the flag was set; \<open>switch (frame->type)\<close>\<close>
  | Sensor_Length                      \<comment> \<open>\<open>frame->len\<close> and its check\<close>
  | Sensor_Payload u16 "byte list"     \<comment> \<open>the length, the payload bytes read so far\<close>
  | Sensor_Store sensor_data
  | Sensor_Count sensor_data
  | Sensor_Drop sensor_data
  | Sensor_Put sensor_data
  | Sensor_Ack
  | Sensor_Sending
  | Sensor_Check
  | Sensor_Log u32

definition sensor_micro ::
    "('q, 'e) rtos \<Rightarrow> (uart \<Rightarrow> bool) \<Rightarrow> u32 \<Rightarrow> sensor_pc \<times> sensor_task \<times> ('q, 'e) globals \<times> uart
     \<Rightarrow> sensor_pc \<times> sensor_task \<times> ('q, 'e) globals \<times> uart" where
  "sensor_micro r A now st =
     (let (pc, t, g, u) = st; frame = rx_frame (s_rx_ctx t) in
      case pc of
        Sensor_Idle \<Rightarrow>
          if s_byte_ready t then (Sensor_Switch, t\<lparr>s_byte_ready := False\<rparr>, g, u)
          else (Sensor_Check, t, g, u)
      | Sensor_Switch \<Rightarrow>
          (if fr_type frame = PKT_TYPE_SENSOR_FRAME then Sensor_Length
           else if fr_type frame = PKT_TYPE_HEARTBEAT_REQ then Sensor_Ack else Sensor_Check, t, g, u)
      | Sensor_Length \<Rightarrow>
          if unat (fr_len frame) < SENSOR_PACKED_SIZE
          then (Sensor_Check, t\<lparr>s_crc_error_count := s_crc_error_count t + 1\<rparr>, g, u)
          else (Sensor_Payload (fr_len frame) [], t, g, u)
      | Sensor_Payload len bs \<Rightarrow>
          if length bs < 72 then (Sensor_Payload len (bs @ [fr_payload frame ! length bs]), t, g, u)
          else (case proto_unpack_sensor bs (unat len) of
               None \<Rightarrow> (Sensor_Check, t\<lparr>s_crc_error_count := s_crc_error_count t + 1\<rparr>, g, u)
             | Some parsed \<Rightarrow> (Sensor_Store parsed, t, g, u))
      | Sensor_Store parsed \<Rightarrow>
          (Sensor_Count parsed,
           t\<lparr>s_latest := parsed, s_last_packet_ms := now, s_packet_count := s_packet_count t + 1\<rparr>, g, u)
      | Sensor_Count parsed \<Rightarrow>
          (if osMessageQueueGetCount r (g_sensor_queue g) > 0 then Sensor_Drop parsed
           else Sensor_Put parsed, t, g, u)
      | Sensor_Drop parsed \<Rightarrow>
          (Sensor_Put parsed, t,
           g\<lparr>g_sensor_queue := snd (osMessageQueueGet r (g_sensor_queue g))\<rparr>, u)
      | Sensor_Put parsed \<Rightarrow>
          (Sensor_Check, t, g\<lparr>g_sensor_queue := osMessageQueuePut r (g_sensor_queue g) parsed\<rparr>, u)
      | Sensor_Ack \<Rightarrow>
          let (u, mine) = uart_begin A heartbeat_ack (length heartbeat_ack) u
          in (if mine then Sensor_Sending else Sensor_Check, t, g, u)
      | Sensor_Sending \<Rightarrow>
          let (u, tx) = uart_end u (huart2_tx g) in (Sensor_Check, t, g\<lparr>huart2_tx := tx\<rparr>, u)
      | Sensor_Check \<Rightarrow> (if comms_overdue t now then Sensor_Log now else Sensor_Idle, t, g, u)
      | Sensor_Log warned \<Rightarrow>
          (Sensor_Idle, t\<lparr>comms_warn_logged := warned\<rparr>,
           g\<lparr>g_blackbox := blackbox_log
             \<lparr>arg_tick = now, arg_type = BB_EVT_COMMS_TIMEOUT, arg_state = FLIGHT_STATE_INIT,
              arg_fault_flags = ucast FAULT_FLAG_COMMS_TIMEOUT, arg_sensor_status = 0,
              arg_voltage = 0, arg_altitude = 0, arg_accel_mag = 0,
              arg_msg = Some (c_str ''UART RX timeout'')\<rparr> (g_blackbox g)\<rparr>, u))"

section \<open>The state-machine task\<close>

text \<open>The mutex is held from \<open>Fsm_Get\<close> to \<open>Fsm_Tick\<close>.  The locals are the tick count, the new and the
  previous faults.\<close>

datatype fsm_pc =
    Fsm_Idle
  | Fsm_Acquire "sensor_data option"
  | Fsm_Get u32 u32
  | Fsm_Raise u32 u32 u32
  | Fsm_Clear u32 u32 u32
  | Fsm_Tick u32 u32 u32
  | Fsm_Log u32 u32

definition fsm_micro ::
    "('q, 'e) rtos \<Rightarrow> u32 \<Rightarrow> fsm_pc \<times> fsm_task \<times> ('q, 'e) globals \<Rightarrow> fsm_pc \<times> fsm_task \<times> ('q, 'e) globals" where
  "fsm_micro r now st =
     (let (pc, t, g) = st in
      case pc of
        Fsm_Idle \<Rightarrow>
          let (fresh, q) = osMessageQueueGet r (g_sensor_queue g)
          in (Fsm_Acquire fresh, t, g\<lparr>g_sensor_queue := q\<rparr>)
      | Fsm_Acquire fresh \<Rightarrow>
          let t = (case fresh of None \<Rightarrow> t | Some s \<Rightarrow> t\<lparr>s_last_sensors := s\<rparr>)
          in (Fsm_Get now (evaluate_faults (s_last_sensors t) now), t, g)
      | Fsm_Get now_ms new \<Rightarrow> (Fsm_Raise now_ms new (osEventFlagsGet r (g_fault_flags g)), t, g)
      | Fsm_Raise now_ms new prev \<Rightarrow>
          (Fsm_Clear now_ms new prev, t,
           g\<lparr>g_fault_flags := (if new AND NOT prev \<noteq> 0
              then osEventFlagsSet r (g_fault_flags g) (new AND NOT prev) else g_fault_flags g)\<rparr>)
      | Fsm_Clear now_ms new prev \<Rightarrow>
          (Fsm_Tick now_ms new prev, t,
           g\<lparr>g_fault_flags := (if prev AND NOT new \<noteq> 0
              then osEventFlagsClear r (g_fault_flags g) (prev AND NOT new) else g_fault_flags g)\<rparr>)
      | Fsm_Tick now_ms new prev \<Rightarrow>
          let (fsm, bb, transitioned) =
            fsm_tick (s_fsm t) (s_last_sensors t) new now_ms now (g_blackbox g)
          in (Fsm_Log new prev, t\<lparr>s_fsm := fsm\<rparr>, g\<lparr>g_blackbox := bb\<rparr>)
      | Fsm_Log new prev \<Rightarrow>
          (Fsm_Idle, t,
           g\<lparr>g_blackbox := (if new \<noteq> prev
            then blackbox_log
             \<lparr>arg_tick = now,
              arg_type = (if new > prev then BB_EVT_FAULT_SET else BB_EVT_FAULT_CLEAR),
              arg_state = current_state (s_fsm t), arg_fault_flags = ucast new,
              arg_sensor_status = sensor_status (s_last_sensors t),
              arg_voltage = battery_voltage_v (s_last_sensors t),
              arg_altitude = altitude_m (s_last_sensors t),
              arg_accel_mag = accel_z (s_last_sensors t),
              arg_msg = Some (c_str (if new > prev then ''fault raised'' else ''fault cleared''))\<rparr>
             (g_blackbox g) else g_blackbox g)\<rparr>))"

definition holds_mutex :: "fsm_pc \<Rightarrow> bool" where
  "holds_mutex pc \<longleftrightarrow> (case pc of Fsm_Idle \<Rightarrow> False | Fsm_Acquire fresh \<Rightarrow> False | Fsm_Log new prev \<Rightarrow> False
     | _ \<Rightarrow> True)"

section \<open>The telemetry task\<close>

text \<open>\<open>n\<close> turns of the draining loop are left.\<close>

datatype telemetry_pc =
    Telem_Idle
  | Telem_State
  | Telem_Faults flight_state
  | Telem_Build flight_state byte
  | Telem_Sending nat
  | Telem_Read nat
  | Telem_Record nat bb_record

definition telemetry_micro ::
    "('q, 'e) rtos \<Rightarrow> (uart \<Rightarrow> bool) \<Rightarrow> byte list \<Rightarrow> fsm_task
     \<Rightarrow> telemetry_pc \<times> telemetry_task \<times> ('q, 'e) globals \<times> uart
     \<Rightarrow> telemetry_pc \<times> telemetry_task \<times> ('q, 'e) globals \<times> uart" where
  "telemetry_micro r A stack f st =
     (let (pc, t, g, u) = st in
      case pc of
        Telem_Idle \<Rightarrow> (Telem_State, t\<lparr>snap := fsm_task_get_sensors f\<rparr>, g, u)
      | Telem_State \<Rightarrow> (Telem_Faults (fsm_task_get_state f), t, g, u)
      | Telem_Faults state \<Rightarrow> (Telem_Build state (fsm_task_get_fault_flags r (g_fault_flags g)), t, g, u)
      | Telem_Build state faults \<Rightarrow>
          let (n, buf) = proto_build_telemetry (snap t) state faults (tx_buf t) PROTO_MAX_FRAME;
              (u, mine) = uart_begin A buf n u
          in (if mine then Telem_Sending TELEM_BLACKBOX_BURST else Telem_Read TELEM_BLACKBOX_BURST,
              t\<lparr>tx_buf := buf\<rparr>, g, u)
      | Telem_Sending n \<Rightarrow>
          let (u, tx) = uart_end u (huart2_tx g) in (Telem_Read n, t, g\<lparr>huart2_tx := tx\<rparr>, u)
      | Telem_Read n \<Rightarrow>
          (case n of 0 \<Rightarrow> (Telem_Idle, t, g, u)
           | Suc k \<Rightarrow>
             let (rec, bb) = blackbox_read (g_blackbox g)
             in (case rec of None \<Rightarrow> Telem_Idle | Some rec \<Rightarrow> Telem_Record k rec,
                 t, g\<lparr>g_blackbox := bb\<rparr>, u))
      | Telem_Record n rec \<Rightarrow>
          let (bb_buf, total) = blackbox_frame stack rec; (u, mine) = uart_begin A bb_buf total u
          in (if mine then Telem_Sending n else Telem_Read n, t, g, u))"

section \<open>The health task\<close>

text \<open>The snapshot in the program counter holds the local variables \<open>now\<close>, the four marks and the free
  heap.\<close>

datatype health_pc =
    Health_Idle
  | Health_Last_Rx health_snapshot
  | Health_Comms health_snapshot u32
  | Health_Snapshot health_snapshot
  | Health_Sending u32
  | Health_Due u32
  | Health_State
  | Health_Log flight_state

definition health_micro ::
    "('q, 'e) rtos \<Rightarrow> (uart \<Rightarrow> bool) \<Rightarrow> ('h \<Rightarrow> u32) \<Rightarrow> u32 \<Rightarrow> u32 \<Rightarrow> sensor_task \<Rightarrow> fsm_task
     \<Rightarrow> health_pc \<times> 'h health_task \<times> ('q, 'e) globals \<times> uart
     \<Rightarrow> health_pc \<times> 'h health_task \<times> ('q, 'e) globals \<times> uart" where
  "health_micro r A hwm free_heap tick sensor f st =
     (let (pc, t, g, u) = st in
      case pc of
        Health_Idle \<Rightarrow>
          let l = (s_snapshot t)
                \<lparr>hs_timestamp_ms := tick,
                 hs_hwm_sensor := stack_mark hwm (reg_sensor_task (s_registry t)),
                 hs_hwm_fsm := stack_mark hwm (reg_fsm_task (s_registry t)),
                 hs_hwm_telemetry := stack_mark hwm (reg_telemetry_task (s_registry t)),
                 hs_hwm_health := stack_mark hwm (reg_health_task (s_registry t)),
                 hs_free_heap_bytes := free_heap\<rparr>;
              stack_critical = (hs_hwm_sensor l < HEALTH_STACK_MIN_HWM \<or> hs_hwm_fsm l < HEALTH_STACK_MIN_HWM \<or>
                hs_hwm_telemetry l < HEALTH_STACK_MIN_HWM \<or> hs_hwm_health l < HEALTH_STACK_MIN_HWM);
              e = (if stack_critical then osEventFlagsSet r (g_fault_flags g) FAULT_FLAG_STACK_OVERFLOW
                   else osEventFlagsClear r (g_fault_flags g) FAULT_FLAG_STACK_OVERFLOW)
          in (Health_Last_Rx l, t, g\<lparr>g_fault_flags := e\<rparr>, u)
      | Health_Last_Rx l \<Rightarrow> (Health_Comms l (sensor_task_get_last_rx_ms sensor), t, g, u)
      | Health_Comms l last_rx \<Rightarrow>
          let e = (if last_rx > 0 \<and> hs_timestamp_ms l - last_rx > COMMS_TIMEOUT_MS
                   then osEventFlagsSet r (g_fault_flags g) FAULT_FLAG_COMMS_TIMEOUT
                   else osEventFlagsClear r (g_fault_flags g) FAULT_FLAG_COMMS_TIMEOUT)
          in (Health_Snapshot l, t, g\<lparr>g_fault_flags := e\<rparr>, u)
      | Health_Snapshot l \<Rightarrow>
          let now = hs_timestamp_ms l;
              t = t\<lparr>s_snapshot := l\<lparr>hs_fault_flags := fsm_task_get_fault_flags r (g_fault_flags g)\<rparr>\<rparr>
          in if now - last_report_ms t \<ge> HEALTH_REPORT_PERIOD_MS
             then let t = t\<lparr>last_report_ms := now\<rparr>;
                      rpt = \<lparr>hr_timestamp_ms = now, hr_cpu_load_pct = 0,
                             hr_hwm_sensor = hs_hwm_sensor l, hr_hwm_fsm = hs_hwm_fsm l,
                             hr_hwm_telemetry = hs_hwm_telemetry l, hr_hwm_health = hs_hwm_health l,
                             hr_free_heap_bytes = hs_free_heap_bytes l\<rparr>;
                      (n, buf) = proto_build_health rpt (health_tx_buf t) PROTO_MAX_FRAME;
                      (u, mine) = uart_begin A buf n u
                  in (if mine then Health_Sending now else Health_Due now, t\<lparr>health_tx_buf := buf\<rparr>, g, u)
             else (Health_Idle, t, g, u)
      | Health_Sending now \<Rightarrow>
          let (u, tx) = uart_end u (huart2_tx g) in (Health_Due now, t, g\<lparr>huart2_tx := tx\<rparr>, u)
      | Health_Due now \<Rightarrow>
          if now - last_bb_ms t \<ge> 5000 then (Health_State, t\<lparr>last_bb_ms := now\<rparr>, g, u)
          else (Health_Idle, t, g, u)
      | Health_State \<Rightarrow> (Health_Log (fsm_task_get_state f), t, g, u)
      | Health_Log state \<Rightarrow>
          (Health_Idle, t,
           g\<lparr>g_blackbox := blackbox_log
             \<lparr>arg_tick = tick, arg_type = BB_EVT_HEALTH_SNAPSHOT, arg_state = state,
              arg_fault_flags = hs_fault_flags (s_snapshot t), arg_sensor_status = 0,
              arg_voltage = 0, arg_altitude = 0, arg_accel_mag = 0,
              arg_msg = Some (c_str ''health ok'')\<rparr> (g_blackbox g)\<rparr>, u))"

section \<open>All tasks together\<close>

record ('q, 'e, 'h) machine =
  m_fw :: "('q, 'e, 'h) firmware"
  m_uart :: "uart"
  sensor_at :: sensor_pc
  fsm_at :: fsm_pc
  telemetry_at :: telemetry_pc
  health_at :: health_pc

definition idle_machine :: "('q, 'e, 'h) firmware \<Rightarrow> ('q, 'e, 'h) machine" where
  "idle_machine fw =
     \<lparr>m_fw = fw, m_uart = None, sensor_at = Sensor_Idle, fsm_at = Fsm_Idle, telemetry_at = Telem_Idle,
      health_at = Health_Idle\<rparr>"

inductive machine_step ::
    "('q, 'e) rtos \<Rightarrow> (uart \<Rightarrow> bool) \<Rightarrow> ('q, 'e, 'h) machine \<Rightarrow> ('q, 'e, 'h) machine \<Rightarrow> bool"
  for r :: "('q, 'e) rtos" and A :: "uart \<Rightarrow> bool" where
  interrupt: "machine_step r A m
    (m\<lparr>m_fw := (m_fw m)\<lparr>fw_sensor := uart_receive (fw_sensor (m_fw m)) b\<rparr>\<rparr>)"
| sensor: "sensor_micro r A now (sensor_at m, fw_sensor (m_fw m), fw_globals (m_fw m), m_uart m) = (pc, t, g, u) \<Longrightarrow>
    machine_step r A m
      (m\<lparr>m_fw := (m_fw m)\<lparr>fw_sensor := t, fw_globals := g\<rparr>, m_uart := u, sensor_at := pc\<rparr>)"
| fsm: "fsm_micro r now (fsm_at m, fw_fsm (m_fw m), fw_globals (m_fw m)) = (pc, t, g) \<Longrightarrow>
    machine_step r A m (m\<lparr>m_fw := (m_fw m)\<lparr>fw_fsm := t, fw_globals := g\<rparr>, fsm_at := pc\<rparr>)"
| telemetry: "telemetry_at m \<in> {Telem_Idle, Telem_State} \<longrightarrow> \<not> holds_mutex (fsm_at m) \<Longrightarrow>
    length stack = 54 \<Longrightarrow>
    telemetry_micro r A stack (fw_fsm (m_fw m))
      (telemetry_at m, fw_telemetry (m_fw m), fw_globals (m_fw m), m_uart m) = (pc, t, g, u) \<Longrightarrow>
    machine_step r A m
      (m\<lparr>m_fw := (m_fw m)\<lparr>fw_telemetry := t, fw_globals := g\<rparr>, m_uart := u, telemetry_at := pc\<rparr>)"
| health: "health_at m = Health_State \<longrightarrow> \<not> holds_mutex (fsm_at m) \<Longrightarrow>
    health_micro r A hwm heap tick (fw_sensor (m_fw m)) (fw_fsm (m_fw m))
      (health_at m, fw_health (m_fw m), fw_globals (m_fw m), m_uart m) = (pc, t, g, u) \<Longrightarrow>
    machine_step r A m
      (m\<lparr>m_fw := (m_fw m)\<lparr>fw_health := t, fw_globals := g\<rparr>, m_uart := u, health_at := pc\<rparr>)"

abbreviation machine_steps ::
    "('q, 'e) rtos \<Rightarrow> (uart \<Rightarrow> bool) \<Rightarrow> ('q, 'e, 'h) machine \<Rightarrow> ('q, 'e, 'h) machine \<Rightarrow> bool" where
  "machine_steps r A \<equiv> (machine_step r A)\<^sup>*\<^sup>*"

inductive machine_run ::
    "('q, 'e) rtos \<Rightarrow> (uart \<Rightarrow> bool) \<Rightarrow> ('q \<Rightarrow> sensor_data list) \<Rightarrow> ('q, 'e, 'h) machine \<Rightarrow> bool"
  for r :: "('q, 'e) rtos" and A :: "uart \<Rightarrow> bool" and queue :: "'q \<Rightarrow> sensor_data list" where
  boot: "queue q = [] \<Longrightarrow> machine_run r A queue (idle_machine (firmware_boot tick q e reg))"
| step: "machine_run r A queue m \<Longrightarrow> machine_step r A m m' \<Longrightarrow> machine_run r A queue m'"

lemma machine_run_steps: "machine_steps r A m m' \<Longrightarrow> machine_run r A queue m \<Longrightarrow> machine_run r A queue m'"
  by (induction rule: rtranclp_induct) (auto intro: machine_run.step)

section \<open>Steps of one task\<close>

definition micro_steps :: "('i \<Rightarrow> 'x \<Rightarrow> 'x) \<Rightarrow> 'i set \<Rightarrow> 'x \<Rightarrow> 'x \<Rightarrow> bool" where
  "micro_steps micro I = (\<lambda>x y. \<exists>i \<in> I. y = micro i x)\<^sup>*\<^sup>*"

lemma micro_refl [simp]: "micro_steps micro I x x"
  by (simp add: micro_steps_def)

lemma micro_first: "micro i x = x' \<Longrightarrow> i \<in> I \<Longrightarrow> micro_steps micro I x' y \<Longrightarrow> micro_steps micro I x y"
  unfolding micro_steps_def by (rule converse_rtranclp_into_rtranclp) auto

lemma micro_trans: "micro_steps micro I x y \<Longrightarrow> micro_steps micro I y z \<Longrightarrow> micro_steps micro I x z"
  unfolding micro_steps_def by (rule rtranclp_trans)

lemma micro_one: "micro i x = y \<Longrightarrow> micro_steps micro UNIV x y"
  by (erule micro_first) simp_all

lemma micro_two: "micro i x = y \<Longrightarrow> micro j y = z \<Longrightarrow> micro_steps micro UNIV x z"
  by (rule micro_trans [OF micro_one micro_one])

lemma micro_three:
  "micro i x = y \<Longrightarrow> micro j y = z \<Longrightarrow> micro k z = w \<Longrightarrow> micro_steps micro UNIV x w"
  by (rule micro_trans [OF micro_two micro_one])

text \<open>The same with one input for all steps.\<close>

lemma micro_in:
  assumes "i \<in> I"
  shows "micro i x = y \<Longrightarrow> micro_steps micro I x y"
    and "micro i x = y \<Longrightarrow> micro i y = z \<Longrightarrow> micro_steps micro I x z"
    and "micro i x = y \<Longrightarrow> micro i y = z \<Longrightarrow> micro i z = w \<Longrightarrow> micro_steps micro I x w"
  using assms by (meson micro_first micro_refl)+

text \<open>The part of the machine a task works on: \<open>view\<close> takes it out and \<open>store\<close> puts it back; a step of
  the task on its part, while it is not \<open>blocked\<close>, is a step of the machine.\<close>

locale task_view =
  fixes step :: "'m \<Rightarrow> 'm \<Rightarrow> bool"
    and view :: "'m \<Rightarrow> 'x"
    and store :: "'x \<Rightarrow> 'm \<Rightarrow> 'm"
    and micro :: "'i \<Rightarrow> 'x \<Rightarrow> 'x"
    and inputs :: "'i set"
    and blocked :: "'m \<Rightarrow> bool"
  assumes view_store: "view (store x m) = x"
    and store_view: "store (view m) m = m"
    and store_store: "store y (store x m) = store y m"
    and blocked_store: "blocked (store x m) = blocked m"
    and micro_step: "\<not> blocked m \<Longrightarrow> i \<in> inputs \<Longrightarrow> step m (store (micro i (view m)) m)"
begin

lemma lift_steps:
  assumes "micro_steps micro inputs (view m) x" "\<not> blocked m"
  shows "step\<^sup>*\<^sup>* m (store x m)"
  using assms(1) unfolding micro_steps_def
proof (induction rule: rtranclp_induct)
  case base
  then show ?case by (simp add: store_view)
next
  case (step x y)
  then obtain i where i: "i \<in> inputs" "y = micro i x" by blast
  have "step (store x m) (store y m)"
    using micro_step [of "store x m" i] i assms(2) by (simp add: view_store store_store blocked_store)
  with step.IH show ?case by (rule rtranclp.rtrancl_into_rtrancl)
qed

end

definition sensor_view :: "('q, 'e, 'h) machine \<Rightarrow> sensor_pc \<times> sensor_task \<times> ('q, 'e) globals \<times> uart" where
  "sensor_view m = (sensor_at m, fw_sensor (m_fw m), fw_globals (m_fw m), m_uart m)"

definition sensor_store ::
    "sensor_pc \<times> sensor_task \<times> ('q, 'e) globals \<times> uart
     \<Rightarrow> ('q, 'e, 'h) machine \<Rightarrow> ('q, 'e, 'h) machine" where
  "sensor_store x m = (let (pc, t, g, u) = x in
     m\<lparr>m_fw := (m_fw m)\<lparr>fw_sensor := t, fw_globals := g\<rparr>, m_uart := u, sensor_at := pc\<rparr>)"

interpretation sensor_steps: task_view "machine_step r A" sensor_view sensor_store "sensor_micro r A"
    UNIV "\<lambda>m. False" for r :: "('q, 'e) rtos" and A :: "uart \<Rightarrow> bool"
proof
  fix m :: "('q, 'e, 'h) machine" and now :: u32
  obtain pc t g u where x: "sensor_micro r A now (sensor_view m) = (pc, t, g, u)" by (metis surj_pair)
  then show "machine_step r A m (sensor_store (sensor_micro r A now (sensor_view m)) m)"
    using machine_step.sensor [of r A now m pc t g u] by (simp add: x sensor_store_def sensor_view_def)
qed (simp_all add: sensor_view_def sensor_store_def split_beta Let_def)

definition fsm_view :: "('q, 'e, 'h) machine \<Rightarrow> fsm_pc \<times> fsm_task \<times> ('q, 'e) globals" where
  "fsm_view m = (fsm_at m, fw_fsm (m_fw m), fw_globals (m_fw m))"

definition fsm_store ::
    "fsm_pc \<times> fsm_task \<times> ('q, 'e) globals \<Rightarrow> ('q, 'e, 'h) machine \<Rightarrow> ('q, 'e, 'h) machine" where
  "fsm_store x m = (let (pc, t, g) = x in
     m\<lparr>m_fw := (m_fw m)\<lparr>fw_fsm := t, fw_globals := g\<rparr>, fsm_at := pc\<rparr>)"

interpretation fsm_steps: task_view "machine_step r A" fsm_view fsm_store "fsm_micro r"
    UNIV "\<lambda>m. False" for r :: "('q, 'e) rtos" and A :: "uart \<Rightarrow> bool"
proof
  fix m :: "('q, 'e, 'h) machine" and now :: u32
  obtain pc t g where x: "fsm_micro r now (fsm_view m) = (pc, t, g)" by (metis surj_pair)
  then show "machine_step r A m (fsm_store (fsm_micro r now (fsm_view m)) m)"
    using machine_step.fsm [of r now m pc t g A] by (simp add: x fsm_store_def fsm_view_def)
qed (simp_all add: fsm_view_def fsm_store_def split_beta Let_def)

text \<open>The state-machine task's state, which the other two read, is part of their view.\<close>

definition telemetry_view ::
    "('q, 'e, 'h) machine \<Rightarrow> fsm_task \<times> telemetry_pc \<times> telemetry_task \<times> ('q, 'e) globals \<times> uart" where
  "telemetry_view m = (fw_fsm (m_fw m), telemetry_at m, fw_telemetry (m_fw m), fw_globals (m_fw m), m_uart m)"

definition telemetry_store ::
    "fsm_task \<times> telemetry_pc \<times> telemetry_task \<times> ('q, 'e) globals \<times> uart
     \<Rightarrow> ('q, 'e, 'h) machine \<Rightarrow> ('q, 'e, 'h) machine" where
  "telemetry_store x m = (let (f, pc, t, g, u) = x in
     m\<lparr>m_fw := (m_fw m)\<lparr>fw_fsm := f, fw_telemetry := t, fw_globals := g\<rparr>, m_uart := u, telemetry_at := pc\<rparr>)"

definition telemetry_turn ::
    "('q, 'e) rtos \<Rightarrow> (uart \<Rightarrow> bool) \<Rightarrow> byte list
     \<Rightarrow> fsm_task \<times> telemetry_pc \<times> telemetry_task \<times> ('q, 'e) globals \<times> uart
     \<Rightarrow> fsm_task \<times> telemetry_pc \<times> telemetry_task \<times> ('q, 'e) globals \<times> uart" where
  "telemetry_turn r A stack x = (fst x, telemetry_micro r A stack (fst x) (snd x))"

interpretation telemetry_steps: task_view "machine_step r A" telemetry_view telemetry_store
    "telemetry_turn r A" "{stack. length stack = 54}" "\<lambda>m. holds_mutex (fsm_at m)" for r :: "('q, 'e) rtos" and A :: "uart \<Rightarrow> bool"
proof
  fix m :: "('q, 'e, 'h) machine" and stack :: "byte list"
  assume free: "\<not> holds_mutex (fsm_at m)" "stack \<in> {stack. length stack = 54}"
  obtain pc t g u where x: "telemetry_micro r A stack (fw_fsm (m_fw m))
      (telemetry_at m, fw_telemetry (m_fw m), fw_globals (m_fw m), m_uart m) = (pc, t, g, u)"
    by (metis surj_pair)
  from machine_step.telemetry [OF _ _ x] free
  show "machine_step r A m (telemetry_store (telemetry_turn r A stack (telemetry_view m)) m)"
    by (simp add: telemetry_turn_def telemetry_view_def telemetry_store_def x)
qed (simp_all add: telemetry_view_def telemetry_store_def split_beta Let_def)

definition health_view ::
    "('q, 'e, 'h) machine
     \<Rightarrow> (sensor_task \<times> fsm_task) \<times> health_pc \<times> 'h health_task \<times> ('q, 'e) globals \<times> uart" where
  "health_view m = ((fw_sensor (m_fw m), fw_fsm (m_fw m)),
     health_at m, fw_health (m_fw m), fw_globals (m_fw m), m_uart m)"

definition health_store ::
    "(sensor_task \<times> fsm_task) \<times> health_pc \<times> 'h health_task \<times> ('q, 'e) globals \<times> uart
     \<Rightarrow> ('q, 'e, 'h) machine \<Rightarrow> ('q, 'e, 'h) machine" where
  "health_store x m = (let ((sensor, f), pc, t, g, u) = x in
     m\<lparr>m_fw := (m_fw m)\<lparr>fw_sensor := sensor, fw_fsm := f, fw_health := t, fw_globals := g\<rparr>,
       m_uart := u, health_at := pc\<rparr>)"

definition health_turn ::
    "('q, 'e) rtos \<Rightarrow> (uart \<Rightarrow> bool) \<Rightarrow> ('h \<Rightarrow> u32) \<times> u32 \<times> u32
     \<Rightarrow> (sensor_task \<times> fsm_task) \<times> health_pc \<times> 'h health_task \<times> ('q, 'e) globals \<times> uart
     \<Rightarrow> (sensor_task \<times> fsm_task) \<times> health_pc \<times> 'h health_task \<times> ('q, 'e) globals \<times> uart" where
  "health_turn r A i x = (let (hwm, heap, tick) = i
     in (fst x, health_micro r A hwm heap tick (fst (fst x)) (snd (fst x)) (snd x)))"

interpretation health_steps: task_view "machine_step r A" health_view health_store
    "health_turn r A" UNIV "\<lambda>m. holds_mutex (fsm_at m)" for r :: "('q, 'e) rtos" and A :: "uart \<Rightarrow> bool"
proof
  fix m :: "('q, 'e, 'h) machine" and i :: "('h \<Rightarrow> u32) \<times> u32 \<times> u32"
  assume free: "\<not> holds_mutex (fsm_at m)"
  obtain hwm heap tick where i: "i = (hwm, heap, tick)" by (metis surj_pair)
  obtain pc t g u where x: "health_micro r A hwm heap tick (fw_sensor (m_fw m)) (fw_fsm (m_fw m))
      (health_at m, fw_health (m_fw m), fw_globals (m_fw m), m_uart m) = (pc, t, g, u)"
    by (metis surj_pair)
  from machine_step.health [OF _ x] free
  show "machine_step r A m (health_store (health_turn r A i (health_view m)) m)"
    by (simp add: i health_turn_def health_view_def health_store_def x)
qed (simp_all add: health_view_def health_store_def split_beta Let_def)

end
