(* ===== verification/PreemptionSim.thy ===== *)
theory PreemptionSim
  imports Preemption
begin

text \<open>
  The passes of \<open>FirmwareSystem\<close> are schedules of \<open>Preemption\<close>: each task's pass is what its pieces do
  when nothing comes between them and the UART is free, so that every state that passes can reach
  is one that the preemptive tasks can reach.
\<close>

section \<open>A pass is a schedule\<close>

lemma uart_begin_free [simp]:
  "uart_law A \<Longrightarrow> 0 < len \<Longrightarrow> uart_begin A buf len None = (Some (take (unat (of_nat len :: u16)) buf), True)"
  "uart_begin A buf 0 u = (u, False)"
  "uart_law A \<Longrightarrow> uart_begin A buf len (Some b) = (Some b, False)"
  by (simp_all add: uart_begin_def uart_law_def)

lemma uart_end_sent [simp]: "uart_end (Some b) tx = (None, tx @ [b])"
  by (simp add: uart_end_def)

text \<open>Unpacking looks at the first 72 bytes only.\<close>

lemma unpack_first_bytes:
  assumes "72 \<le> length p"
  shows "proto_unpack_sensor (map ((!) p) [0..<72]) len = proto_unpack_sensor p len"
proof -
  have t: "map ((!) p) [0..<72] = take 72 p" using assms by (auto intro: nth_equalityI)
  have "drop k (take 72 p) ! i = drop k p ! i" if "k + i < 72" for k i using assms that by simp
  then have d: "drop k (take 72 p) ! i = p ! (k + i)" if "k + i < 72" for k i using assms that by simp
  have eight: "[0..<8] = [0, 1, 2, 3, 4, 5, 6, 7 :: nat]" by (simp add: upt_rec)
  show ?thesis using assms d [of 0]
    by (simp add: t proto_unpack_sensor_def get_f32_def get_f64_def eight get_u32_def get_u8_def Let_def)
qed

lemma sensor_reads_payload:
  assumes "length bs \<le> 72"
  shows "micro_steps (sensor_micro r A) UNIV (Sensor_Payload len bs, t, g, u)
    (Sensor_Payload len (bs @ map ((!) (fr_payload (rx_frame (s_rx_ctx t)))) [length bs..<72]), t, g, u)"
  using assms
proof (induction "72 - length bs" arbitrary: bs)
  case 0
  then show ?case by simp
next
  case (Suc n)
  let ?p = "fr_payload (rx_frame (s_rx_ctx t))"
  from Suc.hyps(2) have lt: "length bs < 72" by simp
  have "micro_steps (sensor_micro r A) UNIV (Sensor_Payload len (bs @ [?p ! length bs]), t, g, u)
      (Sensor_Payload len ((bs @ [?p ! length bs]) @ map ((!) ?p) [length (bs @ [?p ! length bs])..<72]), t, g, u)"
    using Suc.hyps(2) by (intro Suc.hyps(1)) simp_all
  moreover have "sensor_micro r A 0 (Sensor_Payload len bs, t, g, u) = (Sensor_Payload len (bs @ [?p ! length bs]), t, g, u)"
    using lt by (simp add: sensor_micro_def)
  ultimately show ?case
    using micro_first [of "sensor_micro r A" 0 _ _ UNIV] lt by (simp add: upt_conv_Cons)
qed

text \<open>A parsed sample is stored and queued.\<close>

lemma sensor_queues_sample:
  assumes "fr_type f = PKT_TYPE_SENSOR_FRAME"
    and "proto_unpack_sensor (fr_payload f) (unat (fr_len f)) = Some parsed"
    and "handle_frame r now f (t, g) = (t', g')"
  shows "micro_steps (sensor_micro r A) UNIV (Sensor_Store parsed, t, g, None) (Sensor_Check, t', g', None)"
proof -
  let ?t = "t\<lparr>s_latest := parsed, s_last_packet_ms := now, s_packet_count := s_packet_count t + 1\<rparr>"
  let ?n = "osMessageQueueGetCount r (g_sensor_queue g)"
  let ?g = "g\<lparr>g_sensor_queue := (if ?n > 0 then snd (osMessageQueueGet r (g_sensor_queue g))
      else g_sensor_queue g)\<rparr>"
  have e: "t' = ?t" "g' = g\<lparr>g_sensor_queue := osMessageQueuePut r (g_sensor_queue ?g) parsed\<rparr>"
    using assms(3) by (simp_all add: handle_sensor_ok [OF assms(1,2)])
  have store: "sensor_micro r A now (Sensor_Store parsed, t, g, None) = (Sensor_Count parsed, ?t, g, None)"
    and put: "sensor_micro r A now (Sensor_Put parsed, ?t, ?g, None) = (Sensor_Check, t', g', None)"
    by (simp_all add: sensor_micro_def e)
  show ?thesis
  proof (cases "?n > 0")
    case True
    then have "sensor_micro r A now (Sensor_Count parsed, ?t, g, None) = (Sensor_Drop parsed, ?t, g, None)"
      "sensor_micro r A now (Sensor_Drop parsed, ?t, g, None) = (Sensor_Put parsed, ?t, ?g, None)"
      by (simp_all add: sensor_micro_def)
    from micro_trans [OF micro_three [of "sensor_micro r A", OF store this] micro_one [of "sensor_micro r A", OF put]] show ?thesis .
  next
    case False
    then have "sensor_micro r A now (Sensor_Count parsed, ?t, g, None) = (Sensor_Put parsed, ?t, ?g, None)"
      by (simp add: sensor_micro_def)
    from micro_three [of "sensor_micro r A", OF store this put] show ?thesis .
  qed
qed

text \<open>A frame is handled, from the \<open>switch\<close> to the check that follows.\<close>

lemma sensor_handles_frame:
  assumes h: "handle_frame r now (rx_frame (s_rx_ctx t)) (t, g) = (t', g')"
    and "72 \<le> length (fr_payload (rx_frame (s_rx_ctx t)))"
    and law: "uart_law A"
  shows "micro_steps (sensor_micro r A) UNIV (Sensor_Switch, t, g, None) (Sensor_Check, t', g', None)"
proof -
  let ?f = "rx_frame (s_rx_ctx t)"
  let ?p = "fr_payload ?f" and ?len = "fr_len ?f"
  consider (sensor) parsed where "fr_type ?f = PKT_TYPE_SENSOR_FRAME"
      "proto_unpack_sensor ?p (unat ?len) = Some parsed"
    | (short) "fr_type ?f = PKT_TYPE_SENSOR_FRAME" "proto_unpack_sensor ?p (unat ?len) = None"
    | (ack) "fr_type ?f = PKT_TYPE_HEARTBEAT_REQ"
    | (other) "fr_type ?f \<noteq> PKT_TYPE_SENSOR_FRAME" "fr_type ?f \<noteq> PKT_TYPE_HEARTBEAT_REQ"
    by blast
  then show ?thesis
  proof cases
    case sensor
    let ?bs = "map ((!) ?p) [0..<72]"
    have long: "\<not> unat ?len < SENSOR_PACKED_SIZE"
      using sensor(2) by (auto simp: proto_unpack_sensor_def)
    then have "sensor_micro r A now (Sensor_Switch, t, g, None) = (Sensor_Length, t, g, None)"
      "sensor_micro r A now (Sensor_Length, t, g, None) = (Sensor_Payload ?len [], t, g, None)"
      using sensor(1) by (simp_all add: sensor_micro_def)
    note start = micro_two [of "sensor_micro r A", OF this]
    have read: "micro_steps (sensor_micro r A) UNIV (Sensor_Payload ?len [], t, g, None) (Sensor_Payload ?len ?bs, t, g, None)"
      using sensor_reads_payload [of "[]" r A ?len t g None] by simp
    have "sensor_micro r A now (Sensor_Payload ?len ?bs, t, g, None) = (Sensor_Store parsed, t, g, None)"
      by (simp add: sensor_micro_def unpack_first_bytes [OF assms(2)] sensor(2) del: upt.simps)
    note parse = micro_one [of "sensor_micro r A", OF this]
    show ?thesis
      by (rule micro_trans [OF micro_trans [OF start read]
            micro_trans [OF parse sensor_queues_sample [OF sensor h]]])
  next
    case short
    then have "unat ?len < SENSOR_PACKED_SIZE"
      by (auto simp: proto_unpack_sensor_def Let_def split: if_splits)
    then have "sensor_micro r A now (Sensor_Switch, t, g, None) = (Sensor_Length, t, g, None)"
      "sensor_micro r A now (Sensor_Length, t, g, None) = (Sensor_Check, t', g', None)"
      using short h by (auto simp: sensor_micro_def handle_frame_def)
    then show ?thesis by (rule micro_two)
  next
    case ack
    have l: "length heartbeat_ack = 7" by (simp add: heartbeat_ack_eq len_simps)
    have "sensor_micro r A now (Sensor_Switch, t, g, None) = (Sensor_Ack, t, g, None)"
      "sensor_micro r A now (Sensor_Ack, t, g, None) = (Sensor_Sending, t, g, Some heartbeat_ack)"
      "sensor_micro r A now (Sensor_Sending, t, g, Some heartbeat_ack) = (Sensor_Check, t', g', None)"
      using ack h law by (auto simp: sensor_micro_def handle_frame_def l PKT_TYPE_SENSOR_FRAME_def PKT_TYPE_HEARTBEAT_REQ_def)
    then show ?thesis by (rule micro_three)
  next
    case other
    then have "sensor_micro r A now (Sensor_Switch, t, g, None) = (Sensor_Check, t', g', None)"
      using h by (auto simp: sensor_micro_def handle_frame_def)
    then show ?thesis by (rule micro_one)
  qed
qed

lemma sensor_pass_micro:
  assumes "task_sensor_pass r now1 now tick (t, g) = (t', g')"
    and "72 \<le> length (fr_payload (rx_frame (s_rx_ctx t)))"
    and law: "uart_law A"
  shows "micro_steps (sensor_micro r A) UNIV (Sensor_Idle, t, g, None) (Sensor_Idle, t', g', None)"
proof -
  obtain t1 g1 where h: "(if s_byte_ready t then handle_frame r now1 (rx_frame (s_rx_ctx t)) (t\<lparr>s_byte_ready := False\<rparr>, g)
      else (t, g)) = (t1, g1)"
    by (metis surj_pair)
  have first: "micro_steps (sensor_micro r A) UNIV (Sensor_Idle, t, g, None) (Sensor_Check, t1, g1, None)"
  proof (cases "s_byte_ready t")
    case True
    then have handled: "micro_steps (sensor_micro r A) UNIV
        (Sensor_Switch, t\<lparr>s_byte_ready := False\<rparr>, g, None) (Sensor_Check, t1, g1, None)"
      using h assms(2) law by (intro sensor_handles_frame [of r now1]) simp_all
    have "sensor_micro r A now (Sensor_Idle, t, g, None) = (Sensor_Switch, t\<lparr>s_byte_ready := False\<rparr>, g, None)"
      using True by (simp add: sensor_micro_def)
    from micro_trans [OF micro_one [of "sensor_micro r A", OF this] handled] show ?thesis .
  next
    case False
    then have "sensor_micro r A now (Sensor_Idle, t, g, None) = (Sensor_Check, t1, g1, None)"
      using h by (simp add: sensor_micro_def)
    then show ?thesis by (rule micro_one)
  qed
  have "micro_steps (sensor_micro r A) UNIV (Sensor_Check, t1, g1, None) (Sensor_Idle, t', g', None)"
  proof (cases "comms_overdue t1 now")
    case True
    have "sensor_micro r A now (Sensor_Check, t1, g1, None) = (Sensor_Log now, t1, g1, None)"
      "sensor_micro r A tick (Sensor_Log now, t1, g1, None) = (Sensor_Idle, t', g', None)"
      using assms(1) True h by (auto simp: sensor_micro_def task_sensor_pass_def split: if_splits)
    then show ?thesis by (rule micro_two)
  next
    case False
    then have "sensor_micro r A now (Sensor_Check, t1, g1, None) = (Sensor_Idle, t', g', None)"
      using assms(1) h by (auto simp: sensor_micro_def task_sensor_pass_def split: if_splits)
    then show ?thesis by (rule micro_one)
  qed
  with first show ?thesis by (rule micro_trans)
qed

section \<open>The other three tasks\<close>

lemma fsm_pass_micro:
  assumes pass: "task_fsm_pass r now tick1 tick2 (t, g) = (t', g')"
  shows "micro_steps (fsm_micro r) UNIV (Fsm_Idle, t, g) (Fsm_Idle, t', g')"
proof -
  obtain fresh q where q: "osMessageQueueGet r (g_sensor_queue g) = (fresh, q)" by (metis surj_pair)
  define t1 where "t1 = (case fresh of None \<Rightarrow> t | Some s \<Rightarrow> t\<lparr>s_last_sensors := s\<rparr>)"
  define new where "new = evaluate_faults (s_last_sensors t1) now"
  define prev where "prev = osEventFlagsGet r (g_fault_flags g)"
  define e1 where "e1 = (if new AND NOT prev \<noteq> 0
    then osEventFlagsSet r (g_fault_flags g) (new AND NOT prev) else g_fault_flags g)"
  define e2 where "e2 = (if prev AND NOT new \<noteq> 0 then osEventFlagsClear r e1 (prev AND NOT new) else e1)"
  obtain fsm bb moved where tick:
    "fsm_tick (s_fsm t1) (s_last_sensors t1) new now tick1 (g_blackbox g) = (fsm, bb, moved)"
    by (metis surj_pair)
  let ?g1 = "g\<lparr>g_sensor_queue := q\<rparr>" and ?t2 = "t1\<lparr>s_fsm := fsm\<rparr>"
  let ?g3 = "?g1\<lparr>g_fault_flags := e2\<rparr>"
  let ?g4 = "?g3\<lparr>g_blackbox := bb\<rparr>"
  have "fsm_micro r now (Fsm_Idle, t, g) = (Fsm_Acquire fresh, t, ?g1)"
    "fsm_micro r now (Fsm_Acquire fresh, t, ?g1) = (Fsm_Get now new, t1, ?g1)"
    "fsm_micro r now (Fsm_Get now new, t1, ?g1) = (Fsm_Raise now new prev, t1, ?g1)"
    by (simp_all add: fsm_micro_def q t1_def new_def prev_def Let_def)
  note one = micro_three [of "fsm_micro r", OF this]
  have "fsm_micro r now (Fsm_Raise now new prev, t1, ?g1) = (Fsm_Clear now new prev, t1, ?g1\<lparr>g_fault_flags := e1\<rparr>)"
    "fsm_micro r now (Fsm_Clear now new prev, t1, ?g1\<lparr>g_fault_flags := e1\<rparr>) = (Fsm_Tick now new prev, t1, ?g3)"
    by (simp_all add: fsm_micro_def e1_def e2_def)
  note two = micro_two [of "fsm_micro r", OF this]
  have "(t', g') = (?t2, snd (snd (fsm_micro r tick2 (Fsm_Log new prev, ?t2, ?g4))))"
    unfolding pass [symmetric]
    by (simp add: task_fsm_pass_def fsm_micro_def q tick flip: t1_def prev_def new_def)
      (simp add: e1_def e2_def)
  then have log: "fsm_micro r tick2 (Fsm_Log new prev, ?t2, ?g4) = (Fsm_Idle, t', g')"
    by (simp add: fsm_micro_def)
  have "fsm_micro r tick1 (Fsm_Tick now new prev, t1, ?g3) = (Fsm_Log new prev, ?t2, ?g4)"
    by (simp add: fsm_micro_def tick)
  note three = micro_two [of "fsm_micro r", OF this log]
  show ?thesis by (rule micro_trans [OF one micro_trans [OF two three]])
qed

text \<open>The draining loop, from the turn with \<open>n\<close> turns left.\<close>

lemma telemetry_turn_eq [simp]: "telemetry_turn r A stack (f, x) = (f, telemetry_micro r A stack f x)"
  by (simp add: telemetry_turn_def)

lemma telemetry_drains_micro:
  assumes "length stack = 54"
    and "telemetry_burst stack n (g_blackbox g, huart2_tx g) = (bb, tx)"
    and law: "uart_law A"
  shows "micro_steps (telemetry_turn r A) {stack. length stack = 54} (f, Telem_Read n, t, g, None)
    (f, Telem_Idle, t, g\<lparr>g_blackbox := bb, huart2_tx := tx\<rparr>, None)"
  using assms(2)
proof (induction n arbitrary: g)
  note run = micro_in [of stack "{stack. length stack = 54}" "telemetry_turn r A", simplified, OF assms(1)]
  case 0
  then have "telemetry_turn r A stack (f, Telem_Read 0, t, g, None) =
      (f, Telem_Idle, t, g\<lparr>g_blackbox := bb, huart2_tx := tx\<rparr>, None)"
    by (auto simp: telemetry_micro_def)
  then show ?case by (rule run(1))
next
  note run = micro_in [of stack "{stack. length stack = 54}" "telemetry_turn r A", simplified, OF assms(1)]
  case (Suc n)
  obtain rec bb1 where read: "blackbox_read (g_blackbox g) = (rec, bb1)" by (metis surj_pair)
  show ?case
  proof (cases rec)
    case None
    then have "telemetry_turn r A stack (f, Telem_Read (Suc n), t, g, None) =
        (f, Telem_Idle, t, g\<lparr>g_blackbox := bb, huart2_tx := tx\<rparr>, None)"
      using Suc.prems by (auto simp: telemetry_micro_def read)
    then show ?thesis by (rule run(1))
  next
    case (Some rc)
    let ?g1 = "g\<lparr>g_blackbox := bb1\<rparr>"
    obtain bb_buf total where fr: "blackbox_frame stack rc = (bb_buf, total)" by (metis surj_pair)
    have pos: "0 < total" using fr by (auto simp: blackbox_frame_def proto_sizes Let_def)
    let ?g2 = "?g1\<lparr>huart2_tx := uart_send bb_buf total (huart2_tx g)\<rparr>"
    let ?u = "fst (uart_begin A bb_buf total None)"
    have "telemetry_turn r A stack (f, Telem_Read (Suc n), t, g, None) = (f, Telem_Record n rc, t, ?g1, None)"
      "telemetry_turn r A stack (f, Telem_Record n rc, t, ?g1, None) = (f, Telem_Sending n, t, ?g1, ?u)"
      "telemetry_turn r A stack (f, Telem_Sending n, t, ?g1, ?u) = (f, Telem_Read n, t, ?g2, None)"
      using Some pos law by (simp_all add: telemetry_micro_def read fr uart_send_def)
    note one = run(3) [OF this]
    have "telemetry_burst stack n (g_blackbox ?g2, huart2_tx ?g2) = (bb, tx)"
      using Suc.prems Some read fr by simp
    from micro_trans [OF one Suc.IH [OF this]] show ?thesis by simp
  qed
qed

lemma telemetry_pass_micro:
  assumes "length stack = 54" and "task_telemetry_pass r stack f (t, g) = (t', g')"
    and law: "uart_law A"
  shows "micro_steps (telemetry_turn r A) {stack. length stack = 54} (f, Telem_Idle, t, g, None)
    (f, Telem_Idle, t', g', None)"
proof -
  note run = micro_in [of stack "{stack. length stack = 54}" "telemetry_turn r A", simplified, OF assms(1)]
  let ?t1 = "t\<lparr>snap := fsm_task_get_sensors f\<rparr>" and ?st = "fsm_task_get_state f"
    and ?fl = "fsm_task_get_fault_flags r (g_fault_flags g)"
  obtain n buf where b: "proto_build_telemetry (snap ?t1) ?st ?fl (tx_buf ?t1) PROTO_MAX_FRAME = (n, buf)"
    by (metis surj_pair)
  let ?t2 = "?t1\<lparr>tx_buf := buf\<rparr>" and ?u = "fst (uart_begin A buf n None)"
  let ?g1 = "g\<lparr>huart2_tx := uart_send buf n (huart2_tx g)\<rparr>"
  obtain bb tx where burst: "telemetry_burst stack TELEM_BLACKBOX_BURST (g_blackbox ?g1, huart2_tx ?g1) = (bb, tx)"
    by (metis surj_pair)
  have res: "t' = ?t2" "g' = ?g1\<lparr>g_blackbox := bb, huart2_tx := tx\<rparr>"
    using assms(2) b burst by (auto simp: task_telemetry_pass_def Let_def)
  have "telemetry_turn r A stack (f, Telem_Idle, t, g, None) = (f, Telem_State, ?t1, g, None)"
    "telemetry_turn r A stack (f, Telem_State, ?t1, g, None) = (f, Telem_Faults ?st, ?t1, g, None)"
    "telemetry_turn r A stack (f, Telem_Faults ?st, ?t1, g, None) = (f, Telem_Build ?st ?fl, ?t1, g, None)"
    by (simp_all add: telemetry_micro_def)
  note start = run(3) [OF this]
  have send: "micro_steps (telemetry_turn r A) {stack. length stack = 54}
      (f, Telem_Build ?st ?fl, ?t1, g, None) (f, Telem_Read TELEM_BLACKBOX_BURST, ?t2, ?g1, None)"
  proof (cases "n = 0")
    case True
    then have "telemetry_turn r A stack (f, Telem_Build ?st ?fl, ?t1, g, None) =
        (f, Telem_Read TELEM_BLACKBOX_BURST, ?t2, ?g1, None)"
      using b by (simp add: telemetry_micro_def uart_send_def)
    then show ?thesis by (rule run(1))
  next
    case False
    then have "telemetry_turn r A stack (f, Telem_Build ?st ?fl, ?t1, g, None) =
        (f, Telem_Sending TELEM_BLACKBOX_BURST, ?t2, g, ?u)"
      "telemetry_turn r A stack (f, Telem_Sending TELEM_BLACKBOX_BURST, ?t2, g, ?u) =
        (f, Telem_Read TELEM_BLACKBOX_BURST, ?t2, ?g1, None)"
      using b law by (simp_all add: telemetry_micro_def uart_send_def)
    then show ?thesis by (rule run(2))
  qed
  show ?thesis
    using micro_trans [OF micro_trans [OF start send] telemetry_drains_micro [OF assms(1) burst law]]
    unfolding res .
qed

lemma health_turn_eq [simp]:
  "health_turn r A (hwm, heap, tick) ((sensor, f), x) = ((sensor, f), health_micro r A hwm heap tick sensor f x)"
  by (simp add: health_turn_def)

text \<open>The first half of a health pass, up to the snapshot.\<close>

lemma health_checks_micro:
  assumes "health_checks r hwm heap now sensor t (g_fault_flags g) = (t1, e)"
  obtains l where "micro_steps (health_turn r A) UNIV ((sensor, f), Health_Idle, t, g, u)
      ((sensor, f), Health_Snapshot l, t, g\<lparr>g_fault_flags := e\<rparr>, u)"
    and "hs_timestamp_ms l = now"
    and "t1 = t\<lparr>s_snapshot := l\<lparr>hs_fault_flags := fsm_task_get_fault_flags r e\<rparr>\<rparr>"
proof -
  let ?m = "\<lambda>h. stack_mark hwm (h (s_registry t))"
  define l where "l = (s_snapshot t)\<lparr>hs_timestamp_ms := now, hs_hwm_sensor := ?m reg_sensor_task,
      hs_hwm_fsm := ?m reg_fsm_task, hs_hwm_telemetry := ?m reg_telemetry_task,
      hs_hwm_health := ?m reg_health_task, hs_free_heap_bytes := heap\<rparr>"
  define low where "low \<longleftrightarrow> hs_hwm_sensor l < HEALTH_STACK_MIN_HWM \<or> hs_hwm_fsm l < HEALTH_STACK_MIN_HWM \<or>
      hs_hwm_telemetry l < HEALTH_STACK_MIN_HWM \<or> hs_hwm_health l < HEALTH_STACK_MIN_HWM"
  define e1 where "e1 = (if low then osEventFlagsSet r (g_fault_flags g) FAULT_FLAG_STACK_OVERFLOW
      else osEventFlagsClear r (g_fault_flags g) FAULT_FLAG_STACK_OVERFLOW)"
  let ?rx = "sensor_task_get_last_rx_ms sensor"
  have e: "e = (if ?rx > 0 \<and> now - ?rx > COMMS_TIMEOUT_MS then osEventFlagsSet r e1 FAULT_FLAG_COMMS_TIMEOUT
      else osEventFlagsClear r e1 FAULT_FLAG_COMMS_TIMEOUT)"
    and t1: "t1 = t\<lparr>s_snapshot := l\<lparr>hs_fault_flags := fsm_task_get_fault_flags r e\<rparr>\<rparr>"
    using assms by (auto simp: health_checks_def l_def low_def e1_def Let_def)
  have "health_turn r A (hwm, heap, now) ((sensor, f), Health_Idle, t, g, u) =
      ((sensor, f), Health_Last_Rx l, t, g\<lparr>g_fault_flags := e1\<rparr>, u)"
    by (simp add: health_micro_def Let_def e1_def low_def l_def)
  moreover have "health_turn r A (hwm, heap, now) ((sensor, f), Health_Last_Rx l, t, g\<lparr>g_fault_flags := e1\<rparr>, u) =
      ((sensor, f), Health_Comms l ?rx, t, g\<lparr>g_fault_flags := e1\<rparr>, u)"
    by (simp add: health_micro_def)
  moreover have "health_turn r A (hwm, heap, now) ((sensor, f), Health_Comms l ?rx, t, g\<lparr>g_fault_flags := e1\<rparr>, u) =
      ((sensor, f), Health_Snapshot l, t, g\<lparr>g_fault_flags := e\<rparr>, u)"
    by (auto simp: health_micro_def e l_def)
  ultimately have "micro_steps (health_turn r A) UNIV ((sensor, f), Health_Idle, t, g, u)
      ((sensor, f), Health_Snapshot l, t, g\<lparr>g_fault_flags := e\<rparr>, u)"
    by (rule micro_three)
  moreover have "hs_timestamp_ms l = now" by (simp add: l_def)
  ultimately show thesis using that t1 by blast
qed

text \<open>The second half: from the check whether a report is due.\<close>

lemma health_logs_micro:
  fixes t :: "'h health_task"
  assumes "t2 = (if now - last_bb_ms t \<ge> 5000 then t\<lparr>last_bb_ms := now\<rparr> else t)"
    and "g2 = (if now - last_bb_ms t \<ge> 5000 then g\<lparr>g_blackbox := blackbox_log
      \<lparr>arg_tick = tick, arg_type = BB_EVT_HEALTH_SNAPSHOT, arg_state = fsm_task_get_state f,
       arg_fault_flags = hs_fault_flags (s_snapshot t), arg_sensor_status = 0, arg_voltage = 0,
       arg_altitude = 0, arg_accel_mag = 0, arg_msg = Some (c_str ''health ok'')\<rparr> (g_blackbox g)\<rparr> else g)"
  shows "micro_steps (health_turn r A) UNIV ((sensor, f), Health_Due now, t, g, u) ((sensor, f), Health_Idle, t2, g2, u)"
proof (cases "now - last_bb_ms t \<ge> 5000")
  case True
  then have "health_turn r A (hwm, heap, tick) ((sensor, f), Health_Due now, t, g, u) =
      ((sensor, f), Health_State, t2, g, u)"
    "health_turn r A (hwm, heap, tick) ((sensor, f), Health_State, t2, g, u) =
      ((sensor, f), Health_Log (fsm_task_get_state f), t2, g, u)"
    "health_turn r A (hwm, heap, tick) ((sensor, f), Health_Log (fsm_task_get_state f), t2, g, u) =
      ((sensor, f), Health_Idle, t2, g2, u)" for hwm :: "'h \<Rightarrow> u32" and heap :: u32
    using assms by (simp_all add: health_micro_def)
  then show ?thesis by (rule micro_three)
next
  case False
  then have "health_turn r A (hwm, heap, tick) ((sensor, f), Health_Due now, t, g, u) =
      ((sensor, f), Health_Idle, t2, g2, u)" for hwm :: "'h \<Rightarrow> u32" and heap :: u32
    using assms by (simp add: health_micro_def)
  then show ?thesis by (rule micro_one)
qed

lemma health_pass_micro:
  assumes pass: "task_health_pass r hwm heap now tick sensor f (t, g) = (t', g')"
    and law: "uart_law A"
  shows "micro_steps (health_turn r A) UNIV ((sensor, f), Health_Idle, t, g, None) ((sensor, f), Health_Idle, t', g', None)"
proof -
  obtain t1 e where c: "health_checks r hwm heap now sensor t (g_fault_flags g) = (t1, e)" by (metis surj_pair)
  obtain l where l: "micro_steps (health_turn r A) UNIV ((sensor, f), Health_Idle, t, g, None)
      ((sensor, f), Health_Snapshot l, t, g\<lparr>g_fault_flags := e\<rparr>, None)" "hs_timestamp_ms l = now"
    and t1: "t1 = t\<lparr>s_snapshot := l\<lparr>hs_fault_flags := fsm_task_get_fault_flags r e\<rparr>\<rparr>"
    using health_checks_micro [OF c] by blast
  let ?g1 = "g\<lparr>g_fault_flags := e\<rparr>"
  show ?thesis
  proof (cases "now - last_report_ms t1 \<ge> HEALTH_REPORT_PERIOD_MS")
    case False
    then have "health_turn r A (hwm, heap, now) ((sensor, f), Health_Snapshot l, t, ?g1, None) =
        ((sensor, f), Health_Idle, t', g', None)"
      using pass c t1 by (auto simp: health_micro_def task_health_pass_def l(2))
    from micro_trans [OF l(1) micro_one [of "health_turn r A", OF this]] show ?thesis .
  next
    case True
    let ?rpt = "\<lparr>hr_timestamp_ms = now, hr_cpu_load_pct = 0, hr_hwm_sensor = hs_hwm_sensor l,
        hr_hwm_fsm = hs_hwm_fsm l, hr_hwm_telemetry = hs_hwm_telemetry l,
        hr_hwm_health = hs_hwm_health l, hr_free_heap_bytes = hs_free_heap_bytes l\<rparr>"
    obtain n buf where b: "proto_build_health ?rpt (health_tx_buf t) PROTO_MAX_FRAME = (n, buf)"
      by (metis surj_pair)
    let ?t2 = "t1\<lparr>last_report_ms := now, health_tx_buf := buf\<rparr>"
    let ?g2 = "?g1\<lparr>huart2_tx := (if n > 0 then huart2_tx g @ [take (unat (of_nat n :: u16)) buf] else huart2_tx g)\<rparr>"
    let ?u = "fst (uart_begin A buf n None)"
    have send: "micro_steps (health_turn r A) UNIV ((sensor, f), Health_Snapshot l, t, ?g1, None)
        ((sensor, f), Health_Due now, ?t2, ?g2, None)"
    proof (cases "n = 0")
      case z: True
      then have "health_turn r A (hwm, heap, now) ((sensor, f), Health_Snapshot l, t, ?g1, None) =
          ((sensor, f), Health_Due now, ?t2, ?g2, None)"
        using True b by (simp add: health_micro_def l(2) t1 Let_def)
      then show ?thesis by (rule micro_one)
    next
      case z: False
      then have "health_turn r A (hwm, heap, now) ((sensor, f), Health_Snapshot l, t, ?g1, None) =
          ((sensor, f), Health_Sending now, ?t2, ?g1, ?u)"
        "health_turn r A (hwm, heap, now) ((sensor, f), Health_Sending now, ?t2, ?g1, ?u) =
          ((sensor, f), Health_Due now, ?t2, ?g2, None)"
        using True b law by (simp_all add: health_micro_def l(2) t1 Let_def)
      then show ?thesis by (rule micro_two)
    qed
    have "micro_steps (health_turn r A) UNIV ((sensor, f), Health_Due now, ?t2, ?g2, None)
        ((sensor, f), Health_Idle, t', g', None)"
      by (rule health_logs_micro [where tick = tick])
        (use pass True b in \<open>auto simp: task_health_pass_def health_report_def c t1 Let_def split: if_splits\<close>)
    from micro_trans [OF l(1) micro_trans [OF send this]] show ?thesis .
  qed
qed

section \<open>The firmware's passes as schedules\<close>

text \<open>Task by task, whatever the other tasks are doing, as long as the UART is free and, for the
  tasks that take it, the mutex.\<close>

lemma store_back:
  "m_uart m = u \<Longrightarrow> sensor_at m = a \<Longrightarrow> sensor_store (a, t, g, u) m =
     m\<lparr>m_fw := (m_fw m)\<lparr>fw_sensor := t, fw_globals := g\<rparr>\<rparr>"
  "fsm_at m = b \<Longrightarrow> fsm_store (b, f, g) m = m\<lparr>m_fw := (m_fw m)\<lparr>fw_fsm := f, fw_globals := g\<rparr>\<rparr>"
  "m_uart m = u \<Longrightarrow> telemetry_at m = c \<Longrightarrow> telemetry_store (fw_fsm (m_fw m), c, tt, g, u) m =
     m\<lparr>m_fw := (m_fw m)\<lparr>fw_telemetry := tt, fw_globals := g\<rparr>\<rparr>"
  "m_uart m = u \<Longrightarrow> health_at m = d \<Longrightarrow>
   health_store ((fw_sensor (m_fw m), fw_fsm (m_fw m)), d, h, g, u) m =
     m\<lparr>m_fw := (m_fw m)\<lparr>fw_health := h, fw_globals := g\<rparr>\<rparr>"
  by (cases m; cases "m_fw m"; auto simp: sensor_store_def fsm_store_def telemetry_store_def health_store_def)+

lemma sensor_pass_schedule:
  assumes "task_sensor_pass r now1 now tick (fw_sensor (m_fw m), fw_globals (m_fw m)) = (t, g)"
    and "sensor_at m = Sensor_Idle" "m_uart m = None" "rx_inv (s_rx_ctx (fw_sensor (m_fw m)))"
    and law: "uart_law A"
  shows "machine_steps r A m (m\<lparr>m_fw := (m_fw m)\<lparr>fw_sensor := t, fw_globals := g\<rparr>\<rparr>)"
proof -
  have "72 \<le> length (fr_payload (rx_frame (s_rx_ctx (fw_sensor (m_fw m)))))"
    using assms(4) by (simp add: rx_inv_def PROTO_MAX_PAYLOAD_def)
  from sensor_steps.lift_steps [of r A m "(Sensor_Idle, t, g, None)"] sensor_pass_micro [OF assms(1) this law] assms(2,3)
  show ?thesis by (simp add: sensor_view_def store_back)
qed

lemma fsm_pass_schedule:
  assumes "task_fsm_pass r now tick1 tick2 (fw_fsm (m_fw m), fw_globals (m_fw m)) = (t, g)"
    and "fsm_at m = Fsm_Idle"
  shows "machine_steps r A m (m\<lparr>m_fw := (m_fw m)\<lparr>fw_fsm := t, fw_globals := g\<rparr>\<rparr>)"
  using fsm_steps.lift_steps [of r m "(Fsm_Idle, t, g)"] fsm_pass_micro [OF assms(1)] assms(2)
  by (simp add: fsm_view_def store_back)

lemma telemetry_pass_schedule:
  assumes "length stack = 54"
    and "task_telemetry_pass r stack (fw_fsm (m_fw m)) (fw_telemetry (m_fw m), fw_globals (m_fw m)) = (t, g)"
    and "telemetry_at m = Telem_Idle" "m_uart m = None" "\<not> holds_mutex (fsm_at m)"
    and law: "uart_law A"
  shows "machine_steps r A m (m\<lparr>m_fw := (m_fw m)\<lparr>fw_telemetry := t, fw_globals := g\<rparr>\<rparr>)"
  using telemetry_steps.lift_steps [of r A m "(fw_fsm (m_fw m), Telem_Idle, t, g, None)"]
    telemetry_pass_micro [OF assms(1,2) law] assms(3-5)
  by (simp add: telemetry_view_def store_back)

lemma health_pass_schedule:
  assumes "task_health_pass r hwm heap now tick (fw_sensor (m_fw m)) (fw_fsm (m_fw m))
      (fw_health (m_fw m), fw_globals (m_fw m)) = (t, g)"
    and "health_at m = Health_Idle" "m_uart m = None" "\<not> holds_mutex (fsm_at m)"
    and law: "uart_law A"
  shows "machine_steps r A m (m\<lparr>m_fw := (m_fw m)\<lparr>fw_health := t, fw_globals := g\<rparr>\<rparr>)"
  using health_steps.lift_steps [of r A m "((fw_sensor (m_fw m), fw_fsm (m_fw m)), Health_Idle, t, g, None)"]
    health_pass_micro [OF assms(1) law] assms(2-4)
  by (simp add: health_view_def store_back)

lemma fw_pass_schedule:
  assumes "fw_pass r fw fw'" "rx_inv (s_rx_ctx (fw_sensor fw))"
    and law: "uart_law A"
  shows "machine_steps r A (idle_machine fw) (idle_machine fw')"
  using assms(1)
proof (cases rule: fw_pass.cases)
  case (sensor now1 now tick t g)
  then show ?thesis
    using sensor_pass_schedule [of r now1 now tick "idle_machine fw" t g] assms(2) law
    by (simp add: idle_machine_def)
next
  case (fsm now tick1 tick2 t g)
  then show ?thesis
    using fsm_pass_schedule [of r now tick1 tick2 "idle_machine fw" t g] by (simp add: idle_machine_def)
next
  case (telemetry stack t g)
  then show ?thesis
    using telemetry_pass_schedule [of stack r "idle_machine fw" t g] law
    by (simp add: idle_machine_def holds_mutex_def)
next
  case (health hwm heap now tick t g)
  then show ?thesis
    using health_pass_schedule [of r hwm heap now tick "idle_machine fw" t g] law
    by (simp add: idle_machine_def holds_mutex_def)
qed

end
