(* ===== verification/PreemptionSafety.thy ===== *)
theory PreemptionSafety
  imports PreemptionSim
begin

text \<open>
  What preemption leaves intact.  \<open>machine_inv\<close> holds in every state that the
  interleaved pieces of the tasks and the receive interrupt can reach: the shared objects are
  well-formed as between passes, the UART is held by at most one task, and what it transmits is a
  wire frame.  Since every state the passes reach is one of these, it holds between passes as well.
\<close>

section \<open>The invariant\<close>

definition sensor_sends :: "sensor_pc \<Rightarrow> bool" where
  "sensor_sends pc \<longleftrightarrow> pc = Sensor_Sending"

definition telemetry_sends :: "telemetry_pc \<Rightarrow> bool" where
  "telemetry_sends pc \<longleftrightarrow> (case pc of Telem_Sending n \<Rightarrow> True | _ \<Rightarrow> False)"

definition health_sends :: "health_pc \<Rightarrow> bool" where
  "health_sends pc \<longleftrightarrow> (case pc of Health_Sending now \<Rightarrow> True | _ \<Rightarrow> False)"

definition senders :: "('q, 'e, 'h) machine \<Rightarrow> nat" where
  "senders m = of_bool (sensor_sends (sensor_at m)) + of_bool (telemetry_sends (telemetry_at m)) +
     of_bool (health_sends (health_at m))"

text \<open>The sensor task puts its sample into an empty queue; the state-machine task works on the three
  sensor faults; the telemetry task holds a record of the recorder.\<close>

definition sensor_ok :: "sensor_data list \<Rightarrow> sensor_pc \<Rightarrow> bool" where
  "sensor_ok q pc \<longleftrightarrow> (case pc of Sensor_Put parsed \<Rightarrow> q = [] | _ \<Rightarrow> True)"

definition fsm_ok :: "fsm_pc \<Rightarrow> bool" where
  "fsm_ok pc \<longleftrightarrow> (case pc of Fsm_Get now new \<Rightarrow> new AND 7 = new | Fsm_Raise now new prev \<Rightarrow> new AND 7 = new
     | Fsm_Clear now new prev \<Rightarrow> new AND 7 = new | Fsm_Tick now new prev \<Rightarrow> new AND 7 = new | _ \<Rightarrow> True)"

definition telemetry_ok :: "telemetry_pc \<Rightarrow> bool" where
  "telemetry_ok pc \<longleftrightarrow> (case pc of Telem_Record n rec \<Rightarrow> rec_ok rec | _ \<Rightarrow> True)"

definition uart_ok :: "byte list option \<Rightarrow> bool" where
  "uart_ok u \<longleftrightarrow> (\<forall>b. u = Some b \<longrightarrow> sent_frame b)"

definition machine_inv :: "('q \<Rightarrow> sensor_data list) \<Rightarrow> ('q, 'e, 'h) machine \<Rightarrow> bool" where
  "machine_inv queue m \<longleftrightarrow>
     fw_inv queue (m_fw m) \<and> uart_ok (m_uart m) \<and> senders m = of_bool (m_uart m \<noteq> None) \<and>
     sensor_ok (queue (g_sensor_queue (fw_globals (m_fw m)))) (sensor_at m) \<and>
     fsm_ok (fsm_at m) \<and> telemetry_ok (telemetry_at m)"

lemma senders_free: "machine_inv queue m \<Longrightarrow> sensor_sends (sensor_at m) \<Longrightarrow> m_uart m \<noteq> None"
  "machine_inv queue m \<Longrightarrow> telemetry_sends (telemetry_at m) \<Longrightarrow> m_uart m \<noteq> None"
  "machine_inv queue m \<Longrightarrow> health_sends (health_at m) \<Longrightarrow> m_uart m \<noteq> None"
  by (cases "m_uart m"; simp add: machine_inv_def senders_def)+

text \<open>Taking and leaving the UART.\<close>

lemma uart_begin_keeps:
  assumes "uart_begin A buf len u = (u', mine)" "uart_ok u"
    and "0 < len \<Longrightarrow> sent_frame (take (unat (of_nat len :: u16)) buf)"
    and law: "uart_law A"
  shows "uart_ok u' \<and> (if mine then u = None \<and> u' \<noteq> None else u' = u)"
  using assms by (cases u) (auto simp: uart_begin_def uart_law_def uart_ok_def split: if_splits)

text \<open>A frame at the start of the task's buffer, and its bytes out.\<close>

lemma begin_frame:
  assumes "uart_begin A (w @ rest) n u = (u', mine)" "length w = n" "n < 65536" "sent_frame w" "uart_ok u"
    and law: "uart_law A"
  shows "uart_ok u' \<and> (if mine then u = None \<and> u' \<noteq> None else u' = u)"
proof -
  have t: "take (unat (of_nat n :: u16)) (w @ rest) = w" using assms(2,3) by (simp add: unat_of_nat)
  show ?thesis by (rule uart_begin_keeps [OF assms(1,5) _ law]) (simp only: t assms(4))
qed

lemma end_frame:
  assumes "globals_ok queue g" "uart_ok u" "u \<noteq> None"
  shows "fst (uart_end u (huart2_tx g)) = None"
    "globals_ok queue (g\<lparr>huart2_tx := snd (uart_end u (huart2_tx g))\<rparr>)"
  using assms by (auto simp: uart_end_def uart_ok_def globals_ok_def)

lemma sent_frame_ack: "sent_frame heartbeat_ack"
  unfolding sent_frame_def heartbeat_ack_eq
  by (intro exI [of _ PKT_TYPE_HEARTBEAT_ACK] exI [of _ "[0xAC]"]) (simp add: proto_sizes)

lemma globals_ok_log: "globals_ok queue g \<Longrightarrow> globals_ok queue (g\<lparr>g_blackbox := blackbox_log a (g_blackbox g)\<rparr>)"
  by (simp add: globals_ok_def bb_inv_log)

lemma globals_ok_flags: "globals_ok queue (g\<lparr>g_fault_flags := e\<rparr>) = globals_ok queue g"
  by (simp add: globals_ok_def)

lemma globals_ok_get:
  "queue_laws r queue \<Longrightarrow> globals_ok queue g \<Longrightarrow>
   globals_ok queue (g\<lparr>g_sensor_queue := snd (osMessageQueueGet r (g_sensor_queue g))\<rparr>)"
  by (simp add: globals_ok_def queue_after_get)

section \<open>Every piece keeps it\<close>

lemma sensor_micro_keeps:
  fixes r :: "('q, 'e) rtos"
  assumes step: "sensor_micro r A now (pc, t, g, u) = (pc', t', g', u')"
    and "queue_laws r queue" "globals_ok queue g" "uart_ok u" "sensor_sends pc \<Longrightarrow> u \<noteq> None"
    and "sensor_ok (queue (g_sensor_queue g)) pc"
    and law: "uart_law A"
  shows "globals_ok queue g'" "s_rx_ctx t' = s_rx_ctx t" "uart_ok u'"
    "of_bool (u' \<noteq> None) + of_bool (sensor_sends pc) = of_bool (u \<noteq> None) + (of_bool (sensor_sends pc') :: nat)"
    "sensor_ok (queue (g_sensor_queue g')) pc'"
proof -
  have q: "length (queue (g_sensor_queue g)) \<le> 1" using assms(3) by (simp add: globals_ok_def)
  have drop: "queue (snd (osMessageQueueGet r (g_sensor_queue g))) = []"
    using queue_after_get [OF assms(2), of "g_sensor_queue g"] q by (cases "queue (g_sensor_queue g)") auto
  note rules = sensor_micro_def sensor_sends_def sensor_ok_def Let_def
  have "globals_ok queue g' \<and> s_rx_ctx t' = s_rx_ctx t \<and> uart_ok u' \<and>
    of_bool (u' \<noteq> None) + of_bool (sensor_sends pc) = of_bool (u \<noteq> None) + (of_bool (sensor_sends pc') :: nat) \<and>
    sensor_ok (queue (g_sensor_queue g')) pc'"
  proof (cases pc)
    case (Sensor_Count parsed)
    then show ?thesis using step assms(3,4) queue_nonempty [OF assms(2), of "g_sensor_queue g"]
      by (auto simp: rules)
  next
    case (Sensor_Drop parsed)
    then show ?thesis using step assms(3,4) globals_ok_get [OF assms(2,3)] drop by (auto simp: rules)
  next
    case (Sensor_Put parsed)
    then have "queue (osMessageQueuePut r (g_sensor_queue g) parsed) = [parsed]"
      using assms(6) queue_after_put [OF assms(2), of "g_sensor_queue g" parsed] by (simp add: sensor_ok_def)
    with Sensor_Put show ?thesis using step assms(3,4) by (auto simp: rules globals_ok_def)
  next
    case Sensor_Ack
    obtain u1 mine where b: "uart_begin A heartbeat_ack (length heartbeat_ack) u = (u1, mine)" by (metis surj_pair)
    with Sensor_Ack show ?thesis
      using step assms(3) begin_frame [of A heartbeat_ack "[]", OF _ refl _ sent_frame_ack assms(4) law] b
      by (auto simp: rules heartbeat_ack_eq len_simps split: if_splits)
  next
    case Sensor_Sending
    with assms(5) have "u \<noteq> None" by (simp add: sensor_sends_def)
    with Sensor_Sending show ?thesis
      using step end_frame [OF assms(3,4)] by (auto simp: rules uart_ok_def split_beta)
  qed (use step assms(3,4) globals_ok_log [OF assms(3)] in
    \<open>auto simp: rules split: if_splits option.splits\<close>)
  then show "globals_ok queue g'" "s_rx_ctx t' = s_rx_ctx t" "uart_ok u'"
    "of_bool (u' \<noteq> None) + of_bool (sensor_sends pc) = of_bool (u \<noteq> None) + (of_bool (sensor_sends pc') :: nat)"
    "sensor_ok (queue (g_sensor_queue g')) pc'"
    by blast+
qed

lemma fsm_micro_keeps:
  fixes r :: "('q, 'e) rtos"
  assumes step: "fsm_micro r now (pc, t, g) = (pc', t', g')"
    and "queue_laws r queue" "globals_ok queue g" "fsm_inv (s_fsm t)" "grounded (s_fsm t)" "fsm_ok pc"
  shows "globals_ok queue g'" "fsm_inv (s_fsm t')" "grounded (s_fsm t')" "fsm_ok pc'"
    "queue (g_sensor_queue g') \<in> {queue (g_sensor_queue g), tl (queue (g_sensor_queue g))}"
proof -
  have "globals_ok queue g' \<and> fsm_inv (s_fsm t') \<and> grounded (s_fsm t') \<and> fsm_ok pc' \<and>
    queue (g_sensor_queue g') \<in> {queue (g_sensor_queue g), tl (queue (g_sensor_queue g))}"
  proof (cases pc)
    case Fsm_Idle
    then show ?thesis
      using step assms(3-5) globals_ok_get [OF assms(2,3)] queue_after_get [OF assms(2), of "g_sensor_queue g"]
      by (auto simp: fsm_micro_def fsm_ok_def split_beta)
  next
    case (Fsm_Acquire fresh)
    then show ?thesis
      using step assms(3-5) evaluate_faults_small
      by (auto simp: fsm_micro_def fsm_ok_def Let_def split: option.splits)
  next
    case (Fsm_Tick now_ms new prev)
    obtain fsm bb moved where tick:
      "fsm_tick (s_fsm t) (s_last_sensors t) new now_ms now (g_blackbox g) = (fsm, bb, moved)"
      by (metis surj_pair)
    have "bb_inv (g_blackbox g)" "new AND 7 = new" using assms(3,6) Fsm_Tick by (simp_all add: globals_ok_def fsm_ok_def)
    then have "bb_inv bb" "fsm_inv fsm" "grounded fsm"
      using tick.keeps_bb_inv [OF assms(4) tick] tick.keeps_inv [OF assms(4) tick]
        fsm_tick_grounded [OF assms(5), of new "s_last_sensors t" now_ms now "g_blackbox g"]
      by (simp_all add: tick)
    then show ?thesis using step Fsm_Tick tick assms(3) by (auto simp: fsm_micro_def fsm_ok_def globals_ok_def)
  qed (use step assms(3-6) globals_ok_log [OF assms(3)] in
    \<open>auto simp: fsm_micro_def fsm_ok_def globals_ok_flags split: if_splits\<close>)
  then show "globals_ok queue g'" "fsm_inv (s_fsm t')" "grounded (s_fsm t')" "fsm_ok pc'"
    "queue (g_sensor_queue g') \<in> {queue (g_sensor_queue g), tl (queue (g_sensor_queue g))}"
    by blast+
qed

lemma telemetry_micro_keeps:
  fixes r :: "('q, 'e) rtos"
  assumes step: "telemetry_micro r A stack f (pc, t, g, u) = (pc', t', g', u')" and "length stack = 54"
    and "globals_ok queue g" "uart_ok u" "telemetry_sends pc \<Longrightarrow> u \<noteq> None"
    and "length (tx_buf t) = 134" "telemetry_ok pc"
    and law: "uart_law A"
  shows "globals_ok queue g'" "uart_ok u'" "length (tx_buf t') = 134" "telemetry_ok pc'"
    "g_sensor_queue g' = g_sensor_queue g"
    "of_bool (u' \<noteq> None) + of_bool (telemetry_sends pc) =
       of_bool (u \<noteq> None) + (of_bool (telemetry_sends pc') :: nat)"
proof -
  note rules = telemetry_micro_def telemetry_sends_def telemetry_ok_def Let_def
  have "globals_ok queue g' \<and> uart_ok u' \<and> length (tx_buf t') = 134 \<and> telemetry_ok pc' \<and>
    g_sensor_queue g' = g_sensor_queue g \<and>
    of_bool (u' \<noteq> None) + of_bool (telemetry_sends pc) =
       of_bool (u \<noteq> None) + (of_bool (telemetry_sends pc') :: nat)"
  proof (cases pc)
    case (Telem_Build st fl)
    let ?w = "wire_frame PKT_TYPE_TELEMETRY (pkt_telemetry_bytes (telemetry_packet (snap t) st fl))"
    have b: "proto_build_telemetry (snap t) st fl (tx_buf t) PROTO_MAX_FRAME = (72, ?w @ drop 72 (tx_buf t))"
      by (rule telemetry_send [OF assms(6)])
    have lw: "length ?w = 72" by (simp add: len_simps)
    obtain u1 mine where u: "uart_begin A (?w @ drop 72 (tx_buf t)) 72 u = (u1, mine)" by (metis surj_pair)
    note k = begin_frame [OF u lw _ sent_frame_telemetry assms(4) law]
    with Telem_Build show ?thesis using step assms(3,6) b u lw k by (auto simp: rules split: if_splits)
  next
    case (Telem_Sending n)
    with assms(5) have "u \<noteq> None" by (simp add: telemetry_sends_def)
    with Telem_Sending show ?thesis
      using step end_frame [OF assms(3,4)] assms(6) by (auto simp: rules uart_ok_def split_beta)
  next
    case (Telem_Read n)
    obtain rec bb where read: "blackbox_read (g_blackbox g) = (rec, bb)" by (metis surj_pair)
    have inv: "bb_inv (g_blackbox g)" using assms(3) by (simp add: globals_ok_def)
    have "bb_inv bb" using bb.inv_pop [OF inv] read by simp
    moreover have "rec = Some rc \<Longrightarrow> rec_ok rc" for rc
      using bb_stored_ok [OF inv] bb_stored_read [OF inv] read by blast
    ultimately show ?thesis
      using step assms(3,4,6) read Telem_Read
      by (auto simp: rules globals_ok_def split: nat.splits option.splits)
  next
    case (Telem_Record n rec)
    have ok: "rec_ok rec" using assms(7) Telem_Record by (simp add: telemetry_ok_def)
    have fr: "blackbox_frame stack rec = (record_frame rec, 54)" by (rule blackbox_frame_eq [OF ok assms(2)])
    obtain u1 mine where u: "uart_begin A (record_frame rec) 54 u = (u1, mine)" by (metis surj_pair)
    note k = begin_frame [of A "record_frame rec" "[]", simplified, OF u length_record_frame [OF ok] _
        sent_frame_record [OF ok] assms(4) law]
    with Telem_Record show ?thesis using step assms(3,6) fr u k by (auto simp: rules split: if_splits)
  qed (use step assms(3,4,6) in \<open>auto simp: rules\<close>)
  then show "globals_ok queue g'" "uart_ok u'" "length (tx_buf t') = 134" "telemetry_ok pc'"
    "g_sensor_queue g' = g_sensor_queue g"
    "of_bool (u' \<noteq> None) + of_bool (telemetry_sends pc) =
       of_bool (u \<noteq> None) + (of_bool (telemetry_sends pc') :: nat)"
    by blast+
qed

lemma health_send:
  assumes "length buf = 134"
  shows "proto_build_health rpt buf PROTO_MAX_FRAME =
    (23, wire_frame PKT_TYPE_HEALTH_REPORT (pkt_health_report_bytes rpt) @ drop 23 buf)"
  using build_frame_struct [of "pkt_health_report_bytes rpt" 134 buf] assms
  by (simp add: proto_build_health_def proto_sizes len_simps Let_def)

lemma health_micro_keeps:
  fixes r :: "('q, 'e) rtos"
  assumes step: "health_micro r A hwm heap tick sensor f (pc, t, g, u) = (pc', t', g', u')"
    and "globals_ok queue g" "uart_ok u" "health_sends pc \<Longrightarrow> u \<noteq> None" "length (health_tx_buf t) = 134"
    and law: "uart_law A"
  shows "globals_ok queue g'" "uart_ok u'" "length (health_tx_buf t') = 134"
    "g_sensor_queue g' = g_sensor_queue g"
    "of_bool (u' \<noteq> None) + of_bool (health_sends pc) =
       of_bool (u \<noteq> None) + (of_bool (health_sends pc') :: nat)"
proof -
  note rules = health_micro_def health_sends_def Let_def
  have "globals_ok queue g' \<and> uart_ok u' \<and> length (health_tx_buf t') = 134 \<and>
    g_sensor_queue g' = g_sensor_queue g \<and>
    of_bool (u' \<noteq> None) + of_bool (health_sends pc) =
       of_bool (u \<noteq> None) + (of_bool (health_sends pc') :: nat)"
  proof (cases pc)
    case (Health_Snapshot l)
    let ?rpt = "\<lparr>hr_timestamp_ms = hs_timestamp_ms l, hr_cpu_load_pct = 0,
        hr_hwm_sensor = hs_hwm_sensor l, hr_hwm_fsm = hs_hwm_fsm l,
        hr_hwm_telemetry = hs_hwm_telemetry l, hr_hwm_health = hs_hwm_health l,
        hr_free_heap_bytes = hs_free_heap_bytes l\<rparr>"
    let ?w = "wire_frame PKT_TYPE_HEALTH_REPORT (pkt_health_report_bytes ?rpt)"
    have lw: "length ?w = 23" by (simp add: len_simps)
    have b: "proto_build_health ?rpt (health_tx_buf t) PROTO_MAX_FRAME = (23, ?w @ drop 23 (health_tx_buf t))"
      by (rule health_send [OF assms(5)])
    obtain u1 mine where u: "uart_begin A (?w @ drop 23 (health_tx_buf t)) 23 u = (u1, mine)" by (metis surj_pair)
    note k = begin_frame [OF u lw _ sent_frame_health assms(3) law]
    with Health_Snapshot show ?thesis
      using step assms(2,3,5) b u lw k by (auto simp: rules split: if_splits)
  next
    case (Health_Sending now)
    with assms(4) have "u \<noteq> None" by (simp add: health_sends_def)
    with Health_Sending show ?thesis
      using step end_frame [OF assms(2,3)] assms(5) by (auto simp: rules uart_ok_def split_beta)
  qed (use step assms(2,3,5) globals_ok_log [OF assms(2)] in
    \<open>auto simp: rules globals_ok_flags split: if_splits\<close>)
  then show "globals_ok queue g'" "uart_ok u'" "length (health_tx_buf t') = 134"
    "g_sensor_queue g' = g_sensor_queue g"
    "of_bool (u' \<noteq> None) + of_bool (health_sends pc) =
       of_bool (u \<noteq> None) + (of_bool (health_sends pc') :: nat)"
    by blast+
qed

lemma machine_step_inv:
  fixes r :: "('q, 'e) rtos"
  assumes "machine_step r A m m'" "queue_laws r queue" "machine_inv queue m"
    and law: "uart_law A"
  shows "machine_inv queue m'"
  using assms(1)
proof (cases rule: machine_step.cases)
  note inv = assms(3) [unfolded machine_inv_def fw_inv_def]
  {
    case (interrupt b)
    then show ?thesis
      using inv rx_feed_inv [of "s_rx_ctx (fw_sensor (m_fw m))" b]
      by (simp add: machine_inv_def fw_inv_def senders_def uart_receive_def HAL_UART_RxCpltCallback_def
          split_beta Let_def)
  next
    case (sensor now pc t g u)
    have "globals_ok queue (fw_globals (m_fw m))" "uart_ok (m_uart m)"
      "sensor_ok (queue (g_sensor_queue (fw_globals (m_fw m)))) (sensor_at m)"
      using inv by simp_all
    note k = sensor_micro_keeps [OF sensor(2) assms(2) this(1,2) senders_free(1) [OF assms(3)] this(3) law]
    from inv k sensor(1) show ?thesis by (simp add: machine_inv_def fw_inv_def senders_def)
  next
    case (fsm now pc t g)
    have pre: "globals_ok queue (fw_globals (m_fw m))" "fsm_inv (s_fsm (fw_fsm (m_fw m)))"
      "grounded (s_fsm (fw_fsm (m_fw m)))" "fsm_ok (fsm_at m)"
      using inv by simp_all
    note k = fsm_micro_keeps [OF fsm(2) assms(2) pre]
    from inv k fsm(1) show ?thesis
      by (auto simp: machine_inv_def fw_inv_def senders_def sensor_ok_def split: sensor_pc.splits)
  next
    case (telemetry stack pc t g u)
    have "globals_ok queue (fw_globals (m_fw m))" "uart_ok (m_uart m)"
      "length (tx_buf (fw_telemetry (m_fw m))) = 134" "telemetry_ok (telemetry_at m)"
      using inv by simp_all
    note k = telemetry_micro_keeps [OF telemetry(4,3) this(1,2) senders_free(2) [OF assms(3)] this(3,4) law]
    from inv k telemetry(1) show ?thesis by (simp add: machine_inv_def fw_inv_def senders_def)
  next
    case (health hwm heap tick pc t g u)
    have "globals_ok queue (fw_globals (m_fw m))" "uart_ok (m_uart m)"
      "length (health_tx_buf (fw_health (m_fw m))) = 134"
      using inv by simp_all
    note k = health_micro_keeps [OF health(3) this(1,2) senders_free(3) [OF assms(3)] this(3) law]
    from inv k health(1) show ?thesis by (simp add: machine_inv_def fw_inv_def senders_def)
  }
qed

lemma idle_machine_inv: "fw_inv queue fw \<Longrightarrow> machine_inv queue (idle_machine fw)"
  by (simp add: machine_inv_def idle_machine_def senders_def sensor_sends_def telemetry_sends_def
      health_sends_def uart_ok_def sensor_ok_def fsm_ok_def telemetry_ok_def)

lemma machine_run_inv:
  fixes r :: "('q, 'e) rtos"
  assumes "machine_run r A queue m" "queue_laws r queue"
    and law: "uart_law A"
  shows "machine_inv queue m"
  using assms(1)
proof induction
  case (boot q tick e reg)
  then show ?case by (intro idle_machine_inv firmware_boot_inv)
next
  case (step m m')
  then show ?case using machine_step_inv assms(2) law by blast
qed

text \<open>Every state the passes reach is a state of the machine.\<close>

lemma fw_step_schedule:
  assumes "fw_step r fw fw'" "rx_inv (s_rx_ctx (fw_sensor fw))"
    and law: "uart_law A"
  shows "machine_steps r A (idle_machine fw) (idle_machine fw')"
  using assms(1)
proof (rule fw_step_cases)
  fix b assume "fw' = fw\<lparr>fw_sensor := uart_receive (fw_sensor fw) b\<rparr>"
  then have "idle_machine fw' = (idle_machine fw)
      \<lparr>m_fw := (m_fw (idle_machine fw))\<lparr>fw_sensor := uart_receive (fw_sensor (m_fw (idle_machine fw))) b\<rparr>\<rparr>"
    by (simp add: idle_machine_def)
  then show ?thesis using machine_step.interrupt [of r A "idle_machine fw" b] by simp
next
  assume "fw_pass r fw fw'"
  then show ?thesis using assms(2) law by (rule fw_pass_schedule)
qed

lemma fw_run_machine_run:
  assumes "fw_run r queue fw" "queue_laws r queue"
    and law: "uart_law A"
  shows "machine_run r A queue (idle_machine fw)"
  using assms(1)
proof induction
  case (boot q tick e reg)
  then show ?case by (rule machine_run.boot)
next
  case (step fw fw')
  have "rx_inv (s_rx_ctx (fw_sensor fw))"
    using fw_run_inv [OF step(1) assms(2)] by (simp add: fw_inv_def)
  with machine_run_steps [OF fw_step_schedule [OF step(2) _ law] step.IH] show ?case by simp
qed

section \<open>Properties\<close>

text \<open>A UART that answers as documented.\<close>

abbreviation ready_uart :: "uart \<Rightarrow> bool" where
  "ready_uart u \<equiv> u = None"

lemma ready_uart_law: "uart_law ready_uart"
  by (simp add: uart_law_def)

lemma example_machine_run:
  "machine_run list_rtos ready_uart (take SENSOR_QUEUE_LEN) (idle_machine example_firmware)"
  by (rule fw_run_machine_run [OF example_run list_rtos_queue ready_uart_law])

text \<open>The sensor task in the middle of its first pass.\<close>

lemma example_run_within_pass:
  "machine_run list_rtos ready_uart (take SENSOR_QUEUE_LEN) ((idle_machine example_firmware)\<lparr>sensor_at := Sensor_Check\<rparr>)"
proof -
  let ?m = "idle_machine example_firmware"
  have "\<not> s_byte_ready (fw_sensor example_firmware)"
    by (simp add: example_firmware_def firmware_boot_def firmware_main_def task_sensor_start_def
        sensor_task_zero_def Let_def)
  then have "sensor_micro list_rtos ready_uart 0 (sensor_at ?m, fw_sensor (m_fw ?m), fw_globals (m_fw ?m), m_uart ?m) =
      (Sensor_Check, fw_sensor (m_fw ?m), fw_globals (m_fw ?m), m_uart ?m)"
    by (simp add: sensor_micro_def idle_machine_def)
  from machine_run.step [OF example_machine_run machine_step.sensor [OF this]]
  show ?thesis by (simp add: idle_machine_def)
qed

text \<open>C16: Treating a pass of a task as one step loses no behaviour the tasks can show between passes:
  every state that received bytes and passes can reach is reached by the preemptive tasks as well,
  with all of them waiting and the UART free.\<close>

theorem passes_are_schedules:
  assumes "fw_run r queue fw" "queue_laws r queue"
    and law: "uart_law A"
  shows "machine_run r A queue (idle_machine fw)"
  using fw_run_machine_run [OF assms] .

theorem passes_are_schedules_witness:
  "\<exists>fw :: (sensor_data list, u32, nat) firmware. machine_run list_rtos ready_uart (take SENSOR_QUEUE_LEN) (idle_machine fw) \<and>
     s_uart_rx_byte (fw_sensor fw) = 0xAB \<and> fw_globals fw = fw_globals example_firmware"
proof -
  let ?fw = "example_firmware\<lparr>fw_sensor := uart_receive (fw_sensor example_firmware) 0xAB\<rparr>"
  have "fw_run list_rtos (take SENSOR_QUEUE_LEN) ?fw"
    by (rule fw_run.step [OF example_run fw_step.receive])
  from passes_are_schedules [OF this list_rtos_queue ready_uart_law] show ?thesis
    by (intro exI [of _ ?fw])
      (simp add: uart_receive_def HAL_UART_RxCpltCallback_def split_beta Let_def)
qed

text \<open>C9: The tasks may preempt each other anywhere: in every state that the receive interrupt and the
  pieces of the four tasks can reach, in any order, the recorder's indices and the receiver's
  payload index are in bounds, the queue holds at most one sample, the last transition of the
  machine is a row of its table, and at most one task is transmitting.\<close>

theorem interleaved_tasks_stay_well_formed:
  fixes r :: "('q, 'e) rtos"
  assumes "machine_run r A queue m" "queue_laws r queue"
    and law: "uart_law A"
  shows "bb_inv (g_blackbox (fw_globals (m_fw m))) \<and> rx_inv (s_rx_ctx (fw_sensor (m_fw m))) \<and>
    length (queue (g_sensor_queue (fw_globals (m_fw m)))) \<le> 1 \<and> fsm_inv (s_fsm (fw_fsm (m_fw m))) \<and>
    senders m \<le> 1"
  using machine_run_inv [OF assms] by (simp add: machine_inv_def fw_inv_def globals_ok_def)

theorem interleaved_tasks_stay_well_formed_witness:
  "\<exists>m :: (sensor_data list, u32, nat) machine. machine_run list_rtos ready_uart (take SENSOR_QUEUE_LEN) m \<and> sensor_at m = Sensor_Check \<and>
     bb_inv (g_blackbox (fw_globals (m_fw m)))"
proof -
  note run = example_run_within_pass
  from interleaved_tasks_stay_well_formed [OF run list_rtos_queue ready_uart_law] run show ?thesis
    by (intro exI [of _ "(idle_machine example_firmware)\<lparr>sensor_at := Sensor_Check\<rparr>"]) simp
qed

text \<open>C33: The firmware never arms, even when its tasks preempt each other: in every reachable state the
  flight state is INIT, PREFLIGHT or FAULT, and the fault word the machine was last ticked with
  holds neither the comms nor the stack fault.\<close>

theorem interleaved_tasks_never_arm:
  fixes r :: "('q, 'e) rtos"
  assumes "machine_run r A queue m" "queue_laws r queue"
    and law: "uart_law A"
  shows "fsm_task_get_state (fw_fsm (m_fw m)) \<in>
      {FLIGHT_STATE_INIT, FLIGHT_STATE_PREFLIGHT, FLIGHT_STATE_FAULT} \<and>
    ctx_fault_flags (s_fsm (fw_fsm (m_fw m))) AND
      (FAULT_FLAG_COMMS_TIMEOUT OR FAULT_FLAG_STACK_OVERFLOW) = 0"
proof -
  have g: "grounded (s_fsm (fw_fsm (m_fw m)))"
    using machine_run_inv [OF assms] by (simp add: machine_inv_def fw_inv_def)
  let ?f = "ctx_fault_flags (s_fsm (fw_fsm (m_fw m)))"
  have "?f AND 0x28 = ?f AND (7 AND 0x28)" using g by (metis grounded_def and.assoc)
  with g show ?thesis by (simp add: grounded_def fsm_task_get_state_def flag_defs)
qed

theorem interleaved_tasks_never_arm_witness:
  "fsm_task_get_state (fw_fsm (m_fw (idle_machine example_firmware))) \<in>
     {FLIGHT_STATE_INIT, FLIGHT_STATE_PREFLIGHT, FLIGHT_STATE_FAULT}"
  using interleaved_tasks_never_arm [OF example_machine_run list_rtos_queue ready_uart_law] by simp

text \<open>C15: The ground station can follow the firmware, even when its tasks preempt each other: as
  long as no transmission times out, the bytes sent on the UART are a sequence of whole wire
  frames, and a receiver that starts between frames accepts each of them at its last byte and
  reports nothing else.\<close>

theorem interleaved_output_is_received:
  fixes r :: "('q, 'e) rtos"
  assumes "machine_run r A queue m" "queue_laws r queue" "rx_inv ctx" "rx_pending ctx = []"
    and law: "uart_law A"
  shows "snd (rx_run ctx (concat (huart2_tx (fw_globals (m_fw m))))) =
    concat (map (\<lambda>b. replicate (length b - 1) False @ [True]) (huart2_tx (fw_globals (m_fw m))))"
  using machine_run_inv [OF assms(1,2) law]
  by (intro rx_run_frames assms(3,4)) (simp add: machine_inv_def fw_inv_def globals_ok_def)

theorem interleaved_output_is_received_witness:
  "\<exists>t g. task_health_pass list_rtos (\<lambda>h. 100) 9000 1000 1001 (fw_sensor example_firmware)
      (fw_fsm example_firmware) (fw_health example_firmware, fw_globals example_firmware) = (t, g) \<and>
     snd (rx_run proto_rx_zero (concat (huart2_tx g))) =
       concat (map (\<lambda>b. replicate (length b - 1) False @ [True]) (huart2_tx g))"
proof -
  obtain t g where p: "task_health_pass list_rtos (\<lambda>h. 100) 9000 1000 1001
      (fw_sensor example_firmware) (fw_fsm example_firmware)
      (fw_health example_firmware, fw_globals example_firmware) = (t, g)"
    by (metis surj_pair)
  have "fw_run list_rtos (take SENSOR_QUEUE_LEN) (example_firmware\<lparr>fw_health := t, fw_globals := g\<rparr>)"
    by (rule fw_run.step [OF example_run fw_step.pass [OF fw_pass.health [OF p]]])
  note run = fw_run_machine_run [OF this list_rtos_queue ready_uart_law]
  from interleaved_output_is_received [OF run list_rtos_queue proto_rx_zero_idle ready_uart_law] p
  show ?thesis by (simp add: idle_machine_def)
qed

end
