(* ===== verification/PreemptionRaces.thy ===== *)
theory PreemptionRaces
  imports PreemptionSafety
begin

text \<open>
  What preemption does not leave intact: schedules of \<open>Preemption\<close> after which the ground station has
  been told what never was, or will never be told what was recorded.
\<close>

section \<open>A busy UART\<close>

text \<open>The draining loop while another task transmits.\<close>

lemma telemetry_drops_micro:
  fixes stack :: "byte list"
  assumes "length stack = 54"
    and law: "uart_law A"
  shows "micro_steps (telemetry_turn r A) {stack. length stack = 54} (f, Telem_Read n, t, g, Some b)
    (f, Telem_Idle, t, g\<lparr>g_blackbox := snd (drain blackbox_read n (g_blackbox g))\<rparr>, Some b)"
proof (induction n arbitrary: g)
  note run = micro_in [of stack "{stack. length stack = 54}" "telemetry_turn r A", simplified, OF assms(1)]
  case 0
  have "telemetry_turn r A stack (f, Telem_Read 0, t, g, Some b) = (f, Telem_Idle, t, g, Some b)"
    by (simp add: telemetry_micro_def)
  note idle = run(1) [OF this]
  have "g\<lparr>g_blackbox := snd (drain blackbox_read 0 (g_blackbox g))\<rparr> = g" by simp
  with idle show ?case by (simp only:)
next
  note run = micro_in [of stack "{stack. length stack = 54}" "telemetry_turn r A", simplified, OF assms(1)]
  case (Suc n)
  obtain rec bb1 where read: "blackbox_read (g_blackbox g) = (rec, bb1)" by (metis surj_pair)
  show ?case
  proof (cases rec)
    case None
    then have "telemetry_turn r A stack (f, Telem_Read (Suc n), t, g, Some b) =
        (f, Telem_Idle, t, g\<lparr>g_blackbox := snd (drain blackbox_read (Suc n) (g_blackbox g))\<rparr>, Some b)"
      by (simp add: telemetry_micro_def read)
    then show ?thesis by (rule run(1))
  next
    case (Some rc)
    let ?g1 = "g\<lparr>g_blackbox := bb1\<rparr>"
    have "telemetry_turn r A stack (f, Telem_Read (Suc n), t, g, Some b) = (f, Telem_Record n rc, t, ?g1, Some b)"
      "telemetry_turn r A stack (f, Telem_Record n rc, t, ?g1, Some b) = (f, Telem_Read n, t, ?g1, Some b)"
      using Some law by (simp_all add: telemetry_micro_def read split_beta Let_def)
    from micro_trans [OF run(2) [OF this] Suc.IH [of ?g1]] Some read show ?thesis
      by (simp add: split_beta Let_def)
  qed
qed

lemma telemetry_pass_drops:
  fixes r :: "('q, 'e) rtos"
  assumes "m_uart m = Some b" "telemetry_at m = Telem_Idle" "\<not> holds_mutex (fsm_at m)"
    and law: "uart_law A"
  shows "\<exists>t. machine_steps r A m (m\<lparr>m_fw := (m_fw m)\<lparr>fw_telemetry := t, fw_globals := (fw_globals (m_fw m))
    \<lparr>g_blackbox := snd (drain blackbox_read 4 (g_blackbox (fw_globals (m_fw m))))\<rparr>\<rparr>\<rparr>)"
proof -
  let ?f = "fw_fsm (m_fw m)" and ?t = "fw_telemetry (m_fw m)" and ?g = "fw_globals (m_fw m)"
  have l: "length (replicate 54 0) = (54 :: nat)" by simp
  note run = micro_in [of "replicate 54 0" "{stack. length stack = 54}" "telemetry_turn r A", simplified]
  let ?stack = "replicate 54 0 :: byte list"
  let ?t1 = "?t\<lparr>snap := fsm_task_get_sensors ?f\<rparr>" and ?st = "fsm_task_get_state ?f"
    and ?fl = "fsm_task_get_fault_flags r (g_fault_flags ?g)"
  let ?t2 = "?t1\<lparr>tx_buf := snd (proto_build_telemetry (snap ?t1) ?st ?fl (tx_buf ?t1) PROTO_MAX_FRAME)\<rparr>"
  have "telemetry_turn r A ?stack (?f, Telem_Idle, ?t, ?g, Some b) = (?f, Telem_State, ?t1, ?g, Some b)"
    "telemetry_turn r A ?stack (?f, Telem_State, ?t1, ?g, Some b) = (?f, Telem_Faults ?st, ?t1, ?g, Some b)"
    "telemetry_turn r A ?stack (?f, Telem_Faults ?st, ?t1, ?g, Some b) = (?f, Telem_Build ?st ?fl, ?t1, ?g, Some b)"
    by (simp_all add: telemetry_micro_def)
  note one = run(3) [OF this]
  have "telemetry_turn r A ?stack (?f, Telem_Build ?st ?fl, ?t1, ?g, Some b) =
      (?f, Telem_Read 4, ?t2, ?g, Some b)"
    using law by (simp add: telemetry_micro_def TELEM_BLACKBOX_BURST_def split_beta Let_def)
  note two = run(1) [OF this]
  from micro_trans [OF micro_trans [OF one two] telemetry_drops_micro [OF l law]] assms
    telemetry_steps.lift_steps [of r A m "(?f, Telem_Idle, ?t2,
      ?g\<lparr>g_blackbox := snd (drain blackbox_read 4 (g_blackbox ?g))\<rparr>, Some b)"]
  have "machine_steps r A m (telemetry_store (?f, Telem_Idle, ?t2,
      ?g\<lparr>g_blackbox := snd (drain blackbox_read 4 (g_blackbox ?g))\<rparr>, Some b) m)"
    by (simp add: telemetry_view_def)
  then show ?thesis using assms by (auto simp: store_back)
qed

text \<open>A health pass that begins its report holds the UART.\<close>

lemma health_report_begins:
  fixes r :: "('q, 'e) rtos"
  assumes "now - last_report_ms (fw_health fw) \<ge> 1000" "length (health_tx_buf (fw_health fw)) = 134"
    and law: "uart_law A"
  shows "\<exists>t e u. machine_steps r A (idle_machine fw)
    ((idle_machine fw)\<lparr>m_fw := fw\<lparr>fw_health := t, fw_globals := (fw_globals fw)\<lparr>g_fault_flags := e\<rparr>\<rparr>,
       m_uart := Some u, health_at := Health_Sending now\<rparr>)"
proof -
  let ?s = "fw_sensor fw" and ?f = "fw_fsm fw" and ?g = "fw_globals fw"
  obtain t1 e where c: "health_checks r (\<lambda>h. 100) 0 now ?s (fw_health fw) (g_fault_flags ?g) = (t1, e)"
    by (metis surj_pair)
  obtain l where l: "micro_steps (health_turn r A) UNIV ((?s, ?f), Health_Idle, fw_health fw, ?g, None)
      ((?s, ?f), Health_Snapshot l, fw_health fw, ?g\<lparr>g_fault_flags := e\<rparr>, None)" "hs_timestamp_ms l = now"
    by (rule health_checks_micro [OF c]) (rule that)
  let ?rpt = "\<lparr>hr_timestamp_ms = now, hr_cpu_load_pct = 0,
      hr_hwm_sensor = hs_hwm_sensor l, hr_hwm_fsm = hs_hwm_fsm l,
      hr_hwm_telemetry = hs_hwm_telemetry l, hr_hwm_health = hs_hwm_health l,
      hr_free_heap_bytes = hs_free_heap_bytes l\<rparr>"
  obtain buf where b: "proto_build_health ?rpt (health_tx_buf (fw_health fw)) PROTO_MAX_FRAME = (23, buf)"
    using health_send [OF assms(2)] by blast
  obtain t u where p: "health_turn r A (\<lambda>h. 100, 0, now)
      ((?s, ?f), Health_Snapshot l, fw_health fw, ?g\<lparr>g_fault_flags := e\<rparr>, None) =
      ((?s, ?f), Health_Sending now, t, ?g\<lparr>g_fault_flags := e\<rparr>, Some u)"
    using assms(1) b l(2) law by (simp add: health_micro_def HEALTH_REPORT_PERIOD_MS_def Let_def)
  from micro_trans [OF l(1) micro_one [of "health_turn r A", OF p]]
    health_steps.lift_steps [of r A "idle_machine fw" "((?s, ?f), Health_Sending now, t, ?g\<lparr>g_fault_flags := e\<rparr>, Some u)"]
  have "machine_steps r A (idle_machine fw)
      (health_store ((?s, ?f), Health_Sending now, t, ?g\<lparr>g_fault_flags := e\<rparr>, Some u) (idle_machine fw))"
    by (simp add: health_view_def idle_machine_def holds_mutex_def)
  moreover have "fw\<lparr>fw_sensor := fw_sensor fw, fw_fsm := fw_fsm fw, fw_health := t, fw_globals := x\<rparr> =
      fw\<lparr>fw_health := t, fw_globals := x\<rparr>" for x
    by (cases fw) simp
  ultimately show ?thesis by (auto simp: health_store_def idle_machine_def)
qed

section \<open>A mixed telemetry frame\<close>

text \<open>The telemetry task reads sample and state, the state-machine task runs a pass, and the telemetry
  task reads the faults and sends.\<close>

lemma telemetry_reads_around_pass:
  fixes r :: "('q, 'e) rtos"
  assumes "task_fsm_pass r now tick1 tick2 (fw_fsm fw, fw_globals fw) = (f', g')"
    and "length (tx_buf (fw_telemetry fw)) = 134" and law: "uart_law A"
  defines "w \<equiv> wire_frame PKT_TYPE_TELEMETRY (pkt_telemetry_bytes (telemetry_packet
      (s_last_sensors (fw_fsm fw)) (current_state (s_fsm (fw_fsm fw)))
      (ucast (osEventFlagsGet r (g_fault_flags g')))))"
  shows "\<exists>m. machine_steps r A (idle_machine fw) m \<and> fw_fsm (m_fw m) = f' \<and>
    huart2_tx (fw_globals (m_fw m)) = huart2_tx (fw_globals fw) @ [w]"
proof -
  have l: "replicate 54 0 \<in> {stack :: byte list. length stack = 54}" by simp
  note run = micro_in [OF l, of "telemetry_turn r A"]
  let ?stack = "replicate 54 0 :: byte list"
  let ?f = "fw_fsm fw" and ?t = "fw_telemetry fw" and ?g = "fw_globals fw"
  let ?t1 = "?t\<lparr>snap := fsm_task_get_sensors ?f\<rparr>" and ?st = "fsm_task_get_state ?f"
    and ?fl = "fsm_task_get_fault_flags r (g_fault_flags g')"
  have "telemetry_turn r A ?stack (?f, Telem_Idle, ?t, ?g, None) = (?f, Telem_State, ?t1, ?g, None)"
    "telemetry_turn r A ?stack (?f, Telem_State, ?t1, ?g, None) = (?f, Telem_Faults ?st, ?t1, ?g, None)"
    by (simp_all add: telemetry_micro_def)
  from telemetry_steps.lift_steps [of r A "idle_machine fw" "(?f, Telem_Faults ?st, ?t1, ?g, None)"] run(2) [OF this]
  have one: "machine_steps r A (idle_machine fw) (telemetry_store (?f, Telem_Faults ?st, ?t1, ?g, None) (idle_machine fw))"
    by (simp add: telemetry_view_def idle_machine_def holds_mutex_def)
  define m1 where "m1 = telemetry_store (?f, Telem_Faults ?st, ?t1, ?g, None) (idle_machine fw)"
  have two: "machine_steps r A m1 (m1\<lparr>m_fw := (m_fw m1)\<lparr>fw_fsm := f', fw_globals := g'\<rparr>\<rparr>)"
    by (rule fsm_pass_schedule [of r now tick1 tick2])
      (use assms(1) in \<open>simp_all add: m1_def telemetry_store_def idle_machine_def\<close>)
  define m2 where "m2 = m1\<lparr>m_fw := (m_fw m1)\<lparr>fw_fsm := f', fw_globals := g'\<rparr>\<rparr>"
  let ?w = "wire_frame PKT_TYPE_TELEMETRY (pkt_telemetry_bytes (telemetry_packet (snap ?t1) ?st ?fl))"
  let ?t2 = "?t1\<lparr>tx_buf := ?w @ drop 72 (tx_buf ?t1)\<rparr>" and ?g2 = "g'\<lparr>huart2_tx := huart2_tx g' @ [?w]\<rparr>"
  have lw: "length ?w = 72" by (simp add: len_simps)
  have "telemetry_turn r A ?stack (f', Telem_Faults ?st, ?t1, g', None) = (f', Telem_Build ?st ?fl, ?t1, g', None)"
    "telemetry_turn r A ?stack (f', Telem_Build ?st ?fl, ?t1, g', None) = (f', Telem_Sending 4, ?t2, g', Some ?w)"
    "telemetry_turn r A ?stack (f', Telem_Sending 4, ?t2, g', Some ?w) = (f', Telem_Read 4, ?t2, ?g2, None)"
    using telemetry_send [of ?t1 "snap ?t1" ?st ?fl] assms(2) lw law
    by (simp_all add: telemetry_micro_def TELEM_BLACKBOX_BURST_def)
  from telemetry_steps.lift_steps [of r A m2 "(f', Telem_Read 4, ?t2, ?g2, None)"] run(3) [OF this]
  have three: "machine_steps r A m2 (telemetry_store (f', Telem_Read 4, ?t2, ?g2, None) m2)"
    by (simp add: telemetry_view_def m2_def m1_def telemetry_store_def idle_machine_def holds_mutex_def)
  have "huart2_tx g' = huart2_tx ?g" by (rule task_fsm_pass_eqs(4) [OF assms(1)])
  moreover have "?w = w"
    by (simp add: w_def fsm_task_get_sensors_def fsm_task_get_state_def fsm_task_get_fault_flags_def)
  ultimately show ?thesis
    using rtranclp_trans [OF rtranclp_trans [OF one [folded m1_def] two [folded m2_def]] three]
    by (intro exI [of _ "telemetry_store (f', Telem_Read 4, ?t2, ?g2, None) m2"])
      (simp add: telemetry_store_def m2_def)
qed

section \<open>Properties\<close>

text \<open>C38: Records get lost between two tasks: while another task transmits, a pass of the telemetry task
  takes the oldest four records out of a readable flight recorder, is told that the UART is busy each
  time, and goes on; nothing was sent.\<close>

theorem busy_uart_loses_records:
  fixes r :: "('q, 'e) rtos"
  assumes "m_uart m = Some b" "telemetry_at m = Telem_Idle" "\<not> holds_mutex (fsm_at m)"
    and "bb_inv (g_blackbox (fw_globals (m_fw m)))" "bb_ready (g_blackbox (fw_globals (m_fw m)))"
    and law: "uart_law A"
  shows "\<exists>m'. machine_steps r A m m' \<and> telemetry_at m' = Telem_Idle \<and> m_uart m' = Some b \<and>
    huart2_tx (fw_globals (m_fw m')) = huart2_tx (fw_globals (m_fw m)) \<and>
    bb_stored (g_blackbox (fw_globals (m_fw m'))) =
      drop 4 (bb_stored (g_blackbox (fw_globals (m_fw m))))"
proof -
  let ?bb = "snd (drain blackbox_read 4 (g_blackbox (fw_globals (m_fw m))))"
  obtain t where "machine_steps r A m
      (m\<lparr>m_fw := (m_fw m)\<lparr>fw_telemetry := t, fw_globals := (fw_globals (m_fw m))\<lparr>g_blackbox := ?bb\<rparr>\<rparr>\<rparr>)"
    using telemetry_pass_drops [OF assms(1-3) law, of r] by blast
  then show ?thesis
    using assms(1,2) bb.drain_ready [OF assms(4,5), of 4]
    by (intro exI [of _ "m\<lparr>m_fw := (m_fw m)\<lparr>fw_telemetry := t,
          fw_globals := (fw_globals (m_fw m))\<lparr>g_blackbox := ?bb\<rparr>\<rparr>\<rparr>"]) simp
qed

text \<open>From power-up: the first report of the health task costs the boot record.\<close>

theorem busy_uart_loses_records_witness:
  "\<exists>m m' :: (sensor_data list, u32, nat) machine. machine_run list_rtos ready_uart (take SENSOR_QUEUE_LEN) m' \<and>
     machine_steps list_rtos ready_uart m m' \<and> bb_stored (g_blackbox (fw_globals (m_fw m))) \<noteq> [] \<and>
     bb_stored (g_blackbox (fw_globals (m_fw m'))) = [] \<and> huart2_tx (fw_globals (m_fw m')) = []"
proof -
  let ?bb = "g_blackbox (fw_globals example_firmware)"
  obtain a where bb: "?bb = log_all [a] (blackbox_init blackbox_zero)"
    and tx: "huart2_tx (fw_globals example_firmware) = []"
    and h: "last_report_ms (fw_health example_firmware) = 0" "length (health_tx_buf (fw_health example_firmware)) = 134"
    by (rule that)
      (simp_all add: example_firmware_def firmware_boot_def firmware_main_def health_init_def
        task_sensor_start_def proto_sizes Let_def)
  have inv: "bb_inv ?bb" and ready: "bb_ready ?bb"
    using bb.inv_pushes [of "blackbox_init blackbox_zero" "[a]"] log_all_ready [of "[a]" blackbox_zero] by (simp_all add: bb)
  have len: "length (bb_stored ?bb) = 1"
    using log_all_room [of "[a]" blackbox_zero] by (simp add: bb length_bb_stored)
  then have ne: "bb_stored ?bb \<noteq> []" by (metis list.size(3) zero_neq_one)
  obtain t e u where m: "machine_steps list_rtos ready_uart (idle_machine example_firmware)
    ((idle_machine example_firmware)\<lparr>m_fw := example_firmware\<lparr>fw_health := t,
       fw_globals := (fw_globals example_firmware)\<lparr>g_fault_flags := e\<rparr>\<rparr>,
       m_uart := Some u, health_at := Health_Sending 1000\<rparr>)" (is "machine_steps _ _ _ ?m")
    using health_report_begins [of 1000 example_firmware ready_uart list_rtos] h ready_uart_law by auto
  obtain m' where m': "machine_steps list_rtos ready_uart ?m m'"
      "huart2_tx (fw_globals (m_fw m')) = huart2_tx (fw_globals (m_fw ?m))"
      "bb_stored (g_blackbox (fw_globals (m_fw m'))) = drop 4 (bb_stored (g_blackbox (fw_globals (m_fw ?m))))"
    using busy_uart_loses_records [of ?m u ready_uart list_rtos] inv ready ready_uart_law
    by (auto simp: idle_machine_def holds_mutex_def)
  have run: "machine_run list_rtos ready_uart (take SENSOR_QUEUE_LEN) m'"
    by (rule machine_run_steps [OF m'(1) machine_run_steps [OF m example_machine_run]])
  show ?thesis
    by (rule exI [of _ ?m], rule exI [of _ m'])
      (use run m' len ne tx in \<open>auto simp: idle_machine_def\<close>)
qed

text \<open>C39: Telemetry may report what never was: if the state-machine task runs a pass between the calls
  with which the telemetry task collects its frame, the frame carries the sample and the state
  from before the pass with the fault byte from after it.\<close>

theorem telemetry_mixes_states:
  fixes r :: "('q, 'e) rtos"
  assumes "task_fsm_pass r now tick1 tick2 (fw_fsm fw, fw_globals fw) = (f', g')"
    and "length (tx_buf (fw_telemetry fw)) = 134"
    and law: "uart_law A"
  shows "\<exists>m. machine_steps r A (idle_machine fw) m \<and> fw_fsm (m_fw m) = f' \<and>
    huart2_tx (fw_globals (m_fw m)) = huart2_tx (fw_globals fw) @
      [wire_frame PKT_TYPE_TELEMETRY (pkt_telemetry_bytes (telemetry_packet
        (s_last_sensors (fw_fsm fw)) (current_state (s_fsm (fw_fsm fw)))
        (ucast (osEventFlagsGet r (g_fault_flags g')))))]"
  using telemetry_reads_around_pass [OF assms] .

theorem telemetry_mixes_states_witness:
  "\<exists>m :: (sensor_data list, u32, nat) machine.
     machine_steps list_rtos ready_uart (idle_machine (example_firmware\<lparr>fw_fsm := example_fsm_task FLIGHT_STATE_PREFLIGHT,
       fw_globals := example_globals [] 0\<rparr>)) m \<and>
     current_state (s_fsm (fw_fsm (m_fw m))) = FLIGHT_STATE_FAULT \<and>
     huart2_tx (fw_globals (m_fw m)) = [wire_frame PKT_TYPE_TELEMETRY (pkt_telemetry_bytes
       (telemetry_packet sensor_data_zero FLIGHT_STATE_PREFLIGHT 7))]"
proof -
  let ?fw = "example_firmware\<lparr>fw_fsm := example_fsm_task FLIGHT_STATE_PREFLIGHT, fw_globals := example_globals [] 0\<rparr>"
  obtain f' g' where p: "task_fsm_pass list_rtos 20 20 20 (fw_fsm ?fw, fw_globals ?fw) = (f', g')"
    by (metis surj_pair)
  have s: "pass_sample list_rtos (fw_fsm ?fw) (g_sensor_queue (fw_globals ?fw)) = sensor_data_zero"
    by (simp add: pass_sample_def list_rtos_def example_fsm_task_def)
  have "gps_lost sensor_data_zero" "batt_low sensor_data_zero" "imu_frozen sensor_data_zero"
    by code_simp+
  then have f: "evaluate_faults sensor_data_zero 20 = 7" by (simp add: evaluate_faults_cases)
  have flags: "osEventFlagsGet list_rtos (g_fault_flags g') = 7"
    using task_fsm_pass_flags [OF p list_rtos_flags] unfolding s f .
  have "current_state (s_fsm f') = FLIGHT_STATE_FAULT"
    unfolding task_fsm_pass_eqs(2) [OF p] s f
    by (simp add: fsm_tick_def do_transition_eq moved_ctx_def guard_any_to_fault_def example_fsm_task_def ctx_in_def)
  moreover have "length (tx_buf (fw_telemetry ?fw)) = 134"
    by (simp add: example_firmware_def firmware_boot_def firmware_main_def task_sensor_start_def proto_sizes Let_def)
  ultimately show ?thesis
    using telemetry_mixes_states [OF p _ ready_uart_law] flags
    by (auto simp: example_fsm_task_def ctx_in_def)
qed

end
