(* ===== verification/PreemptionProgress.thy ===== *)
theory PreemptionProgress
  imports PreemptionSafety
begin

text \<open>
  No task gets stuck: the rank of a program counter bounds the pieces its pass still has, every
  piece of the task lowers it, and the mutex is held over pieces of the state-machine task only.  So
  from every state of \<open>Preemption\<close> all tasks can be brought back to their waits, in a bounded number
  of steps.  \<open>ranked_task\<close> extends \<open>task_view\<close> by the rank.
\<close>

section \<open>Ranks\<close>

fun sensor_rank :: "sensor_pc \<Rightarrow> nat" where
  "sensor_rank Sensor_Idle = 0"
| "sensor_rank (Sensor_Log warned) = 1"
| "sensor_rank Sensor_Check = 2"
| "sensor_rank Sensor_Sending = 3"
| "sensor_rank Sensor_Ack = 4"
| "sensor_rank (Sensor_Put parsed) = 3"
| "sensor_rank (Sensor_Drop parsed) = 4"
| "sensor_rank (Sensor_Count parsed) = 5"
| "sensor_rank (Sensor_Store parsed) = 6"
| "sensor_rank (Sensor_Payload len bs) = 7 + (72 - length bs)"
| "sensor_rank Sensor_Length = 80"
| "sensor_rank Sensor_Switch = 81"

fun fsm_rank :: "fsm_pc \<Rightarrow> nat" where
  "fsm_rank Fsm_Idle = 0"
| "fsm_rank (Fsm_Log new prev) = 1"
| "fsm_rank (Fsm_Tick now new prev) = 2"
| "fsm_rank (Fsm_Clear now new prev) = 3"
| "fsm_rank (Fsm_Raise now new prev) = 4"
| "fsm_rank (Fsm_Get now new) = 5"
| "fsm_rank (Fsm_Acquire fresh) = 6"

fun telemetry_rank :: "telemetry_pc \<Rightarrow> nat" where
  "telemetry_rank Telem_Idle = 0"
| "telemetry_rank (Telem_Read n) = 3 * n + 1"
| "telemetry_rank (Telem_Sending n) = 3 * n + 2"
| "telemetry_rank (Telem_Record n rec) = 3 * n + 3"
| "telemetry_rank (Telem_Build state faults) = 15"
| "telemetry_rank (Telem_Faults state) = 16"
| "telemetry_rank Telem_State = 17"

fun health_rank :: "health_pc \<Rightarrow> nat" where
  "health_rank Health_Idle = 0"
| "health_rank (Health_Log state) = 1"
| "health_rank Health_State = 2"
| "health_rank (Health_Due now) = 3"
| "health_rank (Health_Sending now) = 4"
| "health_rank (Health_Snapshot l) = 5"
| "health_rank (Health_Comms l last_rx) = 6"
| "health_rank (Health_Last_Rx l) = 7"

lemma rank_idle [simp]:
  "sensor_rank pc1 = 0 \<longleftrightarrow> pc1 = Sensor_Idle" "fsm_rank pc2 = 0 \<longleftrightarrow> pc2 = Fsm_Idle"
  "telemetry_rank pc3 = 0 \<longleftrightarrow> pc3 = Telem_Idle" "health_rank pc4 = 0 \<longleftrightarrow> pc4 = Health_Idle"
proof -
  show "sensor_rank pc1 = 0 \<longleftrightarrow> pc1 = Sensor_Idle" by (cases pc1) simp_all
  show "fsm_rank pc2 = 0 \<longleftrightarrow> pc2 = Fsm_Idle" by (cases pc2) simp_all
  show "telemetry_rank pc3 = 0 \<longleftrightarrow> pc3 = Telem_Idle" by (cases pc3) simp_all
  show "health_rank pc4 = 0 \<longleftrightarrow> pc4 = Health_Idle" by (cases pc4) simp_all
qed

text \<open>Every piece but the start of a pass lowers the rank.\<close>

lemma sensor_micro_rank:
  "sensor_micro r A now (pc, t, g, u) = (pc', t', g', u') \<Longrightarrow> pc \<noteq> Sensor_Idle \<Longrightarrow>
   sensor_rank pc' < sensor_rank pc"
  by (cases pc) (auto simp: sensor_micro_def Let_def split: if_splits option.splits prod.splits)

lemma fsm_micro_rank:
  "fsm_micro r now (pc, t, g) = (pc', t', g') \<Longrightarrow> pc \<noteq> Fsm_Idle \<Longrightarrow> fsm_rank pc' < fsm_rank pc"
  by (cases pc) (auto simp: fsm_micro_def Let_def split: prod.splits)

lemma telemetry_micro_rank:
  "telemetry_micro r A stack f (pc, t, g, u) = (pc', t', g', u') \<Longrightarrow> pc \<noteq> Telem_Idle \<Longrightarrow>
   telemetry_rank pc' < telemetry_rank pc"
  by (cases pc)
    (auto simp: telemetry_micro_def Let_def TELEM_BLACKBOX_BURST_def
      split: prod.splits nat.splits option.splits if_splits)

lemma health_micro_rank:
  "health_micro r A hwm heap tick sensor f (pc, t, g, u) = (pc', t', g', u') \<Longrightarrow> pc \<noteq> Health_Idle \<Longrightarrow>
   health_rank pc' < health_rank pc"
  by (cases pc) (auto simp: health_micro_def Let_def split: prod.splits if_splits)

text \<open>Where a pass begins, its rank is at most this.\<close>

lemma rank_bounds: "sensor_rank pc1 \<le> 81" "fsm_rank pc2 \<le> 6" "health_rank pc4 \<le> 7"
proof -
  show "sensor_rank pc1 \<le> 81" by (cases pc1) simp_all
  show "fsm_rank pc2 \<le> 6" by (cases pc2) simp_all
  show "health_rank pc4 \<le> 7" by (cases pc4) simp_all
qed

lemma telemetry_rank_bound:
  assumes "telemetry_micro r A stack f (pc, t, g, u) = (pc', t', g', u')" "telemetry_rank pc \<le> 17"
  shows "telemetry_rank pc' \<le> 17"
proof (cases "pc = Telem_Idle")
  case True
  then show ?thesis using assms(1) by (auto simp: telemetry_micro_def)
next
  case False
  from telemetry_micro_rank [OF assms(1) this] assms(2) show ?thesis by simp
qed

lemma machine_run_rank: "machine_run r A queue m \<Longrightarrow> telemetry_rank (telemetry_at m) \<le> 17"
proof (induction rule: machine_run.induct)
  case (step m m')
  from step(2,3) show ?case by cases (auto dest: telemetry_rank_bound)
qed (simp add: idle_machine_def)

section \<open>A task can finish its pass\<close>

locale ranked_task = task_view step view store micro inputs blocked
  for step :: "'m \<Rightarrow> 'm \<Rightarrow> bool" and view :: "'m \<Rightarrow> 'x" and store :: "'x \<Rightarrow> 'm \<Rightarrow> 'm"
    and micro :: "'i \<Rightarrow> 'x \<Rightarrow> 'x" and inputs :: "'i set" and blocked :: "'m \<Rightarrow> bool" +
  fixes rank :: "'x \<Rightarrow> nat"
  assumes some_input: "inputs \<noteq> {}"
    and rank_micro: "i \<in> inputs \<Longrightarrow> 0 < rank x \<Longrightarrow> rank (micro i x) < rank x"
begin

lemma finish_pass:
  assumes "\<not> blocked m"
  shows "\<exists>n x. n \<le> rank (view m) \<and> rank x = 0 \<and> (step ^^ n) m (store x m)"
  using assms
proof (induction "rank (view m)" arbitrary: m rule: less_induct)
  case less
  show ?case
  proof (cases "rank (view m)")
    case 0
    then show ?thesis by (intro exI [of _ 0] exI [of _ "view m"]) (simp add: store_view)
  next
    case (Suc k)
    obtain i where i: "i \<in> inputs" using some_input by blast
    let ?m = "store (micro i (view m)) m"
    have lower: "rank (view ?m) < rank (view m)" using rank_micro [OF i, of "view m"] Suc by (simp add: view_store)
    with less.hyps [of ?m] less.prems obtain n x where
      n: "n \<le> rank (view ?m)" "rank x = 0" "(step ^^ n) ?m (store x ?m)"
      by (auto simp: blocked_store)
    from relpowp_Suc_I2 [OF micro_step [OF less.prems i] n(3)] n lower show ?thesis
      by (intro exI [of _ "Suc n"] exI [of _ x]) (simp add: store_store)
  qed
qed

lemma finish_within:
  assumes "\<not> blocked m" "rank (view m) \<le> b"
  obtains n x where "n \<le> b" "rank x = 0" "(step ^^ n) m (store x m)"
  using finish_pass [OF assms(1)] assms(2) le_trans by metis

end

interpretation sensor_rank: ranked_task "machine_step r A" sensor_view sensor_store "sensor_micro r A"
    UNIV "\<lambda>m. False" "\<lambda>x. sensor_rank (fst x)" for r :: "('q, 'e) rtos" and A :: "uart \<Rightarrow> bool"
proof
  fix now :: u32 and x :: "sensor_pc \<times> sensor_task \<times> ('q, 'e) globals \<times> uart"
  assume "0 < sensor_rank (fst x)"
  then show "sensor_rank (fst (sensor_micro r A now x)) < sensor_rank (fst x)"
    by (cases x; cases "sensor_micro r A now x") (auto dest!: sensor_micro_rank)
qed simp

interpretation fsm_rank: ranked_task "machine_step r A" fsm_view fsm_store "fsm_micro r"
    UNIV "\<lambda>m. False" "\<lambda>x. fsm_rank (fst x)" for r :: "('q, 'e) rtos" and A :: "uart \<Rightarrow> bool"
proof
  fix now :: u32 and x :: "fsm_pc \<times> fsm_task \<times> ('q, 'e) globals"
  assume "0 < fsm_rank (fst x)"
  then show "fsm_rank (fst (fsm_micro r now x)) < fsm_rank (fst x)"
    by (cases x; cases "fsm_micro r now x") (auto dest!: fsm_micro_rank)
qed simp

interpretation telemetry_rank: ranked_task "machine_step r A" telemetry_view telemetry_store
    "telemetry_turn r A" "{stack. length stack = 54}" "\<lambda>m. holds_mutex (fsm_at m)"
    "\<lambda>x. telemetry_rank (fst (snd x))" for r :: "('q, 'e) rtos" and A :: "uart \<Rightarrow> bool"
proof
  fix stack :: "byte list" and x :: "fsm_task \<times> telemetry_pc \<times> telemetry_task \<times> ('q, 'e) globals \<times> uart"
  assume "0 < telemetry_rank (fst (snd x))"
  then show "telemetry_rank (fst (snd (telemetry_turn r A stack x))) < telemetry_rank (fst (snd x))"
    by (cases x; cases "telemetry_micro r A stack (fst x) (snd x)")
      (auto simp: telemetry_turn_def dest!: telemetry_micro_rank)
next
  have "replicate 54 0 \<in> {stack :: byte list. length stack = 54}" by simp
  then show "{stack :: byte list. length stack = 54} \<noteq> {}" by blast
qed

interpretation health_rank: ranked_task "machine_step r A" health_view health_store
    "health_turn r A" UNIV "\<lambda>m. holds_mutex (fsm_at m)" "\<lambda>x. health_rank (fst (snd x))"
    for r :: "('q, 'e) rtos" and A :: "uart \<Rightarrow> bool"
proof
  fix i :: "('h \<Rightarrow> u32) \<times> u32 \<times> u32"
    and x :: "(sensor_task \<times> fsm_task) \<times> health_pc \<times> 'h health_task \<times> ('q, 'e) globals \<times> uart"
  assume "0 < health_rank (fst (snd x))"
  then show "health_rank (fst (snd (health_turn r A i x))) < health_rank (fst (snd x))"
    by (cases i; cases x; cases "health_micro r A (fst i) (fst (snd i)) (snd (snd i)) (fst (fst x)) (snd (fst x)) (snd x)")
      (auto simp: health_turn_def dest!: health_micro_rank)
qed simp

text \<open>What the end of one task's pass leaves of the others.\<close>

lemma store_pcs [simp]:
  "sensor_at (sensor_store x m) = fst x" "fsm_at (sensor_store x m) = fsm_at m"
  "telemetry_at (sensor_store x m) = telemetry_at m" "health_at (sensor_store x m) = health_at m"
  "sensor_at (fsm_store y m) = sensor_at m" "fsm_at (fsm_store y m) = fst y"
  "telemetry_at (fsm_store y m) = telemetry_at m" "health_at (fsm_store y m) = health_at m"
  "sensor_at (telemetry_store z m) = sensor_at m" "fsm_at (telemetry_store z m) = fsm_at m"
  "telemetry_at (telemetry_store z m) = fst (snd z)" "health_at (telemetry_store z m) = health_at m"
  "sensor_at (health_store w m) = sensor_at m" "fsm_at (health_store w m) = fsm_at m"
  "telemetry_at (health_store w m) = telemetry_at m" "health_at (health_store w m) = fst (snd w)"
  by (simp_all add: sensor_store_def fsm_store_def telemetry_store_def health_store_def split_beta Let_def)

lemma all_idle:
  assumes "machine_inv queue m" "sensor_at m = Sensor_Idle" "fsm_at m = Fsm_Idle"
    "telemetry_at m = Telem_Idle" "health_at m = Health_Idle"
  shows "m = idle_machine (m_fw m)"
proof -
  have "m_uart m = None"
    using assms by (simp add: machine_inv_def senders_def sensor_sends_def telemetry_sends_def health_sends_def)
  with assms(2-) show ?thesis by (cases m) (simp add: idle_machine_def)
qed

lemma machine_relpow_run:
  "(machine_step r A ^^ n) m m' \<Longrightarrow> machine_run r A queue m \<Longrightarrow> machine_run r A queue m'"
  using machine_run_steps relpowp_imp_rtranclp by metis

section \<open>Properties\<close>

text \<open>C17: No task of the firmware gets stuck, however the tasks have preempted each other: from every
  reachable state at most 111 more pieces bring all four tasks back to the wait for their next
  period, with the UART free and the mutex released.\<close>

theorem tasks_finish_their_passes:
  fixes r :: "('q, 'e) rtos" and m :: "('q, 'e, 'h) machine"
  assumes "machine_run r A queue m" "queue_laws r queue"
    and law: "uart_law A"
  shows "\<exists>n fw. n \<le> 111 \<and> (machine_step r A ^^ n) m (idle_machine fw)"
proof -
  obtain n1 x1 where 1: "n1 \<le> 6" "fst x1 = Fsm_Idle" "(machine_step r A ^^ n1) m (fsm_store x1 m)"
    by (rule fsm_rank.finish_within [of m 6 r A]) (auto simp: fsm_view_def rank_bounds intro: that)
  define m1 where "m1 = fsm_store x1 m"
  obtain n2 x2 where 2: "n2 \<le> 81" "fst x2 = Sensor_Idle" "(machine_step r A ^^ n2) m1 (sensor_store x2 m1)"
    by (rule sensor_rank.finish_within [of m1 81 r A]) (auto simp: sensor_view_def rank_bounds intro: that)
  define m2 where "m2 = sensor_store x2 m1"
  have f2: "fsm_at m2 = Fsm_Idle" "sensor_at m2 = Sensor_Idle" "telemetry_at m2 = telemetry_at m"
    using 1(2) 2(2) by (simp_all add: m1_def m2_def)
  obtain n3 x3 where 3: "n3 \<le> 17" "fst (snd x3) = Telem_Idle" "(machine_step r A ^^ n3) m2 (telemetry_store x3 m2)"
    by (rule telemetry_rank.finish_within [of m2 17 r A])
      (use f2 machine_run_rank [OF assms(1)] in \<open>auto simp: telemetry_view_def holds_mutex_def intro: that\<close>)
  define m3 where "m3 = telemetry_store x3 m2"
  have f3: "fsm_at m3 = Fsm_Idle" "sensor_at m3 = Sensor_Idle" "telemetry_at m3 = Telem_Idle"
    using f2 3(2) by (simp_all add: m3_def)
  obtain n4 x4 where 4: "n4 \<le> 7" "fst (snd x4) = Health_Idle" "(machine_step r A ^^ n4) m3 (health_store x4 m3)"
    by (rule health_rank.finish_within [of m3 7 r A])
      (use f3 in \<open>auto simp: health_view_def holds_mutex_def rank_bounds intro: that\<close>)
  define m4 where "m4 = health_store x4 m3"
  have steps: "(machine_step r A ^^ (n1 + n2 + n3 + n4)) m m4"
    using 1(3) 2(3) 3(3) 4(3) unfolding m1_def [symmetric] m2_def [symmetric] m3_def [symmetric] m4_def [symmetric]
    by (blast intro: relpowp_trans)
  have "machine_inv queue m4"
    by (rule machine_run_inv [OF machine_relpow_run [OF steps assms(1)] assms(2) law])
  then have "m4 = idle_machine (m_fw m4)"
    using f3 4(2) by (intro all_idle) (simp_all add: m4_def)
  with steps 1(1) 2(1) 3(1) 4(1) show ?thesis
    by (intro exI [of _ "n1 + n2 + n3 + n4"] exI [of _ "m_fw m4"]) simp
qed

theorem tasks_finish_their_passes_witness:
  "\<exists>m :: (sensor_data list, u32, nat) machine. machine_run list_rtos ready_uart (take SENSOR_QUEUE_LEN) m \<and>
     sensor_at m = Sensor_Check \<and>
     (\<exists>n fw. n \<le> 111 \<and> (machine_step list_rtos ready_uart ^^ n) m (idle_machine fw))"
proof -
  note run = example_run_within_pass
  from tasks_finish_their_passes [OF run list_rtos_queue ready_uart_law] run show ?thesis
    by (intro exI [of _ "(idle_machine example_firmware)\<lparr>sensor_at := Sensor_Check\<rparr>"]) simp
qed

end
