(* ===== verification/Timing.thy ===== *)
theory Timing
  imports FirmwareStart
begin

text \<open>
  The timing the firmware's constants promise: the periods of the task loops (\<open>task_*.c\<close>), the
  watchdog that \<open>main.c\<close> starts and \<open>task_health.c\<close> feeds, and the time the transmissions take on
  the wire.  Time is a number of milliseconds since the kernel was started, a kernel tick its
  remainder modulo \<open>2 ^ 32\<close>.  What the kernel does in \<open>osDelayUntil\<close> is a parameter: the time at
  which a call returns; \<open>delay_law\<close> is its documented behaviour, with a bound on how late a task gets
  to run.  How long the passes take is a parameter as well.
\<close>

section \<open>The periods of the tasks\<close>

definition SENSOR_TASK_PERIOD_MS :: u32 where "SENSOR_TASK_PERIOD_MS = 10"
definition FSM_TASK_PERIOD_MS :: u32 where "FSM_TASK_PERIOD_MS = 20"
definition TELEM_PERIOD_MS :: u32 where "TELEM_PERIOD_MS = 100"
definition HEALTH_PERIOD_MS :: u32 where "HEALTH_PERIOD_MS = 200"

text \<open>\<open>osDelayUntil\<close> waits until the tick it is given, by the difference to the tick count of the call;
  for a tick that has passed (a difference of 0 or of at least \<open>2 ^ 31\<close>) it returns an error at once.
  \<open>late\<close> bounds the time until the task runs again.\<close>

definition delay_law :: "nat \<Rightarrow> (nat \<Rightarrow> u32 \<Rightarrow> nat) \<Rightarrow> bool" where
  "delay_law late delay \<longleftrightarrow>
     (\<forall>now ticks. let d = unat (ticks - of_nat now); until = (if d < 2 ^ 31 then now + d else now)
      in until \<le> delay now ticks \<and> delay now ticks \<le> until + late)"

text \<open>The loops of the four tasks: \<open>last_wake\<close> is the tick count read after the wait, the first one is
  read at \<open>start\<close>.  Pass \<open>k\<close> takes \<open>busy k\<close>; pass 0 is the way to the first wait.\<close>

fun task_wake :: "u32 \<Rightarrow> (nat \<Rightarrow> u32 \<Rightarrow> nat) \<Rightarrow> (nat \<Rightarrow> nat) \<Rightarrow> nat \<Rightarrow> nat \<Rightarrow> nat" where
  "task_wake period delay busy start 0 = start"
| "task_wake period delay busy start (Suc k) =
     (let wake = task_wake period delay busy start k; last_wake = of_nat wake :: u32
      in delay (wake + busy k) (last_wake + period))"

section \<open>The watchdog\<close>

text \<open>The counter starts at the reload value and counts down with the 32 kHz clock divided by the
  prescaler, so that \<open>Reload + 1\<close> counts after the last refresh it resets the processor.  The factor
  that a named prescaler stands for is the HAL's.\<close>

definition iwdg_law :: "(string \<Rightarrow> nat) \<Rightarrow> bool" where
  "iwdg_law divider \<longleftrightarrow> divider ''IWDG_PRESCALER_256'' = 256"

definition iwdg_timeout_ms :: "(string \<Rightarrow> nat) \<Rightarrow> iwdg_settings \<Rightarrow> nat" where
  "iwdg_timeout_ms divider hiwdg =
     (unat (iwdg_Reload hiwdg) + 1) * divider (iwdg_Prescaler hiwdg) * 1000 div 32000"

fun watchdog_quiet :: "nat \<Rightarrow> nat \<Rightarrow> nat list \<Rightarrow> bool" where
  "watchdog_quiet timeout fed [] = True"
| "watchdog_quiet timeout fed (t # ts) \<longleftrightarrow> t - fed < timeout \<and> watchdog_quiet timeout t ts"

section \<open>The wire\<close>

text \<open>A byte takes a start bit, eight data bits and a stop bit.\<close>

definition on_wire_within :: "uart_settings \<Rightarrow> nat \<Rightarrow> nat \<Rightarrow> bool" where
  "on_wire_within huart len ms \<longleftrightarrow> 10 * len * 1000 \<le> ms * unat (uart_BaudRate huart)"

text \<open>The timeout each sender gives \<open>HAL_UART_Transmit\<close>, by the type of its frames.\<close>

definition TELEM_TX_TIMEOUT_MS :: nat where "TELEM_TX_TIMEOUT_MS = 20"
definition ack_tx_timeout_ms :: nat where "ack_tx_timeout_ms = 10"
definition health_tx_timeout_ms :: nat where "health_tx_timeout_ms = 20"

definition tx_timeout_ms :: "byte list \<Rightarrow> nat" where
  "tx_timeout_ms b =
     (if b ! 1 = PKT_TYPE_HEARTBEAT_ACK then ack_tx_timeout_ms
      else if b ! 1 = PKT_TYPE_HEALTH_REPORT then health_tx_timeout_ms else TELEM_TX_TIMEOUT_MS)"

section \<open>Lemmas\<close>

lemma delay_returns:
  assumes "delay_law late delay" "unat (period :: u32) < 2 ^ 31" "busy < 2 ^ 31"
  shows "max (w + unat period) (w + busy) \<le> delay (w + busy) (of_nat w + period)"
    "delay (w + busy) (of_nat w + period) \<le> max (w + unat period) (w + busy) + late"
proof -
  have t: "(of_nat w + period) - of_nat (w + busy) = period - (of_nat busy :: u32)" by simp
  have b: "unat (of_nat busy :: u32) = busy" using assms(3) by (simp add: unat_of_nat)
  have "(let d = unat (period - (of_nat busy :: u32)) in if d < 2 ^ 31 then w + busy + d else w + busy) =
      max (w + unat period) (w + busy)"
  proof (cases "busy \<le> unat period")
    case True
    then have "(of_nat busy :: u32) \<le> period" by (simp add: word_le_nat_alt b)
    then have "unat (period - (of_nat busy :: u32)) = unat period - busy" by (simp add: unat_sub b)
    with True assms(2) show ?thesis by (auto simp: Let_def max_def)
  next
    case False
    have "\<not> unat (period - (of_nat busy :: u32)) < 2 ^ 31"
      using False assms(2,3) by (simp add: unat_sub_if_size b word_size)
    with False show ?thesis by (simp add: Let_def)
  qed
  with assms(1) [unfolded delay_law_def, rule_format, of "of_nat w + period" "w + busy", unfolded t]
  show "max (w + unat period) (w + busy) \<le> delay (w + busy) (of_nat w + period)"
    "delay (w + busy) (of_nat w + period) \<le> max (w + unat period) (w + busy) + late"
    by (metis (no_types, lifting))+
qed

text \<open>The time between two wake-ups is the period, or the pass if it takes longer, and the lateness.\<close>

lemma wake_gap:
  assumes "delay_law late delay" "unat period < 2 ^ 31" "busy k < 2 ^ 31"
  shows "task_wake period delay busy start k + max (unat period) (busy k) \<le> task_wake period delay busy start (Suc k)"
    "task_wake period delay busy start (Suc k) - task_wake period delay busy start k \<le> max (unat period) (busy k) + late"
  using delay_returns [OF assms, of "task_wake period delay busy start k"] by (auto simp: Let_def)

text \<open>The rate of a task whose passes fit into its period: never more than one pass per period, and
  every pass that is woken late delays all later ones.\<close>

lemma wake_drift:
  assumes "delay_law late delay" "unat period < 2 ^ 31" "\<And>k. busy k \<le> unat period"
  shows "start + n * unat period \<le> task_wake period delay busy start n"
    "task_wake period delay busy start n \<le> start + n * (unat period + late)"
proof (induction n)
  case (Suc n)
  have "busy n < 2 ^ 31" using assms(2) assms(3) [of n] by (rule le_less_trans [rotated])
  note g = wake_gap [where start = start and busy = busy and k = n, OF assms(1,2) this]
  { case 1
    then show ?case using g(1) assms(3) [of n] Suc(1) by (simp del: task_wake.simps)
  next
    case 2
    then show ?case using g assms(3) [of n] Suc(2) by (simp del: task_wake.simps) }
qed simp_all

lemma watchdog_quiet_gaps:
  assumes "f (Suc m) - fed < timeout" "\<And>k. m < k \<Longrightarrow> f (Suc k) - f k < timeout"
  shows "watchdog_quiet timeout fed (map f [Suc m..<n])"
  using assms
proof (induction "n - Suc m" arbitrary: m fed)
  case (Suc d)
  then have c: "[Suc m..<n] = Suc m # [Suc (Suc m)..<n]" by (simp add: upt_conv_Cons)
  have "watchdog_quiet timeout (f (Suc m)) (map f [Suc (Suc m)..<n])"
    by (rule Suc.hyps(1)) (use Suc.hyps(2) Suc.prems(2) in auto)
  with Suc.prems(1) show ?case by (simp add: c)
qed simp

lemma iwdg_settings_timeout:
  "MX_IWDG_Init hal = Some hiwdg \<Longrightarrow> iwdg_law divider \<Longrightarrow> iwdg_timeout_ms divider hiwdg = 1008"
  by (auto simp: MX_IWDG_Init_def Error_Handler_def iwdg_law_def iwdg_timeout_ms_def Let_def split: if_splits)

text \<open>And a health task that is held up for the whole period does not save the firmware.\<close>

lemma watchdog_quiet_between: "watchdog_quiet timeout fed (xs @ t # t' # ys) \<Longrightarrow> t' - t < timeout"
  by (induction xs arbitrary: fed) auto

lemma watchdog_resets:
  assumes "MX_IWDG_Init hal = Some hiwdg" "iwdg_law divider" "delay_law late delay"
    and "1008 \<le> busy (Suc k)" "busy (Suc k) < 2 ^ 31"
  shows "\<not> watchdog_quiet (iwdg_timeout_ms divider hiwdg) boot
    (map (task_wake HEALTH_PERIOD_MS delay busy start) [1..<k + 3])"
proof -
  let ?w = "task_wake HEALTH_PERIOD_MS delay busy start"
  have "[1..<k + 3] = [1..<Suc k] @ [Suc k, Suc (Suc k)]"
    by (simp add: numeral_3_eq_3)
  moreover have "\<not> ?w (Suc (Suc k)) - ?w (Suc k) < 1008"
    using wake_gap(1) [where busy = busy and k = "Suc k", OF assms(3) _ assms(5), of HEALTH_PERIOD_MS start] assms(4)
    by (simp add: HEALTH_PERIOD_MS_def del: task_wake.simps)
  ultimately show ?thesis
    using watchdog_quiet_between [of 1008 boot "map ?w [1..<Suc k]" "?w (Suc k)" "?w (Suc (Suc k))" "[]"]
    by (auto simp: iwdg_settings_timeout [OF assms(1,2)] simp del: task_wake.simps upt_Suc)
qed

text \<open>What one pass of a task puts on the wire.\<close>

lemma fits_timeout:
  assumes "MX_USART2_UART_Init hal = Some huart2" "length b \<le> 72"
  shows "on_wire_within huart2 (length b) (tx_timeout_ms b)"
proof -
  have "uart_BaudRate huart2 = 115200"
    using assms(1) by (auto simp: MX_USART2_UART_Init_def Error_Handler_def Let_def split: if_splits)
  then show ?thesis using assms(2)
    by (simp add: on_wire_within_def tx_timeout_ms_def TELEM_TX_TIMEOUT_MS_def
        ack_tx_timeout_ms_def health_tx_timeout_ms_def)
qed

lemma sensor_pass_sends:
  assumes "task_sensor_pass r now1 now tick (t, g) = (t', g')"
  shows "huart2_tx g' = huart2_tx g \<or> huart2_tx g' = huart2_tx g @ [heartbeat_ack]"
proof (cases "s_byte_ready t")
  case False
  with assms show ?thesis by (auto simp: task_sensor_pass_def Let_def split: if_splits)
next
  case True
  obtain t1 g1 where h: "handle_frame r now1 (rx_frame (s_rx_ctx t)) (t\<lparr>s_byte_ready := False\<rparr>, g) = (t1, g1)"
    by (metis surj_pair)
  have "huart2_tx g' = huart2_tx g1"
    using assms True unfolding task_sensor_pass_def fst_conv snd_conv h
    by (auto simp: Let_def h split: if_splits)
  moreover have "huart2_tx g1 = huart2_tx g \<or> huart2_tx g1 = huart2_tx g @ [heartbeat_ack]"
    using h by (auto simp: handle_frame_def Let_def split: if_splits option.splits)
  ultimately show ?thesis by simp
qed

lemma drain_length: "length (fst (drain pop n s)) \<le> n"
  by (induction pop n s rule: drain.induct) (auto split: prod.splits option.splits)

text \<open>A pass sends frames of at most 72 bytes, at most 288 together.\<close>

definition sends_little :: "byte list list \<Rightarrow> byte list list \<Rightarrow> bool" where
  "sends_little tx tx' \<longleftrightarrow>
     (\<exists>bs. tx' = tx @ bs \<and> (\<forall>b \<in> set bs. length b \<le> 72) \<and> sum_list (map length bs) \<le> 288)"

lemma sends_little_none [simp]: "sends_little tx tx"
  by (simp add: sends_little_def)

lemma sends_little_one: "length b \<le> 72 \<Longrightarrow> sends_little tx (tx @ [b])"
  by (simp add: sends_little_def)

lemma telemetry_sends_little:
  assumes "bb_inv (g_blackbox g)" "length stack = 54" "length (tx_buf t) = 134"
    and pass: "task_telemetry_pass r stack f (t, g) = (t', g')"
  shows "sends_little (huart2_tx g) (huart2_tx g')"
proof -
  let ?rs = "fst (drain blackbox_read 4 (g_blackbox g))"
  have l: "\<forall>b \<in> set (map record_frame ?rs). length b = 54"
    using drain_records_ok [OF assms(1)] length_record_frame by auto
  then have "map length (map record_frame ?rs) = replicate (length ?rs) 54"
    by (intro nth_equalityI) (simp_all add: nth_mem)
  then have "sum_list (map length (map record_frame ?rs)) \<le> 216"
    using drain_length [of blackbox_read 4 "g_blackbox g"] by (simp only: sum_list_replicate) simp
  with l show ?thesis
    unfolding task_telemetry_pass_eq(1) [OF assms] sends_little_def
    by - (rule exI, rule conjI, rule refl, simp add: len_simps)
qed

lemma fw_pass_sends_little:
  assumes "fw_pass r fw fw'" "fw_inv queue fw"
  shows "sends_little (huart2_tx (fw_globals fw)) (huart2_tx (fw_globals fw'))"
  using assms(1)
proof cases
  case (sensor now1 now tick t g)
  have "length heartbeat_ack \<le> 72" by (simp add: heartbeat_ack_eq len_simps)
  with sensor sensor_pass_sends [OF sensor(2)] sends_little_one show ?thesis by auto
next
  case (fsm now tick1 tick2 t g)
  with task_fsm_pass_eqs(4) [OF fsm(2)] show ?thesis by simp
next
  case (telemetry stack t g)
  with assms(2) telemetry_sends_little [OF _ telemetry(2) _ telemetry(3)] show ?thesis
    by (simp add: fw_inv_def globals_ok_def)
next
  case (health hwm heap now tick t g)
  have "length (health_tx_buf (fw_health fw)) = 134" using assms(2) by (simp add: fw_inv_def)
  from health_pass_reports [OF this health(2)] health(1) show ?thesis
    by (auto simp: sends_little_one len_simps split: if_splits)
qed

section \<open>Properties\<close>

text \<open>C29: The watchdog never resets a healthy firmware: if the health task starts soon enough after the
  watchdog, its passes take at most \<open>b\<close> and it runs at most \<open>late\<close> after its time, and all this
  stays below the 1008 ms of the settings, then no two refreshes are a watchdog period apart, for
  any number of passes and across the wrap-around of the tick count.\<close>

theorem watchdog_is_fed:
  assumes "MX_IWDG_Init hal = Some hiwdg" "iwdg_law divider"
    and "delay_law late delay" "\<forall>k. busy k \<le> b" "boot \<le> start"
    and "start - boot + max 200 b + late < 1008"
  shows "watchdog_quiet (iwdg_timeout_ms divider hiwdg) boot
    (map (task_wake HEALTH_PERIOD_MS delay busy start) [1..<n])"
proof -
  let ?w = "task_wake HEALTH_PERIOD_MS delay busy start"
  note t = iwdg_settings_timeout [OF assms(1,2)]
  have p: "unat HEALTH_PERIOD_MS = 200" by (simp add: HEALTH_PERIOD_MS_def)
  have b: "busy k \<le> b" "busy k < 2 ^ 31" for k using assms(4,6) by (auto intro: le_less_trans)
  have g: "?w (Suc k) - ?w k \<le> max 200 b + late" for k
    using wake_gap(2) [OF assms(3), of HEALTH_PERIOD_MS busy k start] b(1) [of k] b(2) [of k] unfolding p by simp
  have "?w 1 - boot < 1008" using g [of 0] assms(5,6) by simp
  moreover have "?w (Suc k) - ?w k < 1008" for k using g [of k] assms(6) by simp
  ultimately show ?thesis unfolding t using watchdog_quiet_gaps [of ?w 0 boot 1008 n] by simp
qed

text \<open>A kernel that wakes every task one tick after its time.\<close>

definition example_delay :: "nat \<Rightarrow> u32 \<Rightarrow> nat" where
  "example_delay now ticks =
     (let d = unat (ticks - of_nat now) in (if d < 2 ^ 31 then now + d else now) + 1)"

lemma example_delay_law: "delay_law 1 example_delay"
  by (simp add: delay_law_def example_delay_def Let_def)

theorem watchdog_is_fed_witness:
  "\<exists>hiwdg. MX_IWDG_Init (\<lambda>s. HAL_OK) = Some hiwdg \<and> watchdog_quiet (iwdg_timeout_ms (\<lambda>s. 256) hiwdg) 0
     (map (task_wake HEALTH_PERIOD_MS example_delay (\<lambda>k. 20) 10) [1..<4])"
proof -
  obtain hiwdg where i: "MX_IWDG_Init (\<lambda>s. HAL_OK) = Some hiwdg"
    by (simp add: MX_IWDG_Init_def Let_def)
  from watchdog_is_fed [OF i _ example_delay_law, of "\<lambda>s. 256" "\<lambda>k. 20" 20 0 10 4] i show ?thesis
    by (simp add: iwdg_law_def)
qed

text \<open>C30: No transmission runs into its timeout on its own: in every reachable state, every buffer a
  pass of a task sends is on the wire, at the baud rate of the settings, within the timeout the
  sender passes to \<open>HAL_UART_Transmit\<close>, and all of them together take at most 25 ms, a quarter of
  the telemetry period.\<close>

theorem transmissions_fit_timeouts:
  fixes r :: "('q, 'e) rtos"
  assumes "fw_run r queue fw" "queue_laws r queue" "fw_pass r fw fw'"
    and "MX_USART2_UART_Init hal = Some huart2"
  shows "\<exists>bs. huart2_tx (fw_globals fw') = huart2_tx (fw_globals fw) @ bs \<and>
    (\<forall>b \<in> set bs. on_wire_within huart2 (length b) (tx_timeout_ms b)) \<and>
    on_wire_within huart2 (sum_list (map length bs)) (unat TELEM_PERIOD_MS div 4)"
proof -
  have baud: "uart_BaudRate huart2 = 115200"
    using assms(4) by (auto simp: MX_USART2_UART_Init_def Error_Handler_def Let_def split: if_splits)
  obtain bs where "huart2_tx (fw_globals fw') = huart2_tx (fw_globals fw) @ bs"
      "\<forall>b \<in> set bs. length b \<le> 72" "sum_list (map length bs) \<le> 288"
    using fw_pass_sends_little [OF assms(3) fw_run_inv [OF assms(1,2)]] by (auto simp: sends_little_def)
  then show ?thesis
    using fits_timeout [OF assms(4)] by (intro exI [of _ bs]) (simp add: on_wire_within_def baud TELEM_PERIOD_MS_def)
qed

theorem transmissions_fit_timeouts_witness:
  "\<exists>t g huart2. task_health_pass list_rtos (\<lambda>h. 100) 9000 1000 1001 (fw_sensor example_firmware)
      (fw_fsm example_firmware) (fw_health example_firmware, fw_globals example_firmware) = (t, g) \<and>
     MX_USART2_UART_Init (\<lambda>s. HAL_OK) = Some huart2 \<and>
     (\<exists>bs. huart2_tx g = huart2_tx (fw_globals example_firmware) @ bs \<and>
       (\<forall>b \<in> set bs. on_wire_within huart2 (length b) (tx_timeout_ms b)))"
proof -
  obtain t g where p: "task_health_pass list_rtos (\<lambda>h. 100) 9000 1000 1001
      (fw_sensor example_firmware) (fw_fsm example_firmware)
      (fw_health example_firmware, fw_globals example_firmware) = (t, g)"
    by (metis surj_pair)
  obtain huart2 where i: "MX_USART2_UART_Init (\<lambda>s. HAL_OK) = Some huart2"
    by (simp add: MX_USART2_UART_Init_def Let_def)
  from transmissions_fit_timeouts [OF example_run list_rtos_queue fw_pass.health [OF p] i] p i
  show ?thesis by auto
qed

end
