(* ===== verification/Spec2Isabelle.thy ===== *)
theory Spec2Isabelle
  imports Bench SimToFirmware PreemptionRaces PreemptionProgress Timing
begin

text \<open>
  AeroBench-SITL: a software-in-the-loop bench for a small flight computer.  The firmware
  (\<open>Firmware/Core\<close>, C on an STM32 with FreeRTOS) receives sensor frames over a UART, runs a
  flight state machine, keeps a flight recorder and sends telemetry; the simulator
  (\<open>Simulator\<close>, C on a PC) produces the sensor frames and injects faults.

  \<^bold>\<open>How the parts interact.\<close>  The simulator's sensor models fill a sample, its serializer packs the
  sample into a frame, and the frame goes over the UART byte by byte.  In the firmware the
  receive interrupt feeds each byte to the frame receiver and, at the end of a valid frame, sets
  a flag; the sensor task sees the flag, unpacks the sample and puts it into a queue; the
  state-machine task takes the sample, evaluates faults, brings the event flags in line with them
  and ticks the machine; the telemetry task sends the state and drains the flight recorder; the
  health task watches stacks and the packet time.  The tasks share a queue, a group of event
  flags, the recorder and the UART.  The simulator runs one loop: the scenario moves the models'
  true values and injects its faults, the injector switches the models' faults, the models give a
  sample, the serializer and the UART bridge send it, and the command server takes commands from
  a TCP client, which inject and clear faults in the same injector.

  \<^bold>\<open>Theories.\<close>  In the order of the code:
  \<^item> \<open>Prelude\<close>: machine types, byte buffers, C strings, lemma collections.
  \<^item> \<open>Crc\<close>: \<open>proto_crc16\<close> (\<open>protocol.c\<close>), compared with the bit-serial register; detection of bursts.
  \<^item> \<open>Floats\<close>: the single-precision comparisons and arithmetic the code uses, on IEEE 754 bit
    patterns, round to nearest even.
  \<^item> \<open>SensorData\<close>: \<open>sensor_data.h\<close>: the sample, the flight states, the fault bits.
  \<^item> \<open>Codec\<close>: the field writers and readers and the packed sensor payload (\<open>protocol.c\<close>); the locale
    \<open>le_codec\<close> is the contract of a writer and its reader, interpreted on each of the code's pairs.
  \<^item> \<open>Framing\<close>: \<open>protocol.h\<close>, \<open>build_frame\<close>, the packet structs and the two frame builders, compared
    with the specified frame \<open>wire_frame\<close>.
  \<^item> \<open>ProtocolRx\<close>: the receiver \<open>proto_rx_feed\<close>, as a refinement of a receiver that keeps just the
    bytes of the frame in progress; soundness and completeness of acceptance.
  \<^item> \<open>Ring\<close>: contents of a ring, and the locale \<open>record_log\<close>, the contract of a bounded log.
  \<^item> \<open>Blackbox\<close>: \<open>blackbox.h\<close>, \<open>blackbox.c\<close>: the flight recorder, an interpretation of \<open>record_log\<close>;
    sequences of its calls (\<open>bb_calls\<close>) as a refinement of a bounded queue (\<open>queue_calls\<close>).
  \<^item> \<open>FlightFsm\<close>: \<open>flight_fsm.h\<close>, \<open>flight_fsm.c\<close>: the table, \<open>fsm_tick\<close>, \<open>fsm_command\<close>; the locale
    \<open>fsm_operation\<close> is what the two share, interpreted on both; reachability \<open>fsm_run\<close>.
  \<^item> \<open>Rtos\<close>: what the tasks use of CMSIS-RTOS2 and the HAL, as a parameter with laws.
  \<^item> \<open>TaskFsm\<close>, \<open>TaskSensor\<close>, \<open>TaskTelemetry\<close>, \<open>TaskHealth\<close>: \<open>task_*.c\<close>, each with its module state and
    one pass of its loop.
  \<^item> \<open>FirmwareSystem\<close>: \<open>main.c\<close>'s start-up and the interleaving of received bytes and passes
    (\<open>fw_pass\<close>, \<open>fw_step\<close>, \<open>fw_run\<close>), with the invariant \<open>fw_inv\<close>.
  \<^item> \<open>Preemption\<close>: the same tasks cut at their accesses to shared objects, in any interleaving
    (\<open>machine_step\<close>, \<open>machine_run\<close>); the locale \<open>task_view\<close> is how the pieces of one task act on
    its part of the machine, interpreted on the four tasks.
  \<^item> \<open>PreemptionSim\<close>: a pass is what its task's pieces do when nothing comes between them.
  \<^item> \<open>PreemptionSafety\<close>: the invariant \<open>machine_inv\<close> of all interleavings.
  \<^item> \<open>PreemptionRaces\<close>: interleavings that lose records and send frames that mix two states.
  \<^item> \<open>PreemptionProgress\<close>: every task can finish its pass; the locale \<open>ranked_task\<close> extends \<open>task_view\<close>
    by a rank that each piece lowers.
  \<^item> \<open>FirmwareStart\<close>: the peripheral settings, task attributes, error hooks and order of \<open>main.c\<close>.
  \<^item> \<open>Timing\<close>: periods of the task loops, refreshes of the watchdog, time on the wire.
  \<^item> \<open>SimSerializer\<close>: \<open>packet_serializer.c\<close> and the transmit step of \<open>main_sim.c\<close>.
  \<^item> \<open>SimModels\<close>: \<open>sensor_imu.c\<close>, \<open>sensor_gps.c\<close>, \<open>sensor_battery.c\<close>, \<open>sensor_baro.c\<close>; the locale
    \<open>fault_switch\<close> is the contract of a model's fault setter, interpreted on all three.
  \<^item> \<open>FaultInjector\<close>: \<open>fault_injector.c\<close>: slots, expiry, and the switching of the models.
  \<^item> \<open>CText\<close>: \<open>sscanf\<close>, \<open>strchr\<close>, \<open>atoi\<close> and \<open>printf\<close> as far as the simulator's text needs them.
  \<^item> \<open>TcpServer\<close>: \<open>tcpserver.c\<close>: connections, assembly of lines, commands and replies; the locale
    \<open>line_handler\<close> states what the line loop needs of a command handler, and its assembler is the
    abstract specification of the loop; interpreted on \<open>handle_command\<close>.
  \<^item> \<open>UartBridge\<close>: \<open>uart_bridge.c\<close>: opening, terminal attributes, reading and writing.
  \<^item> \<open>SimMain\<close>: \<open>main_sim.c\<close>: options, start, one iteration of the loop, shutdown; runs \<open>sim_run\<close> of
    iterations and signals with the invariant \<open>sim_well_formed\<close>.
  \<^item> \<open>SimToFirmware\<close>: which simulated faults the firmware's fault evaluation sees in the samples of
    any number of rounds of the simulator's loop (\<open>sim_rounds\<close>).
  \<^item> \<open>Bench\<close>: both programs joined by the serial line, runs \<open>bench_run\<close> in any interleaving.
  This theory holds the properties that span several of the firmware's parts.

  \<^bold>\<open>State and operations.\<close>  A C struct is a record with the fields of the struct, a static variable
  a field of its module's record (\<open>s_rx_ctx\<close>, \<open>s_fsm\<close>, ..), an enum a datatype, an integer a word of
  its width, a float its bit pattern.  An operation takes the struct and returns it updated; a
  pointer that may be null is an option.  Tick counts are arguments, since the code reads the
  clock more than once per pass.  The task loops never end; one pass is one step, and all loops
  inside a pass are bounded, so no fuel is needed.  With preemption a step is a piece of a pass,
  and a program counter holds the task's place and its local variables.  The line loop of the command server is a
  recursion on the unread rest of its buffer; it is proved to stop after at most as many lines as
  there are bytes.  The result of a system call (\<open>read\<close>, \<open>accept\<close>, \<open>write\<close>, \<open>open\<close>, the clock) is an
  input of the step that makes the call, and text sent to a client is a list of bytes.

  \<^bold>\<open>What the lemmas show.\<close>  Every access of the receiver and of the recorder is in bounds; the
  encoders write exactly the specified bytes and the receiver accepts exactly the specified
  frames; the recorder keeps the last 512 records and, in any order of log and read calls, is a queue
  that is read from its oldest record, except that it is blocked from the log call that fills it
  until the next one; the state machine follows its table, and its last transition is always a row of it.  They also show where the program does not do what it means to: an accepted
  frame is cleared before the task looks at it, the sensor payload is one byte short of the size
  both sides check, so that the simulator never sends and the firmware never unpacks what it
  packed, a recorder holding exactly 512 records cannot be read, arming checks no guard and no
  task arms, and the comms fault never reaches the machine.  What holds between passes
  holds at every preemption as well, with at most one task transmitting at a time; but a busy UART
  costs recorder records, and a telemetry frame may mix the state of one pass with the faults of
  another.  No task gets stuck: 111 pieces at most bring all tasks back to their waits, since
  every piece lowers the rank of its task.  With the settings of \<open>main.c\<close> the health task feeds the
  watchdog in time, and every transmission fits into its timeout.  For the simulator: the reads of a
  client's stream may be cut anywhere without a difference, if its lines are closed commands other
  than \<open>QUIT\<close> without NUL bytes and each read fits the buffer; every named fault command injects its
  fault, a timed fault ends on time, and a GPS fault shows in every sample of the loop until then; but
  a frozen IMU shows only if it froze zeros, the default battery sag not at all, a line that fills the buffer drops the client, a command without its
  argument takes it from the next line, and a partial line outlives \<open>QUIT\<close>.  Joined, the two
  programs never leave the ground: the firmware stays in INIT.

  \<^bold>\<open>Hypotheses and parameters.\<close>  \<open>queue_laws\<close> and \<open>flag_laws\<close> state the documented behaviour of the
  message queue (first in first out, four places) and of the event flags (24 bits); \<open>list_rtos\<close>
  satisfies both.  \<open>uart_law\<close>: \<open>HAL_UART_Transmit\<close> starts on a ready UART and refuses while another
  transmission is in progress; \<open>ready_uart\<close> satisfies it.  \<open>delay_law\<close>: \<open>osDelayUntil\<close> returns when the
  tick it is given is reached, at once if it has passed, and at most so late; \<open>example_delay\<close>
  satisfies it.  \<open>iwdg_law\<close>: the prescaler named 256 divides by 256.  \<open>read_law\<close>: \<open>read\<close> returns at most the bytes it was asked for.  \<open>scenario_law\<close>: the
  scenario engine leaves the injector its eight slots and three models; \<open>example_params\<close> satisfies it.
  \<open>spares_slots\<close> and \<open>sets_motion\<close> say of one round of the simulator's loop that nothing injects or
  clears a fault in it, and that the IMU is only given a new true motion; \<open>still_round\<close> and
  \<open>motion_round\<close> satisfy them.
  Parameters without laws: the mathematical functions and \<open>rand\<close> of the C library, the scanning of
  infinities, NaNs and hexadecimal floats, the bit masks of \<open>termios.h\<close>, the initialisers of the
  HAL and \<open>osThreadNew\<close>.

  \<^bold>\<open>Not modelled.\<close>  In the firmware the scheduler's priorities (any task may run next; how late a
  task runs and how long a pass takes are parameters of \<open>Timing\<close>), the timeouts of \<open>HAL_UART_Transmit\<close>, the order of two word accesses inside one piece, stack and heap
  use, and the HAL below the calls of \<open>main\<close>; \<open>SystemClock_Config\<close> has an empty body.  In the simulator
  the scenario engine (its source is not in the repository: \<open>scenario_engine.h\<close> is a copy of
  \<open>tcpserver.c\<close>), console output other than the usage text, \<open>set_nonblocking\<close> and the peer's
  address, and the CMake file.  \<open>pkt_fault_inject_t\<close>, \<open>health_tick\<close> and the constants no code refers to have no
  behaviour to model.
\<close>

section \<open>From the UART to the queue\<close>

lemma uart_receive_ctx: "s_rx_ctx (uart_receive t b) = fst (proto_rx_feed (s_rx_ctx t) b)"
  by (simp add: uart_receive_def HAL_UART_RxCpltCallback_def split_beta Let_def)

lemma uart_receive_keeps:
  "s_packet_count (uart_receive t b) = s_packet_count t" "s_latest (uart_receive t b) = s_latest t"
  "s_crc_error_count (uart_receive t b) = s_crc_error_count t"
  by (simp_all add: uart_receive_def HAL_UART_RxCpltCallback_def split_beta Let_def)

lemma uart_receive_ready:
  "snd (proto_rx_feed (s_rx_ctx t) b) \<Longrightarrow> s_byte_ready (uart_receive t b)"
  by (simp add: uart_receive_def HAL_UART_RxCpltCallback_def split_beta Let_def)

lemma uart_receive_all:
  "s_rx_ctx (foldl uart_receive t bs) = fst (rx_run (s_rx_ctx t) bs)"
  "s_packet_count (foldl uart_receive t bs) = s_packet_count t"
  "s_latest (foldl uart_receive t bs) = s_latest t"
  "s_crc_error_count (foldl uart_receive t bs) = s_crc_error_count t"
  by (induction bs arbitrary: t)
    (simp_all add: uart_receive_ctx uart_receive_keeps split_beta Let_def)

text \<open>The state of the sensor task when the last byte of a valid frame has arrived.\<close>

lemma uart_receive_frame:
  assumes "rx_inv (s_rx_ctx t)" "rx_pending (s_rx_ctx t) = []" "length p \<le> PROTO_MAX_PAYLOAD"
  shows "s_byte_ready (foldl uart_receive t (wire_frame ty p))"
    "\<exists>ctx. s_rx_ctx (foldl uart_receive t (wire_frame ty p)) = proto_rx_reset ctx"
proof -
  have "wire_frame ty p \<noteq> []" by (simp add: wire_frame_def)
  then obtain bs b where w: "wire_frame ty p = bs @ [b]" by (metis rev_exhaust)
  let ?t = "foldl uart_receive t bs"
  have "last (snd (rx_run (s_rx_ctx t) (bs @ [b])))"
    using rx_run_wire_frame(1) [OF assms, of ty] by (simp add: w)
  then have acc: "snd (proto_rx_feed (s_rx_ctx ?t) b)"
    by (simp add: rx_run_append uart_receive_all split_beta Let_def)
  then show "s_byte_ready (foldl uart_receive t (wire_frame ty p))"
    by (simp add: w uart_receive_ready)
  obtain ctx where "proto_rx_feed (s_rx_ctx ?t) b = (ctx, True)"
    using acc by (cases "proto_rx_feed (s_rx_ctx ?t) b") auto
  then have "s_rx_ctx (uart_receive ?t b) = proto_rx_reset (s_rx_ctx ?t)"
    using proto_rx_feed_accept by (simp add: uart_receive_ctx)
  then show "\<exists>ctx. s_rx_ctx (foldl uart_receive t (wire_frame ty p)) = proto_rx_reset ctx"
    by (auto simp: w)
qed

section \<open>Properties\<close>

text \<open>C4: No valid frame is ever handled, end to end: a complete wire frame of any type and payload
  that arrives between frames raises the sensor task's flag, but its next pass counts no packet
  and no error, stores and queues no sample and answers no heartbeat.\<close>

theorem valid_frame_never_handled:
  fixes r :: "('q, 'e) rtos"
  assumes "rx_inv (s_rx_ctx t)" "rx_pending (s_rx_ctx t) = []" "length p \<le> PROTO_MAX_PAYLOAD"
    and "task_sensor_pass r now1 now tick (foldl uart_receive t (wire_frame ty p), g) = (t', g')"
  shows "s_byte_ready (foldl uart_receive t (wire_frame ty p)) \<and>
    s_packet_count t' = s_packet_count t \<and> s_crc_error_count t' = s_crc_error_count t \<and>
    s_latest t' = s_latest t \<and> g_sensor_queue g' = g_sensor_queue g \<and> huart2_tx g' = huart2_tx g"
proof -
  let ?t = "foldl uart_receive t (wire_frame ty p)"
  note fr = uart_receive_frame [OF assms(1-3), of ty]
  obtain ctx where c: "s_rx_ctx ?t = proto_rx_reset ctx" using fr(2) by blast
  have "(t', g') = task_sensor_pass r now1 now tick (?t\<lparr>s_byte_ready := False\<rparr>, g)"
    using task_sensor_pass_reset [OF fr(1) c, of r now1 now tick g] assms(4) by simp
  then have "s_packet_count t' = s_packet_count ?t" "s_crc_error_count t' = s_crc_error_count ?t"
    "s_latest t' = s_latest ?t" "g_sensor_queue g' = g_sensor_queue g" "huart2_tx g' = huart2_tx g"
    by (auto simp: task_sensor_pass_def Let_def split: if_splits)
  with fr(1) show ?thesis by (simp add: uart_receive_all)
qed

theorem valid_frame_never_handled_witness:
  "\<exists>t' g'. task_sensor_pass list_rtos 40 40 41 (foldl uart_receive (example_sensor_task proto_rx_zero)
      (wire_frame PKT_TYPE_HEARTBEAT_REQ []), sensor_example_globals []) = (t', g') \<and>
     huart2_tx g' = [] \<and> s_packet_count t' = 0"
proof -
  obtain t' g' where p: "task_sensor_pass list_rtos 40 40 41
      (foldl uart_receive (example_sensor_task proto_rx_zero) (wire_frame PKT_TYPE_HEARTBEAT_REQ []),
       sensor_example_globals []) = (t', g')"
    by (metis surj_pair)
  have c: "s_rx_ctx (example_sensor_task proto_rx_zero) = proto_rx_zero"
    "s_packet_count (example_sensor_task proto_rx_zero) = 0"
    by (simp_all add: example_sensor_task_def)
  from valid_frame_never_handled [OF _ _ _ p] p show ?thesis
    by (simp add: c sensor_example_globals_def)
qed

text \<open>C32: A comms timeout is raised and erased again: when the last packet is more than a second old
  the health task sets the comms bit, and the very next pass of the state-machine task clears it
  without having ticked the machine with it.\<close>

theorem comms_fault_is_erased:
  fixes r :: "('q, 'e) rtos"
  assumes "flag_laws r" "comms_lost now (s_last_packet_ms sensor)"
    and "task_health_pass r hwm heap now tick sensor f (th, g) = (th1, g1)"
    and "task_fsm_pass r now2 tick1 tick2 (f, g1) = (f2, g2)"
  shows "osEventFlagsGet r (g_fault_flags g1) AND FAULT_FLAG_COMMS_TIMEOUT = FAULT_FLAG_COMMS_TIMEOUT \<and>
    osEventFlagsGet r (g_fault_flags g2) AND FAULT_FLAG_COMMS_TIMEOUT = 0 \<and>
    ctx_fault_flags (s_fsm f2) AND FAULT_FLAG_COMMS_TIMEOUT = 0"
proof -
  let ?s = "pass_sample r f (g_sensor_queue g1)"
  have c: "FAULT_FLAG_COMMS_TIMEOUT = 8" by (simp add: flag_defs)
  have g1: "osEventFlagsGet r (g_fault_flags g1) = (osEventFlagsGet r (g_fault_flags g) AND NOT 0x28) OR
      (if stack_low hwm (s_registry th) then 0x20 else 0) OR 8"
    by (rule task_health_pass_cases [OF assms(3)])
      (simp add: health_flags_get [OF assms(1)] assms(2))
  have "(x OR y OR 8) AND 8 = 8" for x y :: u32
    by (rule bit_word_eqI) (auto simp: bit_simps)
  then have raised: "osEventFlagsGet r (g_fault_flags g1) AND 8 = 8" unfolding g1 by simp
  have z: "evaluate_faults ?s now2 AND 8 = 0" by (simp add: evaluate_faults_cases)
  have erased: "osEventFlagsGet r (g_fault_flags g2) AND 8 = 0"
    using task_fsm_pass_flags [OF assms(4,1)] z by simp
  have "ctx_fault_flags (s_fsm f2) = evaluate_faults ?s now2"
    by (simp add: task_fsm_pass_eqs(2) [OF assms(4)] fsm_tick_stores_flags)
  with raised erased z show ?thesis unfolding c by simp
qed

theorem comms_fault_is_erased_witness:
  "\<exists>th1 g1 f2 g2. task_health_pass list_rtos (\<lambda>h. 100) 9000 5000 5001
      ((example_sensor_task proto_rx_zero)\<lparr>s_last_packet_ms := 100\<rparr>)
      (example_fsm_task FLIGHT_STATE_PREFLIGHT) (example_health_task, example_globals [] 0) = (th1, g1) \<and>
     task_fsm_pass list_rtos 5010 5011 5012 (example_fsm_task FLIGHT_STATE_PREFLIGHT, g1) = (f2, g2) \<and>
     osEventFlagsGet list_rtos (g_fault_flags g1) AND FAULT_FLAG_COMMS_TIMEOUT = FAULT_FLAG_COMMS_TIMEOUT \<and>
     osEventFlagsGet list_rtos (g_fault_flags g2) AND FAULT_FLAG_COMMS_TIMEOUT = 0"
proof -
  obtain th1 g1 where h: "task_health_pass list_rtos (\<lambda>h. 100) 9000 5000 5001
      ((example_sensor_task proto_rx_zero)\<lparr>s_last_packet_ms := 100\<rparr>)
      (example_fsm_task FLIGHT_STATE_PREFLIGHT) (example_health_task, example_globals [] 0) = (th1, g1)"
    by (metis surj_pair)
  obtain f2 g2 where f: "task_fsm_pass list_rtos 5010 5011 5012
      (example_fsm_task FLIGHT_STATE_PREFLIGHT, g1) = (f2, g2)"
    by (metis surj_pair)
  have "comms_lost 5000 (s_last_packet_ms ((example_sensor_task proto_rx_zero)\<lparr>s_last_packet_ms := 100\<rparr>))"
    by (simp add: comms_lost_def)
  from comms_fault_is_erased [OF list_rtos_flags this h f] h f show ?thesis by blast
qed

end
